(* ===== verification/Prelude.thy ===== *)
theory Prelude
  imports Main "HOL-Library.Word"
begin

text \<open>
  Shared vocabulary of the development: bytes and slices, errors and results, and the generic
  lemmas on lists and options that the component theories use.

  A Go \<open>string\<close> is a byte sequence, so it is a HOL \<open>string\<close> (a \<open>char\<close> is one byte). A Go
  \<open>[]byte\<close> whose nil-ness the code tests is a \<open>slice\<close>: \<open>None\<close> is nil. Where only the contents
  matter it is a \<open>bytes\<close>.
\<close>

type_synonym byte = "8 word"
type_synonym bytes = "byte list"
type_synonym slice = "bytes option"

text \<open>
  Error values. \<open>ErrAlreadyExist\<close> is the package variable of crdtverse.go, compared by identity.
  \<open>ErrNew m\<close> is an \<open>errors.New(m)\<close> of the source, \<open>ErrLib m\<close> an error a library returned
  whose \<open>Error()\<close> text is \<open>m\<close>; \<open>ErrDeadlineExceeded\<close> is \<open>context.DeadlineExceeded\<close>.
\<close>

datatype goerror =
    ErrAlreadyExist
  | ErrDeadlineExceeded
  | ErrNew string
  | ErrLib string

fun err_text :: "goerror \<Rightarrow> string" where
  "err_text ErrAlreadyExist = ''the key already exists''"
| "err_text ErrDeadlineExceeded = ''context deadline exceeded''"
| "err_text (ErrNew m) = m"
| "err_text (ErrLib m) = m"

text \<open>A Go \<open>(value, error)\<close> result: the value is only used when the error is nil.\<close>

type_synonym 'a res = "goerror + 'a"

definition is_ok :: "'a res \<Rightarrow> bool" where
  "is_ok r = (case r of Inl _ \<Rightarrow> False | Inr _ \<Rightarrow> True)"

lemma is_ok_simps [simp]: "is_ok (Inr x)" "\<not> is_ok (Inl e)"
  by (simp_all add: is_ok_def)

lemma is_ok_iff: "is_ok r \<longleftrightarrow> (\<exists>x. r = Inr x)"
  by (cases r) simp_all

definition contents :: "slice \<Rightarrow> bytes" where
  "contents s = (case s of None \<Rightarrow> [] | Some b \<Rightarrow> b)"

lemma contents_simps [simp]: "contents None = []" "contents (Some b) = b"
  by (simp_all add: contents_def)

text \<open>A bytes field of a decoded proto3 message is nil when it was empty.\<close>

definition canon_slice :: "slice \<Rightarrow> slice" where
  "canon_slice s = (if contents s = [] then None else s)"

lemma contents_canon [simp]: "contents (canon_slice s) = contents s"
  by (cases s) (simp_all add: canon_slice_def)

lemma canon_slice_idem [simp]: "canon_slice (canon_slice s) = canon_slice s"
  by (simp add: canon_slice_def)

lemma canon_slice_Some [simp]: "b \<noteq> [] \<Longrightarrow> canon_slice (Some b) = Some b"
  by (simp add: canon_slice_def)

text \<open>The conversions \<open>[]byte(s)\<close> and \<open>string(b)\<close>.\<close>

definition bytes_of_string :: "string \<Rightarrow> bytes" where
  "bytes_of_string s = map of_char s"

definition string_of_bytes :: "bytes \<Rightarrow> string" where
  "string_of_bytes b = map (\<lambda>w. char_of (unat w)) b"

lemma char_of_unat_of_char [simp]: "char_of (unat (of_char c :: byte)) = c"
proof -
  have "unat (of_nat (of_char c) :: byte) = of_char c"
    using nat_of_char_less_256 [of c] by (simp add: unat_of_nat)
  then show ?thesis
    by (simp only: of_nat_of_char char_of_char)
qed

lemma string_of_bytes_of_string [simp]: "string_of_bytes (bytes_of_string s) = s"
  by (induction s) (simp_all add: string_of_bytes_def bytes_of_string_def)

lemma bytes_of_string_inject [simp]: "bytes_of_string s = bytes_of_string t \<longleftrightarrow> s = t"
  by (metis string_of_bytes_of_string)

text \<open>Collections: the equations of the Go standard library, and the laws of the libraries.\<close>

named_theorems go_std \<open>equations of the modelled Go standard library\<close>
named_theorems lib_laws \<open>consequences of the named laws of third-party libraries\<close>
named_theorems store_defs \<open>definitions unfolded when a store operation is run\<close>

end
