(* ===== verification/GoStrings.thy ===== *)
theory GoStrings
  imports Prelude
begin

text \<open>
  The functions of Go's package \<open>strings\<close> that the source calls: \<open>Split\<close> and \<open>Join\<close> at the
  one-byte separator \<open>/\<close>, \<open>TrimPrefix\<close>, \<open>HasPrefix\<close> and \<open>Compare\<close>; and the idiom
  \<open>strings.Split(strings.TrimPrefix(key, "/"), "/")\<close> that every component uses to read a
  datastore key, as \<open>key_parts\<close>.
\<close>

fun go_split :: "char \<Rightarrow> string \<Rightarrow> string list" where
  "go_split c [] = [[]]"
| "go_split c (x # xs) =
     (if x = c then [] # go_split c xs
      else (case go_split c xs of [] \<Rightarrow> [[x]] | y # ys \<Rightarrow> (x # y) # ys))"

fun go_join :: "string \<Rightarrow> string list \<Rightarrow> string" where
  "go_join sep [] = []"
| "go_join sep [x] = x"
| "go_join sep (x # y # ys) = x @ sep @ go_join sep (y # ys)"

definition has_prefix :: "string \<Rightarrow> string \<Rightarrow> bool" where
  "has_prefix s p \<longleftrightarrow> take (length p) s = p"

definition trim_prefix :: "string \<Rightarrow> string \<Rightarrow> string" where
  "trim_prefix s p = (if has_prefix s p then drop (length p) s else s)"

text \<open>\<open>strings.Compare\<close>: byte-wise lexicographic, -1, 0 or 1.\<close>

fun str_compare :: "string \<Rightarrow> string \<Rightarrow> int" where
  "str_compare [] [] = 0"
| "str_compare [] (y # ys) = -1"
| "str_compare (x # xs) [] = 1"
| "str_compare (x # xs) (y # ys) =
     (if (of_char x :: nat) < of_char y then -1
      else if (of_char y :: nat) < of_char x then 1
      else str_compare xs ys)"

definition key_parts :: "string \<Rightarrow> string list" where
  "key_parts key = go_split (CHR ''/'') (trim_prefix key ''/'')"

section \<open>Split and join\<close>

lemma go_split_nonempty [simp]: "go_split c s \<noteq> []"
  by (cases s) (auto split: list.splits)

lemma go_split_length_pos [simp]: "0 < length (go_split c s)"
  by simp

lemma key_parts_nonempty [simp]: "key_parts k \<noteq> []"
  by (simp add: key_parts_def)

lemma go_split_no_sep: "c \<notin> set s \<Longrightarrow> go_split c s = [s]"
  by (induction s) auto

lemma go_split_append: "go_split c (s @ c # t) = go_split c s @ go_split c t"
proof (induction s)
  case Nil
  then show ?case by simp
next
  case (Cons x s)
  then show ?case
    by (cases "go_split c s") (auto dest: arg_cong [where f = length])
qed

lemma go_split_parts_no_sep: "p \<in> set (go_split c s) \<Longrightarrow> c \<notin> set p"
proof (induction s arbitrary: p)
  case Nil
  then show ?case by simp
next
  case (Cons x s)
  then show ?case
    by (cases "go_split c s") (auto split: if_splits)
qed

lemma go_join_cons: "xs \<noteq> [] \<Longrightarrow> go_join sep (x # xs) = x @ sep @ go_join sep xs"
  by (cases xs) simp_all

lemma go_join_append:
  "xs \<noteq> [] \<Longrightarrow> ys \<noteq> [] \<Longrightarrow> go_join sep (xs @ ys) = go_join sep xs @ sep @ go_join sep ys"
proof (induction xs)
  case Nil
  then show ?case by simp
next
  case (Cons x xs)
  then show ?case
    by (cases "xs = []") (simp_all add: go_join_cons)
qed

lemma go_join_split [simp]: "go_join [c] (go_split c s) = s"
proof (induction s)
  case Nil
  then show ?case by simp
next
  case (Cons x s)
  then show ?case
    by (cases "go_split c s"; cases "tl (go_split c s)") (auto simp: go_join_cons)
qed

lemma go_split_join:
  "xs \<noteq> [] \<Longrightarrow> (\<And>x. x \<in> set xs \<Longrightarrow> c \<notin> set x) \<Longrightarrow> go_split c (go_join [c] xs) = xs"
proof (induction xs)
  case Nil
  then show ?case by simp
next
  case (Cons x xs)
  then show ?case
    by (cases "xs = []") (simp_all add: go_split_no_sep go_join_cons go_split_append)
qed

section \<open>Prefixes\<close>

lemma has_prefix_iff: "has_prefix s p \<longleftrightarrow> (\<exists>r. s = p @ r)"
  by (metis append_eq_conv_conj append_take_drop_id has_prefix_def)

lemma has_prefix_append [simp]: "has_prefix (p @ r) p"
  by (simp add: has_prefix_def)

lemma trim_prefix_append [simp]: "trim_prefix (p @ r) p = r"
  by (simp add: trim_prefix_def)

lemma trim_slash [simp]: "trim_prefix (CHR ''/'' # r) ''/'' = r"
  by (simp add: trim_prefix_def has_prefix_def)

lemma trim_slash_other [simp]: "c \<noteq> CHR ''/'' \<Longrightarrow> trim_prefix (c # r) ''/'' = c # r"
  by (simp add: trim_prefix_def has_prefix_def)

lemma trim_slash_nil [simp]: "trim_prefix [] ''/'' = []"
  by (simp add: trim_prefix_def has_prefix_def)

section \<open>Key components\<close>

lemma key_parts_slash [simp]: "key_parts (CHR ''/'' # k) = go_split (CHR ''/'') k"
  by (simp add: key_parts_def)

lemma key_parts_no_lead: "\<not> has_prefix k ''/'' \<Longrightarrow> key_parts k = go_split (CHR ''/'') k"
  by (simp add: key_parts_def trim_prefix_def)

lemma key_parts_append:
  "key_parts (CHR ''/'' # k @ CHR ''/'' # t) = go_split (CHR ''/'') k @ go_split (CHR ''/'') t"
  by (simp add: go_split_append)

lemma key_parts_no_slash: "p \<in> set (key_parts k) \<Longrightarrow> CHR ''/'' \<notin> set p"
  unfolding key_parts_def by (rule go_split_parts_no_sep)

section \<open>Comparison\<close>

lemma str_compare_refl [simp]: "str_compare s s = 0"
  by (induction s) simp_all

lemma of_char_nat_eq_iff: "(of_char x :: nat) = of_char y \<longleftrightarrow> x = y"
  by simp

lemma str_compare_eq_0: "str_compare s t = 0 \<longleftrightarrow> s = t"
proof (induction s t rule: str_compare.induct)
  case (4 x xs y ys)
  then show ?case
    using of_char_nat_eq_iff [of x y] by (auto simp del: of_char_eq_iff)
qed simp_all

lemma str_compare_values: "str_compare s t \<in> {-1, 0, 1}"
  by (induction s t rule: str_compare.induct) auto

lemma str_compare_antisym: "str_compare t s = - str_compare s t"
  by (induction s t rule: str_compare.induct) auto

lemma str_compare_Cons_le:
  "str_compare (x # xs) (y # ys) \<le> 0 \<longleftrightarrow>
     (of_char x :: nat) < of_char y \<or> x = y \<and> str_compare xs ys \<le> 0"
proof (cases "x = y")
  case False
  then have "(of_char x :: nat) \<noteq> of_char y" by simp
  with False show ?thesis by auto
qed simp

lemma str_compare_Nil_le: "str_compare [] t \<le> 0"
  by (cases t) simp_all

lemma str_compare_trans:
  "str_compare s t \<le> 0 \<Longrightarrow> str_compare t u \<le> 0 \<Longrightarrow> str_compare s u \<le> 0"
proof (induction s arbitrary: t u)
  case Nil
  then show ?case by (simp add: str_compare_Nil_le)
next
  case (Cons x xs)
  from Cons.prems(1) obtain y ys where t: "t = y # ys" by (cases t) auto
  with Cons.prems(2) obtain z zs where u: "u = z # zs" by (cases u) auto
  from Cons.prems Cons.IH [of ys zs] show ?case
    unfolding t u str_compare_Cons_le by (elim disjE conjE) (simp_all del: of_char_eq_iff)
qed

end
