(* ===== verification/Base64.thy ===== *)
theory Base64
  imports GoStrings
begin

text \<open>
  Go's \<open>base64.URLEncoding\<close> (the URL-safe alphabet, padded), which turns binary addresses,
  hash keys and timestamps into key components. The encoder takes three bytes to four digits;
  the decoder follows \<open>Encoding.Decode\<close>: carriage returns and line feeds are skipped, padding
  is required and only allowed at the end, and the unused low bits of a padded group are not
  checked (the encoding is not strict). The empty string decodes to no bytes.
\<close>

definition b64_alphabet :: string where
  "b64_alphabet = ''ABCDEFGHIJKLMNOPQRSTUVWXYZabcdefghijklmnopqrstuvwxyz0123456789-_''"

definition b64_digit :: "nat \<Rightarrow> char" where
  "b64_digit i = b64_alphabet ! i"

definition b64_index :: "char \<Rightarrow> nat option" where
  "b64_index c = map_of (zip b64_alphabet [0..<64]) c"

fun b64_encode :: "bytes \<Rightarrow> string" where
  "b64_encode [] = []"
| "b64_encode [a] =
     (let v = unat a * 65536
      in [b64_digit (v div 262144), b64_digit (v div 4096 mod 64), CHR ''='', CHR ''=''])"
| "b64_encode [a, b] =
     (let v = unat a * 65536 + unat b * 256
      in [b64_digit (v div 262144), b64_digit (v div 4096 mod 64),
          b64_digit (v div 64 mod 64), CHR ''=''])"
| "b64_encode (a # b # c # r) =
     (let v = unat a * 65536 + unat b * 256 + unat c
      in [b64_digit (v div 262144), b64_digit (v div 4096 mod 64),
          b64_digit (v div 64 mod 64), b64_digit (v mod 64)] @ b64_encode r)"

text \<open>The bytes of one group of four digits, high byte first.\<close>

definition b64_group :: "nat \<Rightarrow> nat \<Rightarrow> nat \<Rightarrow> nat \<Rightarrow> bytes" where
  "b64_group i j k l =
     (let v = i * 262144 + j * 4096 + k * 64 + l
      in [word_of_nat (v div 65536), word_of_nat (v div 256), word_of_nat v])"

definition b64_corrupt :: "'a res" where
  "b64_corrupt = Inl (ErrLib ''illegal base64 data'')"

fun b64_quanta :: "string \<Rightarrow> bytes res" where
  "b64_quanta [] = Inr []"
| "b64_quanta (w # x # y # z # r) =
     (case (b64_index w, b64_index x, b64_index y, b64_index z) of
        (Some i, Some j, Some k, Some l) \<Rightarrow>
          (case b64_quanta r of Inl e \<Rightarrow> Inl e | Inr bs \<Rightarrow> Inr (b64_group i j k l @ bs))
      | (Some i, Some j, Some k, None) \<Rightarrow>
          if z = CHR ''='' \<and> r = [] then Inr (take 2 (b64_group i j k 0)) else b64_corrupt
      | (Some i, Some j, None, _) \<Rightarrow>
          if y = CHR ''='' \<and> z = CHR ''='' \<and> r = [] then Inr (take 1 (b64_group i j 0 0))
          else b64_corrupt
      | _ \<Rightarrow> b64_corrupt)"
| "b64_quanta _ = b64_corrupt"

definition is_newline :: "char \<Rightarrow> bool" where
  "is_newline c \<longleftrightarrow> c = CHR 0x0A \<or> c = CHR 0x0D"

definition b64_decode :: "string \<Rightarrow> bytes res" where
  "b64_decode s = b64_quanta (filter (\<lambda>c. \<not> is_newline c) s)"

section \<open>The alphabet\<close>

lemma b64_alphabet_length: "length b64_alphabet = 64"
  by (simp add: b64_alphabet_def)

lemma b64_alphabet_distinct: "distinct b64_alphabet"
  by (simp add: b64_alphabet_def)

lemma b64_index_digit [simp]: "i < 64 \<Longrightarrow> b64_index (b64_digit i) = Some i"
  using map_of_zip_nth [of b64_alphabet "[0..<64]" i]
  by (simp add: b64_index_def b64_digit_def b64_alphabet_length b64_alphabet_distinct)

lemma b64_digit_in: "i < 64 \<Longrightarrow> b64_digit i \<in> set b64_alphabet"
  by (simp add: b64_digit_def b64_alphabet_length)

lemma b64_index_pad [simp]: "b64_index (CHR ''='') = None"
  by (simp add: b64_index_def b64_alphabet_length b64_alphabet_def del: upt_conv_Cons)

lemma b64_alphabet_not_newline: "c \<in> set b64_alphabet \<Longrightarrow> \<not> is_newline c"
  by (auto simp: b64_alphabet_def is_newline_def)

lemma b64_alphabet_not_special:
  "c \<in> set b64_alphabet \<Longrightarrow> c \<noteq> CHR ''/'' \<and> c \<noteq> CHR ''.'' \<and> c \<noteq> CHR ''*''"
  by (auto simp: b64_alphabet_def)

section \<open>The characters of an encoding\<close>

lemma byte_bound: "unat (a :: byte) < 256"
  using unsigned_less [of a] by simp

lemma b64_digits_bound:
  assumes "v < 16777216"
  shows "v div 262144 < (64::nat)" "v div 4096 mod 64 < (64::nat)" "v div 64 mod 64 < (64::nat)"
    "v mod 64 < (64::nat)"
  using assms by (simp_all add: less_mult_imp_div_less)

lemma three_bytes_bound:
  "unat (a :: byte) * 65536 < 16777216"
  "unat (a :: byte) * 65536 + unat (b :: byte) * 256 < 16777216"
  "unat (a :: byte) * 65536 + unat (b :: byte) * 256 + unat (c :: byte) < 16777216"
  using byte_bound [of a] byte_bound [of b] byte_bound [of c] by linarith+

lemma b64_encode_chars: "c \<in> set (b64_encode bs) \<Longrightarrow> c \<in> insert (CHR ''='') (set b64_alphabet)"
proof (induction bs rule: b64_encode.induct)
  case (2 a)
  then show ?case
    using b64_digits_bound [OF three_bytes_bound(1) [of a]]
    by (auto simp: Let_def intro: b64_digit_in)
next
  case (3 a b)
  then show ?case
    using b64_digits_bound [OF three_bytes_bound(2) [of a b]]
    by (auto simp: Let_def intro: b64_digit_in)
next
  case (4 a b c r)
  then show ?case
    using b64_digits_bound [OF three_bytes_bound(3) [of a b c]]
    by (auto simp: Let_def intro: b64_digit_in)
qed simp

lemma b64_encode_no_special:
  "c \<in> set (b64_encode bs) \<Longrightarrow>
     c \<noteq> CHR ''/'' \<and> c \<noteq> CHR ''.'' \<and> c \<noteq> CHR ''*'' \<and> \<not> is_newline c"
  using b64_encode_chars [of c bs] b64_alphabet_not_newline [of c] b64_alphabet_not_special [of c]
  by (auto simp: is_newline_def)

lemma b64_encode_no_slash [simp]: "CHR ''/'' \<notin> set (b64_encode bs)"
  using b64_encode_no_special by blast

lemma b64_encode_eq_Nil [simp]: "b64_encode bs = [] \<longleftrightarrow> bs = []"
  by (cases bs rule: b64_encode.cases) (simp_all add: Let_def)

lemma b64_encode_hd_not_dot: "b64_encode bs \<noteq> CHR ''.'' # r"
  using b64_encode_no_special [of "CHR ''.''" bs] by (metis list.set_intros(1))

lemma b64_encode_hd_not_star: "b64_encode bs \<noteq> CHR ''*'' # r"
  using b64_encode_no_special [of "CHR ''*''" bs] by (metis list.set_intros(1))

section \<open>Round trip\<close>

lemma b64_group_digits:
  assumes "v < 16777216"
  shows "b64_group (v div 262144) (v div 4096 mod 64) (v div 64 mod 64) (v mod 64) =
    [word_of_nat (v div 65536), word_of_nat (v div 256), word_of_nat v]"
proof -
  have "v div 64 = v div 4096 * 64 + v div 64 mod 64"
    using div_mult_mod_eq [of "v div 64" 64] by (simp add: div_mult2_eq [symmetric])
  moreover have "v div 4096 = v div 262144 * 64 + v div 4096 mod 64"
    using div_mult_mod_eq [of "v div 4096" 64] by (simp add: div_mult2_eq [symmetric])
  ultimately have "v div 262144 * 262144 + v div 4096 mod 64 * 4096 + v div 64 mod 64 * 64 + v mod 64 = v"
    using div_mult_mod_eq [of v 64] by linarith
  then show ?thesis by (simp add: b64_group_def Let_def)
qed

lemma word_of_nat_byte_add:
  "word_of_nat (n * 256 + unat (b :: byte)) = b"
proof -
  have "(word_of_nat (n * 256 + unat b) :: byte) = word_of_nat n * 256 + b"
    by simp
  also have "(256 :: byte) = 0" by simp
  finally show ?thesis by simp
qed

lemma bytes_of_value:
  fixes a b c :: byte
  defines "v \<equiv> unat a * 65536 + unat b * 256 + unat c"
  shows "word_of_nat (v div 65536) = a" "word_of_nat (v div 256) = b" "word_of_nat v = c"
proof -
  have bc: "unat b \<le> 255" "unat c \<le> 255"
    using byte_bound [of b] byte_bound [of c] by simp_all
  then have "v div 65536 = unat a"
    unfolding v_def by (intro div_nat_eqI) simp_all
  then show "word_of_nat (v div 65536) = a" by simp
  have "v div 256 = unat a * 256 + unat b"
    unfolding v_def using bc by (intro div_nat_eqI) simp_all
  then show "word_of_nat (v div 256) = b" by (simp only: word_of_nat_byte_add)
  have "v = (unat a * 256 + unat b) * 256 + unat c"
    unfolding v_def by simp
  then show "word_of_nat v = c" by (simp only: word_of_nat_byte_add)
qed

lemma b64_quanta_encode: "b64_quanta (b64_encode bs) = Inr bs"
proof (induction bs rule: b64_encode.induct)
  case 1
  show ?case by simp
next
  case (2 a)
  let ?v = "unat a * 65536"
  have "b64_group (?v div 262144) (?v div 4096 mod 64) 0 0 = [a, 0, 0]"
    using b64_group_digits [OF three_bytes_bound(1) [of a]] bytes_of_value [of a 0 0] by simp
  then show ?case
    using b64_digits_bound [OF three_bytes_bound(1) [of a]] by (simp add: Let_def)
next
  case (3 a b)
  let ?v = "unat a * 65536 + unat b * 256"
  have "b64_group (?v div 262144) (?v div 4096 mod 64) (?v div 64 mod 64) 0 = [a, b, 0]"
    using b64_group_digits [OF three_bytes_bound(2) [of a b]] bytes_of_value [of a b 0]
    by simp
  then show ?case
    using b64_digits_bound [OF three_bytes_bound(2) [of a b]] by (simp add: Let_def)
next
  case (4 a b c r)
  let ?v = "unat a * 65536 + unat b * 256 + unat c"
  have "b64_group (?v div 262144) (?v div 4096 mod 64) (?v div 64 mod 64) (?v mod 64) = [a, b, c]"
    using b64_group_digits [OF three_bytes_bound(3) [of a b c]] bytes_of_value [of a b c] by simp
  then show ?case
    using b64_digits_bound [OF three_bytes_bound(3) [of a b c]] 4 by (simp add: Let_def)
qed

lemma b64_decode_encode [simp]: "b64_decode (b64_encode bs) = Inr bs"
proof -
  have "filter (\<lambda>c. \<not> is_newline c) (b64_encode bs) = b64_encode bs"
    using b64_encode_no_special by (intro filter_True ballI) blast
  then show ?thesis by (simp add: b64_decode_def b64_quanta_encode)
qed

lemma b64_encode_inject [simp]: "b64_encode a = b64_encode b \<longleftrightarrow> a = b"
  by (metis b64_decode_encode sum.inject(2))

lemma b64_decode_empty [simp]: "b64_decode [] = Inr []"
  by (simp add: b64_decode_def)

text \<open>
  The decoder is not injective: a line feed inside a component is skipped, so two different
  strings may decode to the same bytes.
\<close>

lemma b64_decode_newline: "b64_decode (s @ CHR 0x0A # t) = b64_decode (s @ t)"
  by (simp add: b64_decode_def is_newline_def)

end
