(* ===== verification/GoTime.thy ===== *)
theory GoTime
  imports Prelude "HOL-Library.Product_Lexorder"
begin

unbundle bit_operations_syntax

text \<open>
  Go's \<open>time.Time\<close> as the standard library of Go 1.17 (the version go.mod names) represents it,
  with the 64-bit words \<open>wall\<close> and \<open>ext\<close>: when the top bit of \<open>wall\<close> is set the value carries a
  monotonic reading, otherwise \<open>ext\<close> is the number of seconds since year 1. The operations are
  the ones the source calls: \<open>UTC\<close>, \<open>Equal\<close>, \<open>Before\<close>, \<open>After\<close>, \<open>Location().String()\<close>,
  \<open>MarshalBinary\<close> and \<open>UnmarshalBinary\<close>. The lemmas show the binary round trip and that the
  comparisons of stripped times refine the linear order of \<open>instant\<close>s.
\<close>

text \<open>
  A location is UTC, or a zone with a name and an offset in seconds at each Unix time.
  \<open>time.Local\<close> is a zone of the machine, so it is an argument of \<open>time_unmarshal\<close>.
\<close>

type_synonym zone = "string \<times> (64 word \<Rightarrow> int)"

datatype location = UTC | Zone zone

record gotime =
  t_wall :: "64 word"
  t_ext :: "64 word"
  t_loc :: location

definition zero_time :: gotime where
  "zero_time = \<lparr>t_wall = 0, t_ext = 0, t_loc = UTC\<rparr>"

definition hasMonotonic :: "64 word" where "hasMonotonic = 0x8000000000000000"
definition nsecMask :: "64 word" where "nsecMask = 0x3FFFFFFF"
definition wallToInternal :: "64 word" where "wallToInternal = 59453308800"
definition unixToInternal :: "64 word" where "unixToInternal = 62135596800"

definition t_sec :: "gotime \<Rightarrow> 64 word" where
  "t_sec t = (if t_wall t AND hasMonotonic \<noteq> 0
              then wallToInternal + drop_bit 31 (push_bit 1 (t_wall t)) else t_ext t)"

definition t_nsec :: "gotime \<Rightarrow> 64 word" where
  "t_nsec t = t_wall t AND nsecMask"

definition unix_sec :: "gotime \<Rightarrow> 64 word" where
  "unix_sec t = t_sec t - unixToInternal"

definition strip_mono :: "gotime \<Rightarrow> gotime" where
  "strip_mono t = (if t_wall t AND hasMonotonic \<noteq> 0
                   then t\<lparr>t_ext := t_sec t, t_wall := t_wall t AND nsecMask\<rparr> else t)"

definition set_loc :: "location \<Rightarrow> gotime \<Rightarrow> gotime" where
  "set_loc l t = (strip_mono t)\<lparr>t_loc := l\<rparr>"

definition to_utc :: "gotime \<Rightarrow> gotime" where
  "to_utc t = set_loc UTC t"

fun loc_name :: "location \<Rightarrow> string" where
  "loc_name UTC = ''UTC''"
| "loc_name (Zone z) = fst z"

definition both_mono :: "gotime \<Rightarrow> gotime \<Rightarrow> bool" where
  "both_mono t u \<longleftrightarrow> t_wall t AND t_wall u AND hasMonotonic \<noteq> 0"

definition time_equal :: "gotime \<Rightarrow> gotime \<Rightarrow> bool" where
  "time_equal t u =
     (if both_mono t u then t_ext t = t_ext u else t_sec t = t_sec u \<and> t_nsec t = t_nsec u)"

definition time_before :: "gotime \<Rightarrow> gotime \<Rightarrow> bool" where
  "time_before t u =
     (if both_mono t u then sint (t_ext t) < sint (t_ext u)
      else sint (t_sec t) < sint (t_sec u) \<or> t_sec t = t_sec u \<and> t_nsec t < t_nsec u)"

definition time_after :: "gotime \<Rightarrow> gotime \<Rightarrow> bool" where
  "time_after t u =
     (if both_mono t u then sint (t_ext u) < sint (t_ext t)
      else sint (t_sec u) < sint (t_sec t) \<or> t_sec t = t_sec u \<and> t_nsec u < t_nsec t)"

section \<open>The binary form\<close>

text \<open>Big-endian bytes of a word, and the word of big-endian bytes.\<close>

fun be_bytes :: "nat \<Rightarrow> 'a::len word \<Rightarrow> bytes" where
  "be_bytes 0 w = []"
| "be_bytes (Suc n) w = be_bytes n (drop_bit 8 w) @ [ucast w]"

definition be_word :: "bytes \<Rightarrow> 'a::len word" where
  "be_word bs = foldl (\<lambda>acc b. push_bit 8 acc OR ucast b) 0 bs"

definition zone_offset :: "gotime \<Rightarrow> int" where
  "zone_offset t = (case t_loc t of UTC \<Rightarrow> 0 | Zone z \<Rightarrow> snd z (unix_sec t))"

definition time_marshal :: "gotime \<Rightarrow> bytes res" where
  "time_marshal t =
     (let enc = (\<lambda>offsetMin :: int.
            [1] @ be_bytes 8 (t_sec t) @ be_bytes 4 (ucast (t_nsec t) :: 32 word)
            @ be_bytes 2 (word_of_int offsetMin :: 16 word))
      in case t_loc t of
           UTC \<Rightarrow> Inr (enc (-1))
         | Zone z \<Rightarrow>
             let offset = snd z (unix_sec t) in
             if offset mod 60 \<noteq> 0
             then Inl (ErrLib ''Time.MarshalBinary: zone offset has fractional minute'')
             else let m = offset div 60 in
               if m < -32768 \<or> m = -1 \<or> 32767 < m
               then Inl (ErrLib ''Time.MarshalBinary: unexpected zone offset'')
               else Inr (enc m))"

definition time_unmarshal :: "zone \<Rightarrow> bytes \<Rightarrow> gotime res" where
  "time_unmarshal local buf =
     (case buf of
        [] \<Rightarrow> Inl (ErrLib ''Time.UnmarshalBinary: no data'')
      | v # r \<Rightarrow>
          if v \<noteq> 1 then Inl (ErrLib ''Time.UnmarshalBinary: unsupported version'')
          else if length buf \<noteq> 15 then Inl (ErrLib ''Time.UnmarshalBinary: invalid length'')
          else
            let sec = be_word (take 8 r);
                nsec = be_word (take 4 (drop 8 r)) :: 32 word;
                offset = sint (be_word (drop 12 r) :: 16 word) * 60;
                t = \<lparr>t_wall = scast nsec, t_ext = sec, t_loc = UTC\<rparr>
            in Inr (if offset = -60 then set_loc UTC t
                    else if snd local (unix_sec t) = offset then set_loc (Zone local) t
                    else set_loc (Zone ([], \<lambda>_. offset)) t))"

section \<open>Well-formed times\<close>

definition wf_time :: "gotime \<Rightarrow> bool" where
  "wf_time t \<longleftrightarrow> (t_wall t AND hasMonotonic = 0 \<longrightarrow> t_wall t AND nsecMask = t_wall t)"

definition no_mono :: "gotime \<Rightarrow> bool" where
  "no_mono t \<longleftrightarrow> t_wall t AND hasMonotonic = 0"

lemma mask_mono [simp]: "(w AND nsecMask) AND hasMonotonic = 0"
proof -
  have "nsecMask AND hasMonotonic = 0" by (simp add: nsecMask_def hasMonotonic_def)
  then show ?thesis by (simp add: and.assoc)
qed

lemma strip_mono_no_mono [simp]: "no_mono (strip_mono t)"
  by (simp add: no_mono_def strip_mono_def)

lemma strip_mono_id: "no_mono t \<Longrightarrow> strip_mono t = t"
  by (simp add: no_mono_def strip_mono_def)

lemma strip_mono_sec [simp]: "t_sec (strip_mono t) = t_sec t"
  by (simp add: t_sec_def strip_mono_def)

lemma strip_mono_nsec [simp]: "t_nsec (strip_mono t) = t_nsec t"
  by (simp add: t_nsec_def strip_mono_def and.assoc)

lemma strip_mono_loc [simp]: "t_loc (strip_mono t) = t_loc t"
  by (simp add: strip_mono_def)

lemma set_loc_simps [simp]:
  "t_sec (set_loc l t) = t_sec t" "t_nsec (set_loc l t) = t_nsec t" "t_loc (set_loc l t) = l"
  "no_mono (set_loc l t)"
  using strip_mono_sec [of t] strip_mono_nsec [of t] strip_mono_no_mono [of t]
  by (simp_all add: set_loc_def t_sec_def t_nsec_def no_mono_def)

lemma to_utc_simps [simp]:
  "t_sec (to_utc t) = t_sec t" "t_nsec (to_utc t) = t_nsec t" "t_loc (to_utc t) = UTC"
  "no_mono (to_utc t)"
  by (simp_all add: to_utc_def)

lemma wf_time_set_loc: "wf_time t \<Longrightarrow> wf_time (set_loc l t)"
  by (simp add: wf_time_def set_loc_def strip_mono_def and.assoc)

lemma wf_time_to_utc: "wf_time t \<Longrightarrow> wf_time (to_utc t)"
  by (simp add: to_utc_def wf_time_set_loc)

lemma wf_zero_time [simp]: "wf_time zero_time" "no_mono zero_time" "t_loc zero_time = UTC"
  by (simp_all add: wf_time_def zero_time_def no_mono_def)

section \<open>The instant of a time, and its order\<close>

datatype instant = Instant (i_sec: int) (i_nsec: int)

instantiation instant :: linorder
begin

definition less_eq_instant :: "instant \<Rightarrow> instant \<Rightarrow> bool" where
  "a \<le> b \<longleftrightarrow> (i_sec a, i_nsec a) \<le> (i_sec b, i_nsec b)"

definition less_instant :: "instant \<Rightarrow> instant \<Rightarrow> bool" where
  "a < b \<longleftrightarrow> (i_sec a, i_nsec a) < (i_sec b, i_nsec b)"

instance
  by standard (auto simp: less_eq_instant_def less_instant_def intro: instant.expand)

end

definition instant_of :: "gotime \<Rightarrow> instant" where
  "instant_of t = Instant (sint (t_sec t)) (uint (t_nsec t))"

lemma instant_of_to_utc [simp]: "instant_of (to_utc t) = instant_of t"
  by (simp add: instant_of_def)

lemma instant_of_set_loc [simp]: "instant_of (set_loc l t) = instant_of t"
  by (simp add: instant_of_def)

lemma both_mono_no_mono [simp]:
  "no_mono t \<Longrightarrow> \<not> both_mono t u" "no_mono u \<Longrightarrow> \<not> both_mono t u"
proof -
  assume "no_mono t"
  then have "t_wall u AND (t_wall t AND hasMonotonic) = 0" by (simp add: no_mono_def)
  then show "\<not> both_mono t u" by (simp add: both_mono_def ac_simps)
next
  assume "no_mono u"
  then have "t_wall t AND (t_wall u AND hasMonotonic) = 0" by (simp add: no_mono_def)
  then show "\<not> both_mono t u" by (simp add: both_mono_def ac_simps)
qed

lemma sint_eq_iff: "sint a = sint b \<longleftrightarrow> a = b"
  by (rule word_eq_iff_signed [symmetric])

lemma uint_eq_iff: "uint a = uint b \<longleftrightarrow> a = b"
  by (rule word_eq_iff_unsigned [symmetric])

lemma time_equal_instant: "\<not> both_mono t u \<Longrightarrow> time_equal t u \<longleftrightarrow> instant_of t = instant_of u"
  by (simp add: time_equal_def instant_of_def sint_eq_iff uint_eq_iff)

lemma time_before_instant: "\<not> both_mono t u \<Longrightarrow> time_before t u \<longleftrightarrow> instant_of t < instant_of u"
  by (auto simp: time_before_def instant_of_def less_instant_def word_less_def sint_eq_iff)

lemma time_after_instant: "\<not> both_mono t u \<Longrightarrow> time_after t u \<longleftrightarrow> instant_of u < instant_of t"
  by (auto simp: time_after_def instant_of_def less_instant_def word_less_def sint_eq_iff)

section \<open>Round trip\<close>

lemma be_bytes_length [simp]: "length (be_bytes n w) = n"
  by (induction n arbitrary: w) simp_all

lemma be_word_snoc: "be_word (bs @ [b]) = push_bit 8 (be_word bs) OR ucast b"
  by (simp add: be_word_def)

lemma push_drop_or_byte:
  "push_bit 8 (take_bit n (drop_bit 8 w)) OR ucast (ucast w :: byte) = take_bit (n + 8) (w :: 'a::len word)"
  by (rule bit_word_eqI)
    (auto simp: bit_simps)

lemma be_word_be_bytes: "(be_word (be_bytes n w) :: 'a::len word) = take_bit (8 * n) (w :: 'a word)"
proof (induction n arbitrary: w)
  case 0
  then show ?case by (simp add: be_word_def)
next
  case (Suc n)
  then show ?case
    using push_drop_or_byte [of "8 * n" w] by (simp add: be_word_snoc add.commute)
qed

lemma be_word_be_bytes_full:
  "LENGTH('a) \<le> 8 * n \<Longrightarrow> (be_word (be_bytes n w) :: 'a::len word) = w"
  by (simp add: be_word_be_bytes take_bit_word_eq_self)

lemma scast_ucast_nsec: "scast (ucast (w AND nsecMask) :: 32 word) = w AND nsecMask"
proof -
  have m: "nsecMask = mask 30" by (simp add: nsecMask_def mask_eq_exp_minus_1)
  show ?thesis
    by (rule bit_word_eqI) (auto simp: m bit_simps min_def)
qed

lemma sint_word_of_int_16:
  assumes "-32768 \<le> m" "m \<le> 32767"
  shows "sint (word_of_int m :: 16 word) = m"
  using assms by (simp add: signed_of_int signed_take_bit_int_eq_self)

text \<open>The fifteen bytes of a marshalled time, and what reading them gives back.\<close>

definition time_wire :: "gotime \<Rightarrow> int \<Rightarrow> bytes" where
  "time_wire t m = [1] @ be_bytes 8 (t_sec t) @ be_bytes 4 (ucast (t_nsec t) :: 32 word)
     @ be_bytes 2 (word_of_int m :: 16 word)"

lemma time_marshal_UTC: "t_loc t = UTC \<Longrightarrow> time_marshal t = Inr (time_wire t (-1))"
  by (simp add: time_marshal_def time_wire_def Let_def)

lemma time_marshal_Inr:
  "time_marshal t = Inr b \<Longrightarrow>
     \<exists>m. b = time_wire t m \<and> -32768 \<le> m \<and> m \<le> 32767 \<and> (m = -1 \<longleftrightarrow> t_loc t = UTC)
       \<and> (t_loc t \<noteq> UTC \<longrightarrow> m * 60 = zone_offset t)"
  by (auto simp: time_marshal_def time_wire_def Let_def zone_offset_def split: location.splits if_splits)

text \<open>What \<open>UnmarshalBinary\<close> builds from the second, the nanosecond and the offset in minutes.\<close>

definition located :: "zone \<Rightarrow> int \<Rightarrow> gotime \<Rightarrow> gotime" where
  "located local m t =
     (if m = -1 then set_loc UTC t
      else if snd local (unix_sec t) = m * 60 then set_loc (Zone local) t
      else set_loc (Zone ([], \<lambda>_. m * 60)) t)"

lemma time_unmarshal_wire:
  assumes "-32768 \<le> m" "m \<le> 32767"
  shows "time_unmarshal local (time_wire t m) =
    Inr (located local m \<lparr>t_wall = t_nsec t, t_ext = t_sec t, t_loc = UTC\<rparr>)"
proof -
  let ?s = "be_bytes 8 (t_sec t)" and ?n = "be_bytes 4 (ucast (t_nsec t) :: 32 word)"
    and ?o = "be_bytes 2 (word_of_int m :: 16 word)"
  have "take 8 (?s @ ?n @ ?o) = ?s" "take 4 (drop 8 (?s @ ?n @ ?o)) = ?n" "drop 12 (?s @ ?n @ ?o) = ?o"
    by simp_all
  moreover have "(be_word ?s :: 64 word) = t_sec t" "(be_word ?n :: 32 word) = ucast (t_nsec t)"
    "(be_word ?o :: 16 word) = word_of_int m"
    by (simp_all add: be_word_be_bytes_full)
  moreover have "(scast (ucast (t_nsec t) :: 32 word) :: 64 word) = t_nsec t"
    by (simp add: t_nsec_def scast_ucast_nsec)
  moreover have "sint (word_of_int m :: 16 word) = m"
    using assms by (rule sint_word_of_int_16)
  moreover have "m * 60 = -60 \<longleftrightarrow> m = -1" by auto
  ultimately show ?thesis
    by (simp add: time_unmarshal_def time_wire_def located_def Let_def del: be_bytes.simps)
qed

lemma stripped_fields:
  "t_sec \<lparr>t_wall = t_nsec t, t_ext = t_sec t, t_loc = l\<rparr> = t_sec t"
  "t_nsec \<lparr>t_wall = t_nsec t, t_ext = t_sec t, t_loc = l\<rparr> = t_nsec t"
  by (simp add: t_sec_def t_nsec_def) (simp add: t_nsec_def and.assoc)

lemma located_simps [simp]:
  "t_sec (located local m t) = t_sec t" "t_nsec (located local m t) = t_nsec t"
  "no_mono (located local m t)" "t_loc (located local m t) = UTC \<longleftrightarrow> m = -1"
  "instant_of (located local m t) = instant_of t"
  by (simp_all add: located_def)

lemma located_offset: "m \<noteq> -1 \<Longrightarrow> zone_offset (located local m t) = m * 60"
  by (simp add: located_def zone_offset_def unix_sec_def)

text \<open>A UTC time comes back as itself, without its monotonic reading.\<close>

lemma time_roundtrip_UTC:
  assumes "wf_time t" "t_loc t = UTC"
  shows "\<exists>b. time_marshal t = Inr b \<and> time_unmarshal local b = Inr (strip_mono t)"
proof -
  have "set_loc UTC \<lparr>t_wall = t_nsec t, t_ext = t_sec t, t_loc = UTC\<rparr> = strip_mono t"
    using assms by (auto simp: set_loc_def strip_mono_def wf_time_def t_sec_def t_nsec_def)
  then show ?thesis
    using assms(2) by (simp add: time_marshal_UTC time_unmarshal_wire located_def)
qed

text \<open>Any time that marshals comes back as the same instant, in the same kind of location.\<close>

lemma time_roundtrip_instant:
  assumes "time_marshal t = Inr b"
  obtains t' where "time_unmarshal local b = Inr t'" "instant_of t' = instant_of t" "no_mono t'"
    "t_loc t' = UTC \<longleftrightarrow> t_loc t = UTC" "t_loc t \<noteq> UTC \<Longrightarrow> zone_offset t' = zone_offset t"
proof -
  from time_marshal_Inr [OF assms] obtain m where m: "b = time_wire t m" "-32768 \<le> m" "m \<le> 32767"
    "m = -1 \<longleftrightarrow> t_loc t = UTC" "t_loc t \<noteq> UTC \<longrightarrow> m * 60 = zone_offset t"
    by blast
  let ?t = "located local m \<lparr>t_wall = t_nsec t, t_ext = t_sec t, t_loc = UTC\<rparr>"
  have "instant_of ?t = instant_of t"
    by (simp add: instant_of_def stripped_fields)
  with m show thesis
    by (intro that [of ?t]) (simp_all add: time_unmarshal_wire located_offset)
qed

lemma time_unmarshal_no_mono: "time_unmarshal local b = Inr t \<Longrightarrow> no_mono t"
  by (auto simp: time_unmarshal_def Let_def split: list.splits if_splits)

lemma time_marshal_zero_length: "time_marshal t = Inr b \<Longrightarrow> length b = 15"
  by (auto dest!: time_marshal_Inr simp: time_wire_def simp del: be_bytes.simps)

end
