(* ===== verification/Messages.thy ===== *)
theory Messages
  imports GoTime
begin

text \<open>
  The protobuf messages of crdt/pb as records (the generated structs and their getters), the
  codec that \<open>proto.Marshal\<close> and \<open>proto.Unmarshal\<close> give for a message type as a parameter, and
  \<open>TimeParams\<close> of crdt/pb/timeparams.go.

  The protobuf runtime is not part of the repository. What the code relies on is \<open>codec_ok\<close>
  (what was marshalled unmarshals to the same message, empty bytes fields coming back as nil, and no
  bytes at all are the zero message) and
  \<open>codec_total\<close> (marshalling a message whose strings are valid succeeds).
\<close>

record 'm codec =
  c_marshal :: "'m \<Rightarrow> bytes res"
  c_unmarshal :: "bytes \<Rightarrow> 'm res"

definition codec_ok :: "'m \<Rightarrow> ('m \<Rightarrow> 'm) \<Rightarrow> 'm codec \<Rightarrow> bool" where
  "codec_ok zero canon c \<longleftrightarrow> c_unmarshal c [] = Inr zero
     \<and> (\<forall>m b. c_marshal c m = Inr b \<longrightarrow> c_unmarshal c b = Inr (canon m))"

definition codec_total :: "('m \<Rightarrow> bool) \<Rightarrow> 'm codec \<Rightarrow> bool" where
  "codec_total P c \<longleftrightarrow> (\<forall>m. P m \<longrightarrow> (\<exists>b. c_marshal c m = Inr b))"

lemma codec_okD [lib_laws]: "codec_ok zero canon c \<Longrightarrow> c_marshal c m = Inr b \<Longrightarrow> c_unmarshal c b = Inr (canon m)"
  by (simp add: codec_ok_def)

lemma codec_totalD: "codec_total P c \<Longrightarrow> P m \<Longrightarrow> \<exists>b. c_marshal c m = Inr b"
  by (simp add: codec_total_def)

text \<open>Strings of proto3 messages are UTF-8; the strings below 128 are.\<close>

definition ascii :: "string \<Rightarrow> bool" where
  "ascii s \<longleftrightarrow> (\<forall>c \<in> set s. (of_char c :: nat) < 128)"

section \<open>The messages\<close>

record base_address =
  ba_name :: string
  ba_salt :: slice
  ba_pid :: string
  ba_time :: slice

record access_key =
  ak_masterKey :: string
  ak_access :: string

record hash_data =
  hd_baseHash :: string
  hd_salt :: slice
  hd_value :: slice

record signature_data =
  sd_value :: slice
  sd_sign :: slice

record time_message =
  tm_name :: string
  tm_begin :: slice
  tm_end :: slice
  tm_eps :: "64 word"
  tm_cool :: "64 word"
  tm_n :: "32 word"

definition zero_address :: base_address where
  "zero_address = \<lparr>ba_name = [], ba_salt = None, ba_pid = [], ba_time = None\<rparr>"

definition zero_access :: access_key where
  "zero_access = \<lparr>ak_masterKey = [], ak_access = []\<rparr>"

definition zero_hash :: hash_data where
  "zero_hash = \<lparr>hd_baseHash = [], hd_salt = None, hd_value = None\<rparr>"

definition zero_sig :: signature_data where
  "zero_sig = \<lparr>sd_value = None, sd_sign = None\<rparr>"

definition zero_time_message :: time_message where
  "zero_time_message = \<lparr>tm_name = [], tm_begin = None, tm_end = None, tm_eps = 0, tm_cool = 0, tm_n = 0\<rparr>"

definition canon_address :: "base_address \<Rightarrow> base_address" where
  "canon_address m = m\<lparr>ba_salt := canon_slice (ba_salt m), ba_time := canon_slice (ba_time m)\<rparr>"

definition canon_hash :: "hash_data \<Rightarrow> hash_data" where
  "canon_hash m = m\<lparr>hd_salt := canon_slice (hd_salt m), hd_value := canon_slice (hd_value m)\<rparr>"

definition canon_sig :: "signature_data \<Rightarrow> signature_data" where
  "canon_sig m = m\<lparr>sd_value := canon_slice (sd_value m), sd_sign := canon_slice (sd_sign m)\<rparr>"

definition canon_time :: "time_message \<Rightarrow> time_message" where
  "canon_time m = m\<lparr>tm_begin := canon_slice (tm_begin m), tm_end := canon_slice (tm_end m)\<rparr>"

lemma canon_address_simps [simp]:
  "ba_name (canon_address m) = ba_name m" "ba_pid (canon_address m) = ba_pid m"
  "ba_salt (canon_address m) = canon_slice (ba_salt m)"
  "ba_time (canon_address m) = canon_slice (ba_time m)"
  by (simp_all add: canon_address_def)

lemma canon_hash_simps [simp]:
  "hd_baseHash (canon_hash m) = hd_baseHash m"
  "hd_salt (canon_hash m) = canon_slice (hd_salt m)"
  "hd_value (canon_hash m) = canon_slice (hd_value m)"
  by (simp_all add: canon_hash_def)

lemma canon_sig_simps [simp]:
  "sd_value (canon_sig m) = canon_slice (sd_value m)"
  "sd_sign (canon_sig m) = canon_slice (sd_sign m)"
  by (simp_all add: canon_sig_def)

lemma canon_time_simps [simp]:
  "tm_name (canon_time m) = tm_name m" "tm_eps (canon_time m) = tm_eps m"
  "tm_cool (canon_time m) = tm_cool m" "tm_n (canon_time m) = tm_n m"
  "tm_begin (canon_time m) = canon_slice (tm_begin m)"
  "tm_end (canon_time m) = canon_slice (tm_end m)"
  by (simp_all add: canon_time_def)

text \<open>The codecs of package crdt, and what its code relies on.\<close>

record protos =
  pb_address :: "base_address codec"
  pb_access :: "access_key codec"
  pb_hash :: "hash_data codec"
  pb_sig :: "signature_data codec"

definition protos_ok :: "protos \<Rightarrow> bool" where
  "protos_ok P \<longleftrightarrow> codec_ok zero_address canon_address (pb_address P)
     \<and> codec_ok zero_access (\<lambda>m. m) (pb_access P)
     \<and> codec_ok zero_hash canon_hash (pb_hash P) \<and> codec_ok zero_sig canon_sig (pb_sig P)"

definition protos_total :: "protos \<Rightarrow> bool" where
  "protos_total P \<longleftrightarrow>
     codec_total (\<lambda>m. ascii (ba_name m) \<and> ascii (ba_pid m)) (pb_address P)
     \<and> codec_total (\<lambda>m. ascii (ak_masterKey m) \<and> ascii (ak_access m)) (pb_access P)
     \<and> codec_total (\<lambda>m. ascii (hd_baseHash m)) (pb_hash P)
     \<and> codec_total (\<lambda>_. True) (pb_sig P)"

lemma protos_okD [lib_laws]:
  assumes "protos_ok P"
  shows "c_marshal (pb_address P) a = Inr b \<Longrightarrow> c_unmarshal (pb_address P) b = Inr (canon_address a)"
    and "c_marshal (pb_access P) k = Inr b \<Longrightarrow> c_unmarshal (pb_access P) b = Inr k"
    and "c_marshal (pb_hash P) h = Inr b \<Longrightarrow> c_unmarshal (pb_hash P) b = Inr (canon_hash h)"
    and "c_marshal (pb_sig P) s = Inr b \<Longrightarrow> c_unmarshal (pb_sig P) b = Inr (canon_sig s)"
    and "c_unmarshal (pb_address P) [] = Inr zero_address"
    and "c_unmarshal (pb_access P) [] = Inr zero_access"
    and "c_unmarshal (pb_hash P) [] = Inr zero_hash"
    and "c_unmarshal (pb_sig P) [] = Inr zero_sig"
  using assms by (auto simp: protos_ok_def codec_ok_def)

section \<open>TimeParams (crdt/pb/timeparams.go)\<close>

record time_params =
  tp_Name :: string
  tp_Begin :: gotime
  tp_End :: gotime
  tp_Eps :: "64 word"
  tp_Cool :: "64 word"
  tp_N :: "64 word"

text \<open>The error of \<open>MarshalBinary\<close> is dropped, which leaves a nil slice.\<close>

definition marshal_or_nil :: "gotime \<Rightarrow> slice" where
  "marshal_or_nil t = (case time_marshal t of Inl _ \<Rightarrow> None | Inr b \<Rightarrow> Some b)"

definition TimeParams_Marshal :: "time_message codec \<Rightarrow> time_params \<Rightarrow> bytes res" where
  "TimeParams_Marshal c tp =
     (let bg = marshal_or_nil (tp_Begin tp);
          ed = marshal_or_nil (tp_End tp);
          ep = tp_Eps tp;
          cl = tp_Cool tp;
          tm = \<lparr>tm_name = tp_Name tp, tm_begin = bg, tm_end = ed, tm_eps = ep, tm_cool = cl,
                tm_n = ucast (tp_N tp)\<rparr>
      in c_marshal c tm)"

text \<open>The receiver is only written when everything has been read.\<close>

definition TimeParams_Unmarshal ::
  "time_message codec \<Rightarrow> zone \<Rightarrow> time_params \<Rightarrow> bytes \<Rightarrow> time_params \<times> goerror option" where
  "TimeParams_Unmarshal c local tp m =
     (case c_unmarshal c m of
        Inl e \<Rightarrow> (tp, Some e)
      | Inr tm \<Rightarrow>
          (case time_unmarshal local (contents (tm_begin tm)) of
             Inl e \<Rightarrow> (tp, Some e)
           | Inr bg \<Rightarrow>
               (case time_unmarshal local (contents (tm_end tm)) of
                  Inl e \<Rightarrow> (tp, Some e)
                | Inr ed \<Rightarrow>
                    (\<lparr>tp_Name = tm_name tm, tp_Begin = bg, tp_End = ed, tp_Eps = tm_eps tm,
                      tp_Cool = tm_cool tm, tp_N = scast (tm_n tm)\<rparr>, None))))"

lemma time_wire_nonempty [simp]: "time_wire t m \<noteq> []"
  by (simp add: time_wire_def)

lemma TimeParams_roundtrip:
  assumes c: "codec_ok zero_time_message canon_time c" and m: "TimeParams_Marshal c tp = Inr b"
    and "wf_time (tp_Begin tp)" "t_loc (tp_Begin tp) = UTC"
    and "wf_time (tp_End tp)" "t_loc (tp_End tp) = UTC"
  shows "TimeParams_Unmarshal c local tp0 b =
    (tp\<lparr>tp_Begin := strip_mono (tp_Begin tp), tp_End := strip_mono (tp_End tp),
        tp_N := scast (ucast (tp_N tp) :: 32 word)\<rparr>, None)"
proof -
  from time_roundtrip_UTC [OF assms(3,4), of local] obtain b1 where b1:
    "time_marshal (tp_Begin tp) = Inr b1" "time_unmarshal local b1 = Inr (strip_mono (tp_Begin tp))"
    by blast
  from time_roundtrip_UTC [OF assms(5,6), of local] obtain b2 where b2:
    "time_marshal (tp_End tp) = Inr b2" "time_unmarshal local b2 = Inr (strip_mono (tp_End tp))"
    by blast
  have "b1 \<noteq> []" "b2 \<noteq> []" using b1(1) b2(1) by (auto dest: time_marshal_zero_length)
  with b1 b2 codec_okD [OF c m [unfolded TimeParams_Marshal_def Let_def]] show ?thesis
    by (simp add: TimeParams_Unmarshal_def marshal_or_nil_def)
qed

lemma TimeParams_N_exact:
  assumes "- (2 ^ 31) \<le> sint n" "sint n < 2 ^ 31"
  shows "scast (ucast (n :: 64 word) :: 32 word) = n"
proof -
  have "sint (ucast n :: 32 word) = sint n"
  proof -
    have "(ucast n :: 32 word) = word_of_int (sint n)"
      by (rule bit_word_eqI) (simp add: bit_simps min_def)
    moreover have "sint (word_of_int (sint n) :: 32 word) = sint n"
      using assms by (simp only: signed_of_int) (simp add: signed_take_bit_int_eq_self)
    ultimately show ?thesis by metis
  qed
  then show ?thesis
    by (simp add: scast_eq)
qed

end
