(* ===== verification/Datastore.thy ===== *)
theory Datastore
  imports GoStrings
begin

text \<open>
  The interface of the go-datastore and go-ds-crdt libraries that package crdt uses. The libraries
  are not part of the repository, so they are a parameter: the record \<open>datastore\<close> holds their
  operations over an abstract state \<open>'d\<close>, and \<open>ds_ok\<close>, \<open>ds_has_total\<close>, \<open>ds_live\<close> name the
  documented behaviour the code relies on, stated with the map \<open>els\<close> of the records a state
  holds. \<open>query.Results\<close> is a channel of results, so it is the list of the results it delivers.
\<close>

section \<open>Entries, results and queries\<close>

record entry =
  e_key :: string
  e_value :: slice
  e_size :: int

record result = entry +
  r_error :: "goerror option"

definition ok_result :: "entry \<Rightarrow> result" where
  "ok_result e = entry.extend e \<lparr>r_error = None\<rparr>"

text \<open>The zero \<open>Result\<close>, which a receive from a closed channel yields.\<close>

definition zero_result :: result where
  "zero_result = \<lparr>e_key = [], e_value = None, e_size = 0, r_error = None\<rparr>"

definition recv :: "result list \<Rightarrow> result" where
  "recv rs = (case rs of [] \<Rightarrow> zero_result | r # _ \<Rightarrow> r)"

abbreviation entry_of :: "result \<Rightarrow> entry" where
  "entry_of r \<equiv> entry.truncate r"

lemma entry_of_simps [simp]:
  "e_key (entry_of r) = e_key r" "e_value (entry_of r) = e_value r" "e_size (entry_of r) = e_size r"
  by (simp_all add: entry.truncate_def)

lemma ok_result_simps [simp]:
  "e_key (ok_result e) = e_key e" "e_value (ok_result e) = e_value e"
  "e_size (ok_result e) = e_size e" "r_error (ok_result e) = None" "entry_of (ok_result e) = e"
  by (simp_all add: ok_result_def entry.defs)

lemma ok_result_entry_of: "r_error r = None \<Longrightarrow> ok_result (entry_of r) = r"
  by (cases r) (simp add: ok_result_def entry.defs)

type_synonym qfilter = "entry \<Rightarrow> bool"
type_synonym qorder = "entry \<Rightarrow> entry \<Rightarrow> int"

record query =
  q_prefix :: string
  q_filters :: "qfilter list"
  q_orders :: "qorder list"
  q_limit :: int
  q_offset :: int
  q_keysOnly :: bool
  q_returnsSizes :: bool

definition empty_query :: query where
  "empty_query = \<lparr>q_prefix = [], q_filters = [], q_orders = [], q_limit = 0, q_offset = 0,
     q_keysOnly = False, q_returnsSizes = False\<rparr>"

lemma empty_query_simps [simp]:
  "q_prefix empty_query = []" "q_filters empty_query = []" "q_orders empty_query = []"
  "q_limit empty_query = 0" "q_offset empty_query = 0" "q_keysOnly empty_query = False"
  "q_returnsSizes empty_query = False"
  by (simp_all add: empty_query_def)

text \<open>The optional argument of the query methods: \<open>qs[0]\<close>, or the zero query.\<close>

definition query_arg :: "query list \<Rightarrow> query" where
  "query_arg qs = (case qs of [] \<Rightarrow> empty_query | q # _ \<Rightarrow> q)"

lemma query_arg_simps [simp]: "query_arg [] = empty_query" "query_arg (q # qs) = q"
  by (simp_all add: query_arg_def)

section \<open>The operations of the libraries\<close>

record 'd datastore =
  newKey :: "string \<Rightarrow> string"
  childString :: "string \<Rightarrow> string \<Rightarrow> string"
  ds_put :: "'d \<Rightarrow> string \<Rightarrow> bytes \<Rightarrow> 'd \<times> goerror option"
  ds_get :: "'d \<Rightarrow> string \<Rightarrow> slice res"
  ds_getSize :: "'d \<Rightarrow> string \<Rightarrow> int res"
  ds_has :: "'d \<Rightarrow> string \<Rightarrow> bool res"
  ds_query :: "'d \<Rightarrow> query \<Rightarrow> result list res"
  ds_sync :: "'d \<Rightarrow> 'd \<times> goerror option"
  ds_close :: "'d \<Rightarrow> 'd"

record query_lib =
  naiveFilter :: "result list \<Rightarrow> qfilter \<Rightarrow> result list"
  naiveQueryApply :: "query \<Rightarrow> result list \<Rightarrow> result list"
  results_rest :: "result list \<Rightarrow> entry list res"

section \<open>Sorting\<close>

text \<open>
  \<open>query.Less\<close>: the first order that tells two entries apart decides, and the key breaks ties.
\<close>

fun entry_less :: "qorder list \<Rightarrow> entry \<Rightarrow> entry \<Rightarrow> bool" where
  "entry_less [] a b = (str_compare (e_key a) (e_key b) < 0)"
| "entry_less (c # cs) a b =
     (if c a b = -1 then True else if c a b = 1 then False else entry_less cs a b)"

declare entry_less.simps(2) [simp del]

text \<open>What a sort needs of its comparison: a strict weak order.\<close>

definition weak_order :: "('a \<Rightarrow> 'a \<Rightarrow> bool) \<Rightarrow> bool" where
  "weak_order lt \<longleftrightarrow>
     (\<forall>a b. lt a b \<longrightarrow> \<not> lt b a) \<and> (\<forall>a b c. lt a b \<longrightarrow> lt a c \<or> lt c b)"

lemma weak_orderI:
  "(\<And>a b. lt a b \<Longrightarrow> \<not> lt b a) \<Longrightarrow> (\<And>a b c. lt a b \<Longrightarrow> lt a c \<or> lt c b) \<Longrightarrow> weak_order lt"
  by (auto simp: weak_order_def)

lemma weak_order_asym: "weak_order lt \<Longrightarrow> lt a b \<Longrightarrow> \<not> lt b a"
  by (auto simp: weak_order_def)

lemma weak_order_neg_trans: "weak_order lt \<Longrightarrow> \<not> lt a c \<Longrightarrow> \<not> lt c b \<Longrightarrow> \<not> lt a b"
  unfolding weak_order_def by blast

lemma weak_order_keys: "weak_order (entry_less [])"
proof (rule weak_orderI)
  fix a b :: entry
  show "entry_less [] a b \<Longrightarrow> \<not> entry_less [] b a"
    using str_compare_antisym [of "e_key a" "e_key b"] by simp
next
  fix a b c :: entry
  assume "entry_less [] a b"
  then show "entry_less [] a c \<or> entry_less [] c b"
    unfolding entry_less.simps
    using str_compare_antisym [of "e_key a" "e_key b"] str_compare_antisym [of "e_key a" "e_key c"]
      str_compare_antisym [of "e_key c" "e_key b"]
      str_compare_trans [of "e_key b" "e_key c" "e_key a"]
    by linarith
qed

section \<open>What a query returns\<close>

text \<open>
  An entry shows a record of the store: its key and value, or its key alone for \<open>KeysOnly\<close>.
\<close>

definition exhibits :: "query \<Rightarrow> (string \<rightharpoonup> bytes) \<Rightarrow> entry \<Rightarrow> bool" where
  "exhibits q m e \<longleftrightarrow> (\<exists>v. m (e_key e) = Some v
     \<and> (if q_keysOnly q then e_value e = None else contents (e_value e) = v)
     \<and> (q_returnsSizes q \<longrightarrow> e_size e = int (length v)))"

text \<open>
  A prefix selects the keys strictly below it: \<open>/bar\<close> finds \<open>/bar/baz\<close>, not \<open>/barbaz\<close>.
\<close>

definition prefix_selects :: "(string \<Rightarrow> string) \<Rightarrow> string \<Rightarrow> string \<Rightarrow> bool" where
  "prefix_selects nk p k \<longleftrightarrow> p = [] \<or> nk p = ''/'' \<or> has_prefix k (nk p @ ''/'')"

definition selects :: "(string \<Rightarrow> string) \<Rightarrow> query \<Rightarrow> entry \<Rightarrow> bool" where
  "selects nk q e \<longleftrightarrow> prefix_selects nk (q_prefix q) (e_key e) \<and> (\<forall>f \<in> set (q_filters q). f e)"

definition full_answer :: "(string \<Rightarrow> string) \<Rightarrow> query \<Rightarrow> (string \<rightharpoonup> bytes) \<Rightarrow> entry list \<Rightarrow> bool" where
  "full_answer nk q m es \<longleftrightarrow>
     distinct (map e_key es)
     \<and> (\<forall>e \<in> set es. exhibits q m e \<and> selects nk q e)
     \<and> (\<forall>k \<in> dom m. (\<forall>e. e_key e = k \<longrightarrow> exhibits q m e \<longrightarrow> selects nk q e) \<longrightarrow> k \<in> e_key ` set es)
     \<and> (q_orders q \<noteq> [] \<longrightarrow> weak_order (entry_less (q_orders q)) \<longrightarrow>
          sorted_wrt (\<lambda>a b. \<not> entry_less (q_orders q) b a) es)"

text \<open>\<open>Offset\<close> results are skipped, then at most \<open>Limit\<close> are returned (0 is no limit).\<close>

definition window :: "query \<Rightarrow> 'a list \<Rightarrow> 'a list" where
  "window q es =
     (let r = drop (nat (q_offset q)) es
      in if q_limit q = 0 then r else take (nat (q_limit q)) r)"

definition answers :: "(string \<Rightarrow> string) \<Rightarrow> query \<Rightarrow> (string \<rightharpoonup> bytes) \<Rightarrow> result list \<Rightarrow> bool" where
  "answers nk q m rs \<longleftrightarrow> (0 \<le> q_limit q \<and> 0 \<le> q_offset q \<longrightarrow>
     (\<exists>es. full_answer nk q m es \<and> rs = map ok_result (window q es)))"

section \<open>The laws\<close>

text \<open>\<open>NewKey\<close> puts a slash before a clean path, and cleaning a key again changes nothing.\<close>

definition clean_path :: "string \<Rightarrow> bool" where
  "clean_path k \<longleftrightarrow> (\<forall>p \<in> set (go_split (CHR ''/'') k). p \<noteq> [] \<and> p \<noteq> ''.'' \<and> p \<noteq> ''..'')"

definition key_ok :: "(string \<Rightarrow> string) \<Rightarrow> bool" where
  "key_ok nk \<longleftrightarrow> (\<forall>k. clean_path k \<longrightarrow> nk k = CHR ''/'' # k \<and> nk (CHR ''/'' # k) = CHR ''/'' # k)"

definition ds_ok :: "'d datastore \<Rightarrow> ('d \<Rightarrow> (string \<rightharpoonup> bytes)) \<Rightarrow> bool" where
  "ds_ok D els \<longleftrightarrow>
     key_ok (newKey D)
     \<and> (\<forall>d k v d'. ds_put D d k v = (d', None) \<longrightarrow> els d' = (els d)(k \<mapsto> v))
     \<and> (\<forall>d k v d' e. ds_put D d k v = (d', Some e) \<longrightarrow> els d' = els d)
     \<and> (\<forall>d k b. ds_has D d k = Inr b \<longrightarrow> b = (els d k \<noteq> None))
     \<and> (\<forall>d k s. ds_get D d k = Inr s \<longrightarrow> els d k = Some (contents s))
     \<and> (\<forall>d q rs. ds_query D d q = Inr rs \<longrightarrow> answers (newKey D) q (els d) rs)
     \<and> (\<forall>d. els (fst (ds_sync D d)) = els d)
     \<and> (\<forall>d. els (ds_close D d) = els d)"

text \<open>No failure of the storage: lookups answer, a stored value is found, writes succeed.\<close>

definition ds_has_total :: "'d datastore \<Rightarrow> bool" where
  "ds_has_total D \<longleftrightarrow> (\<forall>d k. is_ok (ds_has D d k))"

definition ds_live :: "'d datastore \<Rightarrow> ('d \<Rightarrow> (string \<rightharpoonup> bytes)) \<Rightarrow> bool" where
  "ds_live D els \<longleftrightarrow> ds_has_total D
     \<and> (\<forall>d k v. snd (ds_put D d k v) = None)
     \<and> (\<forall>d k v. els d k = Some v \<longrightarrow> v \<noteq> [] \<longrightarrow> ds_get D d k = Inr (Some v))
     \<and> (\<forall>d q. is_ok (ds_query D d q))"

definition query_lib_ok :: "(string \<Rightarrow> string) \<Rightarrow> query_lib \<Rightarrow> bool" where
  "query_lib_ok nk Q \<longleftrightarrow>
     (\<forall>rs f. naiveFilter Q rs f = filter (\<lambda>r. r_error r \<noteq> None \<or> f (entry_of r)) rs)
     \<and> (\<forall>q rs r. r \<in> set (naiveQueryApply Q q rs) \<longrightarrow>
          r \<in> set rs \<and> (r_error r = None \<longrightarrow> selects nk q (entry_of r)))
     \<and> (\<forall>q rs r. q_limit q = 0 \<longrightarrow> q_offset q = 0 \<longrightarrow> r \<in> set rs \<longrightarrow>
          selects nk q (entry_of r) \<longrightarrow> r \<in> set (naiveQueryApply Q q rs))
     \<and> (\<forall>rs es. results_rest Q rs = Inr es \<longrightarrow> es = map entry_of rs \<and> (\<forall>r \<in> set rs. r_error r = None))
     \<and> (\<forall>rs. (\<forall>r \<in> set rs. r_error r = None) \<longrightarrow> results_rest Q rs = Inr (map entry_of rs))"

lemma key_okD [lib_laws]:
  "key_ok nk \<Longrightarrow> clean_path k \<Longrightarrow> nk k = CHR ''/'' # k"
  "key_ok nk \<Longrightarrow> clean_path k \<Longrightarrow> nk (CHR ''/'' # k) = CHR ''/'' # k"
  by (simp_all add: key_ok_def)

lemma ds_okD [lib_laws]:
  assumes "ds_ok D els"
  shows "key_ok (newKey D)"
    and "ds_put D d k v = (d', None) \<Longrightarrow> els d' = (els d)(k \<mapsto> v)"
    and "ds_put D d k v = (d', Some e) \<Longrightarrow> els d' = els d"
    and "ds_has D d k = Inr b \<Longrightarrow> b = (els d k \<noteq> None)"
    and "ds_get D d k = Inr s \<Longrightarrow> els d k = Some (contents s)"
    and "ds_query D d q = Inr rs \<Longrightarrow> answers (newKey D) q (els d) rs"
    and "els (fst (ds_sync D d)) = els d"
    and "els (ds_close D d) = els d"
  using assms unfolding ds_ok_def by blast+

lemma ds_liveD [lib_laws]:
  assumes "ds_live D els"
  shows "ds_has_total D"
    and "snd (ds_put D d k v) = None"
    and "els d k = Some v \<Longrightarrow> v \<noteq> [] \<Longrightarrow> ds_get D d k = Inr (Some v)"
    and "is_ok (ds_query D d q)"
  using assms unfolding ds_live_def by blast+

lemma ds_has_exact:
  assumes "ds_ok D els" "ds_has_total D"
  shows "ds_has D d k = Inr (els d k \<noteq> None)"
proof -
  from assms(2) obtain b where b: "ds_has D d k = Inr b"
    by (auto simp: ds_has_total_def is_ok_iff)
  with ds_okD(4) [OF assms(1) b] show ?thesis by (simp only:)
qed

lemma query_lib_okD [lib_laws]:
  assumes "query_lib_ok nk Q"
  shows "naiveFilter Q rs f = filter (\<lambda>r. r_error r \<noteq> None \<or> f (entry_of r)) rs"
    and "r \<in> set (naiveQueryApply Q q rs) \<Longrightarrow> r \<in> set rs"
    and "r \<in> set (naiveQueryApply Q q rs) \<Longrightarrow> r_error r = None \<Longrightarrow> selects nk q (entry_of r)"
    and "q_limit q = 0 \<Longrightarrow> q_offset q = 0 \<Longrightarrow> r \<in> set rs \<Longrightarrow> selects nk q (entry_of r) \<Longrightarrow>
      r \<in> set (naiveQueryApply Q q rs)"
    and "results_rest Q rs = Inr es \<Longrightarrow> es = map entry_of rs"
    and "results_rest Q rs = Inr es \<Longrightarrow> r \<in> set rs \<Longrightarrow> r_error r = None"
    and "(\<And>r. r \<in> set rs \<Longrightarrow> r_error r = None) \<Longrightarrow> results_rest Q rs = Inr (map entry_of rs)"
  apply -
  subgoal by (rule assms [unfolded query_lib_ok_def, THEN conjunct1, rule_format])
  subgoal by (rule assms [unfolded query_lib_ok_def, THEN conjunct2, THEN conjunct1, rule_format, THEN conjunct1])
  subgoal by (rule assms [unfolded query_lib_ok_def, THEN conjunct2, THEN conjunct1, rule_format, THEN conjunct2, rule_format])
  subgoal by (rule assms [unfolded query_lib_ok_def, THEN conjunct2, THEN conjunct2, THEN conjunct1, rule_format])
  subgoal by (rule assms [unfolded query_lib_ok_def, THEN conjunct2, THEN conjunct2, THEN conjunct2, THEN conjunct1, rule_format, THEN conjunct1])
  subgoal by (rule assms [unfolded query_lib_ok_def, THEN conjunct2, THEN conjunct2, THEN conjunct2, THEN conjunct1, rule_format, THEN conjunct2, THEN bspec])
  subgoal by (rule assms [unfolded query_lib_ok_def, THEN conjunct2, THEN conjunct2, THEN conjunct2, THEN conjunct2, rule_format]) blast
  done

section \<open>Consequences for a lawful answer\<close>

lemma set_window_subset: "set (window q es) \<subseteq> set es"
  by (auto simp: window_def Let_def dest: in_set_dropD in_set_takeD)

lemma window_unlimited [simp]: "q_limit q = 0 \<Longrightarrow> q_offset q = 0 \<Longrightarrow> window q es = es"
  by (simp add: window_def)

lemma full_answerD:
  assumes "full_answer nk q m es" "e \<in> set es"
  shows "exhibits q m e" "selects nk q e"
proof -
  from assms(1) have "\<forall>e \<in> set es. exhibits q m e \<and> selects nk q e"
    unfolding full_answer_def by (elim conjE)
  with assms(2) show "exhibits q m e" "selects nk q e" by simp_all
qed

lemma full_answer_covers:
  assumes "full_answer nk q m es" "k \<in> dom m" "\<And>e. e_key e = k \<Longrightarrow> exhibits q m e \<Longrightarrow> selects nk q e"
  shows "k \<in> e_key ` set es"
proof -
  from assms(1) have "\<forall>k \<in> dom m. (\<forall>e. e_key e = k \<longrightarrow> exhibits q m e \<longrightarrow> selects nk q e) \<longrightarrow> k \<in> e_key ` set es"
    unfolding full_answer_def by (elim conjE)
  with assms(2,3) show ?thesis by blast
qed

lemma full_answer_sorted:
  assumes "full_answer nk q m es" "q_orders q \<noteq> []" "weak_order (entry_less (q_orders q))"
  shows "sorted_wrt (\<lambda>a b. \<not> entry_less (q_orders q) b a) es"
  using assms unfolding full_answer_def by (elim conjE) (erule (1) mp [THEN mp])

lemma answersE:
  assumes "answers nk q m rs" "0 \<le> q_limit q" "0 \<le> q_offset q"
  obtains es where "full_answer nk q m es" "rs = map ok_result (window q es)"
  using assms unfolding answers_def by blast

lemma answers_sound:
  assumes "answers nk q m rs" "0 \<le> q_limit q" "0 \<le> q_offset q" "r \<in> set rs"
  shows "r_error r = None" "exhibits q m (entry_of r)" "selects nk q (entry_of r)"
proof -
  from assms(1-3) obtain es where es: "full_answer nk q m es" and rs: "rs = map ok_result (window q es)"
    by (rule answersE)
  from assms(4) have "r \<in> ok_result ` set (window q es)"
    by (simp only: rs set_map)
  then obtain e where r: "r = ok_result e" and e: "e \<in> set (window q es)"
    by (rule imageE)
  from e have "e \<in> set es"
    by (rule subsetD [OF set_window_subset])
  with es have "exhibits q m e" "selects nk q e"
    by (rule full_answerD)+
  with r show "r_error r = None" "exhibits q m (entry_of r)" "selects nk q (entry_of r)"
    by simp_all
qed

lemma exhibits_value: "exhibits q m e \<Longrightarrow> \<not> q_keysOnly q \<Longrightarrow> m (e_key e) = Some (contents (e_value e))"
  by (auto simp: exhibits_def)

lemma exhibits_dom: "exhibits q m e \<Longrightarrow> e_key e \<in> dom m"
  by (auto simp: exhibits_def)

lemma clean_path_append:
  "clean_path (a @ CHR ''/'' # b) \<longleftrightarrow> clean_path a \<and> clean_path b"
  by (auto simp: clean_path_def go_split_append)

lemma clean_path_component:
  assumes "CHR ''/'' \<notin> set p"
  shows "clean_path p \<longleftrightarrow> p \<noteq> [] \<and> p \<noteq> ''.'' \<and> p \<noteq> ''..''"
  unfolding clean_path_def go_split_no_sep [OF assms] by (simp only: list.set ball_simps simp_thms)

lemma clean_path_nonempty: "clean_path k \<Longrightarrow> k \<noteq> []"
  by (rule notI) (simp add: clean_path_def)

end
