(* ===== verification/Filters.thy ===== *)
theory Filters
  imports Datastore
begin

text \<open>
  The query filters of crdt/filters.go, and what each accepts in terms of the components of the
  entry's key. A key of the store has the form \<open>(pid)/category/(tKey)\<close>.
\<close>

text \<open>The loop of \<open>KeyMatchFilter.Filter\<close> over the indices of the filter's components.\<close>

fun match_from :: "string list \<Rightarrow> string list \<Rightarrow> bool" where
  "match_from [] keys = True"
| "match_from (f # fKeys) [] = False"
| "match_from (f # fKeys) (k # keys) =
     (if f \<noteq> ''*'' \<and> f \<noteq> k then False else match_from fKeys keys)"

definition KeyMatchFilter :: "string \<Rightarrow> qfilter" where
  "KeyMatchFilter Key e =
     (let keys = key_parts (e_key e); fKeys = key_parts Key
      in if length keys < length fKeys then False else match_from fKeys keys)"

definition KeyExistFilter :: "string \<Rightarrow> qfilter" where
  "KeyExistFilter Key e \<longleftrightarrow> list_ex (\<lambda>eKey. eKey = Key) (key_parts (e_key e))"

definition ValueMatchFilter :: "bytes \<Rightarrow> qfilter" where
  "ValueMatchFilter Val e \<longleftrightarrow> contents (e_value e) = Val"

lemma match_from_nth:
  "length fs \<le> length ks \<Longrightarrow> match_from fs ks \<longleftrightarrow> (\<forall>i < length fs. fs ! i = ''*'' \<or> fs ! i = ks ! i)"
proof (induction fs ks rule: match_from.induct)
  case (3 f fs k ks)
  have "(\<forall>i < length (f # fs). (f # fs) ! i = ''*'' \<or> (f # fs) ! i = (k # ks) ! i) \<longleftrightarrow>
    (f = ''*'' \<or> f = k) \<and> (\<forall>i < length fs. fs ! i = ''*'' \<or> fs ! i = ks ! i)"
    by (simp only: list.size add_0_right add_Suc_right All_less_Suc2 nth_Cons_0 nth_Cons_Suc)
  with 3 show ?case by auto
qed simp_all

lemma KeyMatchFilter_iff:
  "KeyMatchFilter Key e \<longleftrightarrow>
     length (key_parts Key) \<le> length (key_parts (e_key e))
     \<and> (\<forall>i < length (key_parts Key).
          key_parts Key ! i = ''*'' \<or> key_parts Key ! i = key_parts (e_key e) ! i)"
  using match_from_nth [of "key_parts Key" "key_parts (e_key e)"]
  by (auto simp: KeyMatchFilter_def Let_def)

text \<open>Without wildcards the filter selects the keys whose components extend the filter's.\<close>

lemma match_from_prefix:
  "''*'' \<notin> set fs \<Longrightarrow> match_from fs ks \<longleftrightarrow> (\<exists>r. ks = fs @ r)"
  by (induction fs ks rule: match_from.induct) auto

lemma KeyMatchFilter_no_wildcard:
  assumes "''*'' \<notin> set (key_parts Key)"
  shows "KeyMatchFilter Key e \<longleftrightarrow> (\<exists>r. key_parts (e_key e) = key_parts Key @ r)"
  using match_from_prefix [OF assms, of "key_parts (e_key e)"]
  by (auto simp: KeyMatchFilter_def Let_def)

lemma KeyExistFilter_iff: "KeyExistFilter Key e \<longleftrightarrow> Key \<in> set (key_parts (e_key e))"
  by (auto simp: KeyExistFilter_def list_ex_iff)

lemma KeyExistFilter_slash: "KeyExistFilter Key e \<Longrightarrow> CHR ''/'' \<notin> set Key"
  using key_parts_no_slash by (simp add: KeyExistFilter_iff)

end
