(* ===== verification/Crypto.thy ===== *)
theory Crypto
  imports Prelude
begin

text \<open>
  crypto/crypto.go and the key strings of signature.go: the package's three key functions (which
  \<open>InitCryptoFuncs\<close> replaces), and the peer ID a public key is turned into. A public key is
  written into a store's keys as the base58 form of an identity multihash of its marshalled bytes.

  The key types are the interfaces \<open>IPrivKey\<close> and \<open>IPubKey\<close>, so they are type parameters; a nil
  interface value is \<open>None\<close>. The multihash and peer libraries are the parameter \<open>id_lib\<close>.
\<close>

record ('priv, 'pub) key_iface =
  k_sign :: "'priv \<Rightarrow> bytes \<Rightarrow> bytes res"
  k_verify :: "'pub \<Rightarrow> bytes \<Rightarrow> bytes \<Rightarrow> bool res"

text \<open>
  The package variables. \<open>generateKeyPair\<close> draws from the system's randomness, so it takes the
  bytes it reads as an argument.
\<close>

record ('priv, 'pub) crypto_funcs =
  generateKeyPair :: "bytes \<Rightarrow> ('priv \<times> 'pub) res"
  marshalPubKey :: "'pub option \<Rightarrow> bytes res"
  unmarshalPubKey :: "bytes \<Rightarrow> 'pub res"

text \<open>The functions \<open>init\<close> installs, over libp2p's key marshalling.\<close>

record ('priv, 'pub) p2pcrypto =
  generateEd25519Key :: "bytes \<Rightarrow> ('priv \<times> 'pub) res"
  isP2PPubKey :: "'pub \<Rightarrow> bool"
  p2pMarshalPublicKey :: "'pub \<Rightarrow> bytes res"
  p2pUnmarshalPublicKey :: "bytes \<Rightarrow> 'pub res"

definition default_crypto_funcs :: "('priv, 'pub) p2pcrypto \<Rightarrow> ('priv, 'pub) crypto_funcs" where
  "default_crypto_funcs lib =
     \<lparr>generateKeyPair = generateEd25519Key lib,
      marshalPubKey = (\<lambda>pub. case pub of
          None \<Rightarrow> Inl (ErrNew ''invalid pubKey'')
        | Some p2ppub \<Rightarrow> if isP2PPubKey lib p2ppub then p2pMarshalPublicKey lib p2ppub
                         else Inl (ErrNew ''invalid pubKey'')),
      unmarshalPubKey = p2pUnmarshalPublicKey lib\<rparr>"

definition InitCryptoFuncs ::
  "(bytes \<Rightarrow> ('priv \<times> 'pub) res) \<Rightarrow> ('pub option \<Rightarrow> bytes res) \<Rightarrow> (bytes \<Rightarrow> 'pub res) \<Rightarrow>
    ('priv, 'pub) crypto_funcs \<Rightarrow> ('priv, 'pub) crypto_funcs" where
  "InitCryptoFuncs gkp mpu upu funcs =
     funcs\<lparr>generateKeyPair := gkp, marshalPubKey := mpu, unmarshalPubKey := upu\<rparr>"

text \<open>The multihash and peer libraries; \<open>mh.IDENTITY\<close> is the code 0.\<close>

definition mh_IDENTITY :: nat where "mh_IDENTITY = 0"

record id_lib =
  mh_sum :: "bytes \<Rightarrow> nat \<Rightarrow> int \<Rightarrow> bytes"
  mh_decode :: "bytes \<Rightarrow> (nat \<times> bytes) res"
  pid_pretty :: "bytes \<Rightarrow> string"
  pid_decode :: "string \<Rightarrow> bytes res"

definition err_no_public_key :: goerror where
  "err_no_public_key = ErrLib ''public key is not embedded in peer ID''"

definition idFromPubKey :: "id_lib \<Rightarrow> ('priv, 'pub) crypto_funcs \<Rightarrow> 'pub option \<Rightarrow> bytes res" where
  "idFromPubKey L C pub =
     (case marshalPubKey C pub of
        Inl e \<Rightarrow> Inl e
      | Inr b \<Rightarrow> Inr (mh_sum L b mh_IDENTITY (-1)))"

definition extractPubKey :: "id_lib \<Rightarrow> ('priv, 'pub) crypto_funcs \<Rightarrow> bytes \<Rightarrow> 'pub res" where
  "extractPubKey L C pid =
     (case mh_decode L pid of
        Inl e \<Rightarrow> Inl e
      | Inr (code, digest) \<Rightarrow>
          if code \<noteq> mh_IDENTITY then Inl err_no_public_key else unmarshalPubKey C digest)"

definition PubKeyToStr :: "id_lib \<Rightarrow> ('priv, 'pub) crypto_funcs \<Rightarrow> 'pub option \<Rightarrow> string" where
  "PubKeyToStr L C vk = (case idFromPubKey L C vk of Inl _ \<Rightarrow> [] | Inr pid \<Rightarrow> pid_pretty L pid)"

definition StrToPubKey :: "id_lib \<Rightarrow> ('priv, 'pub) crypto_funcs \<Rightarrow> string \<Rightarrow> 'pub res" where
  "StrToPubKey L C s =
     (case pid_decode L s of
        Inl e \<Rightarrow> Inl e
      | Inr pid \<Rightarrow> (case extractPubKey L C pid of Inl e \<Rightarrow> Inl e | Inr vk \<Rightarrow> Inr vk))"

section \<open>What the code relies on\<close>

text \<open>
  An identity multihash decodes to its digest, and the printed ID of one decodes to it again;
  the printed form is a plain key component of ASCII characters.
\<close>

definition plain_component :: "string \<Rightarrow> bool" where
  "plain_component s \<longleftrightarrow> s \<noteq> [] \<and> s \<noteq> ''.'' \<and> s \<noteq> ''..'' \<and> CHR ''/'' \<notin> set s"

definition id_ok :: "id_lib \<Rightarrow> bool" where
  "id_ok L \<longleftrightarrow>
     (\<forall>b. mh_decode L (mh_sum L b mh_IDENTITY (-1)) = Inr (mh_IDENTITY, b))
     \<and> (\<forall>b. pid_decode L (pid_pretty L (mh_sum L b mh_IDENTITY (-1))) = Inr (mh_sum L b mh_IDENTITY (-1)))
     \<and> (\<forall>b. plain_component (pid_pretty L (mh_sum L b mh_IDENTITY (-1))))"

definition marshal_ok :: "('priv, 'pub) crypto_funcs \<Rightarrow> bool" where
  "marshal_ok C \<longleftrightarrow> (\<forall>pub b. marshalPubKey C (Some pub) = Inr b \<longrightarrow> unmarshalPubKey C b = Inr pub)
     \<and> (\<forall>b. marshalPubKey C None \<noteq> Inr b)"

text \<open>A signature made with the private key verifies with the public key of the pair.\<close>

definition key_pair :: "('priv, 'pub) key_iface \<Rightarrow> 'priv \<Rightarrow> 'pub \<Rightarrow> bool" where
  "key_pair K priv pub \<longleftrightarrow> (\<forall>m s. k_sign K priv m = Inr s \<longrightarrow> k_verify K pub m s = Inr True)"

lemma id_okD [lib_laws]:
  assumes "id_ok L"
  shows "mh_decode L (mh_sum L b mh_IDENTITY (-1)) = Inr (mh_IDENTITY, b)"
    and "pid_decode L (pid_pretty L (mh_sum L b mh_IDENTITY (-1))) = Inr (mh_sum L b mh_IDENTITY (-1))"
    and "plain_component (pid_pretty L (mh_sum L b mh_IDENTITY (-1)))"
  using assms by (simp_all add: id_ok_def)

section \<open>Key strings\<close>

lemma PubKeyToStr_plain:
  assumes "id_ok L" "PubKeyToStr L C pub \<noteq> []"
  shows "plain_component (PubKeyToStr L C pub)"
  using assms by (auto simp: PubKeyToStr_def idFromPubKey_def id_okD(3) split: sum.splits)

text \<open>The key a peer reads out of a key string is the key that was written.\<close>

lemma StrToPubKey_PubKeyToStr:
  assumes "id_ok L" "marshal_ok C" "PubKeyToStr L C pub \<noteq> []"
  obtains vk where "pub = Some vk" "StrToPubKey L C (PubKeyToStr L C pub) = Inr vk"
proof -
  from assms(3) obtain b where b: "marshalPubKey C pub = Inr b"
    by (auto simp: PubKeyToStr_def idFromPubKey_def split: sum.splits)
  with assms(2) obtain vk where vk: "pub = Some vk" "unmarshalPubKey C b = Inr vk"
    by (cases pub) (auto simp: marshal_ok_def)
  from b have "PubKeyToStr L C pub = pid_pretty L (mh_sum L b mh_IDENTITY (-1))"
    by (simp add: PubKeyToStr_def idFromPubKey_def)
  with vk assms(1) have "StrToPubKey L C (PubKeyToStr L C pub) = Inr vk"
    by (simp add: StrToPubKey_def extractPubKey_def id_okD)
  with vk(1) show thesis by (rule that)
qed

lemma PubKeyToStr_inject:
  assumes "id_ok L" "marshal_ok C" "PubKeyToStr L C p = PubKeyToStr L C q" "PubKeyToStr L C p \<noteq> []"
  shows "p = q"
proof -
  from assms(1,2,4) obtain v where v: "p = Some v" "StrToPubKey L C (PubKeyToStr L C p) = Inr v"
    by (rule StrToPubKey_PubKeyToStr)
  from assms(1,2) assms(4) [unfolded assms(3)] obtain w where
    "q = Some w" "StrToPubKey L C (PubKeyToStr L C q) = Inr w"
    by (rule StrToPubKey_PubKeyToStr)
  with v assms(3) show ?thesis by simp
qed

lemma StrToPubKey_only_identity:
  assumes "StrToPubKey L C s = Inr vk"
  obtains pid digest where "pid_decode L s = Inr pid" "mh_decode L pid = Inr (mh_IDENTITY, digest)"
    "unmarshalPubKey C digest = Inr vk"
  using assms by (auto simp: StrToPubKey_def extractPubKey_def split: sum.splits prod.splits if_splits)

end
