(* ===== verification/BaseStore.thy ===== *)
theory BaseStore
  imports Base64 Messages Filters Crypto
begin

text \<open>
  The base store of crdt/crdtverse.go, on which every store of the package is built: addresses
  (\<open>MakeAddress\<close>, \<open>parseAddress\<close>), the record operations over the CRDT datastore, closing, and
  the two goroutines that watch the time limit and synchronise, as a step relation.

  The record \<open>env\<close> collects the libraries and the package variables the operations use.
\<close>

record ('d, 'priv, 'pub) env =
  lib_ds :: "'d datastore"
  lib_q :: query_lib
  lib_pb :: protos
  lib_id :: id_lib
  argonIDKey :: "bytes \<Rightarrow> bytes \<Rightarrow> nat \<Rightarrow> nat \<Rightarrow> nat \<Rightarrow> nat \<Rightarrow> bytes"
  key_ops :: "('priv, 'pub) key_iface"
  crypto :: "('priv, 'pub) crypto_funcs"
  local_zone :: zone

section \<open>Addresses\<close>

definition MakeAddress ::
  "('d, 'priv, 'pub) env \<Rightarrow> string \<Rightarrow> string \<Rightarrow> slice \<Rightarrow> gotime list \<Rightarrow> string" where
  "MakeAddress E name pid salt timeLimits =
     (let lim = (case timeLimits of [] \<Rightarrow> zero_time | t # _ \<Rightarrow> t)
      in case time_marshal lim of
           Inl _ \<Rightarrow> []
         | Inr mt \<Rightarrow>
             (let baseAddress = \<lparr>ba_name = name, ba_salt = salt, ba_pid = pid, ba_time = Some mt\<rparr>
              in case c_marshal (pb_address (lib_pb E)) baseAddress of
                   Inl _ \<Rightarrow> []
                 | Inr m \<Rightarrow> b64_encode m))"

definition parseAddress ::
  "('d, 'priv, 'pub) env \<Rightarrow> string \<Rightarrow> (string \<times> slice \<times> string \<times> gotime) res" where
  "parseAddress E addr =
     (if addr = [] then Inl (ErrNew ''invalid address'')
      else case b64_decode addr of
        Inl e \<Rightarrow> Inl e
      | Inr m \<Rightarrow>
          (case c_unmarshal (pb_address (lib_pb E)) m of
             Inl e \<Rightarrow> Inl e
           | Inr baseAddress \<Rightarrow>
               (case time_unmarshal (local_zone E) (contents (ba_time baseAddress)) of
                  Inl e \<Rightarrow> Inl e
                | Inr lim \<Rightarrow>
                    Inr (ba_name baseAddress, ba_salt baseAddress, ba_pid baseAddress, lim))))"

section \<open>The store\<close>

text \<open>
  \<open>bs_closed\<close> lists the resources closed so far, in order. \<open>bs_watch\<close> and \<open>bs_syncer\<close> say
  whether the goroutines started by \<open>setTimeLimit\<close> and \<open>autoSync\<close> are still running. \<open>bs_save\<close> says
  whether \<open>dsCancel\<close> leaves the directory alone.
\<close>

datatype resource = RDatastore | RBadger | RDHT | RHost

record 'd base_store =
  bs_name :: string
  bs_timeLimit :: gotime
  bs_inTime :: bool
  bs_dt :: 'd
  bs_ctxDone :: bool
  bs_closed :: "resource list"
  bs_save :: bool
  bs_dirRemoved :: bool
  bs_watch :: bool
  bs_syncer :: bool

definition base_Cancel :: "('d, 'priv, 'pub) env \<Rightarrow> 'd base_store \<Rightarrow> 'd base_store" where
  "base_Cancel E s = s\<lparr>bs_ctxDone := True, bs_dt := ds_close (lib_ds E) (bs_dt s),
     bs_closed := bs_closed s @ [RDatastore, RBadger, RDHT, RHost]\<rparr>"

definition base_Close :: "('d, 'priv, 'pub) env \<Rightarrow> 'd base_store \<Rightarrow> 'd base_store" where
  "base_Close E s =
     (let s = base_Cancel E s in if bs_save s then s else s\<lparr>bs_dirRemoved := True\<rparr>)"

definition base_Address :: "('d, 'priv, 'pub) env \<Rightarrow> 'd base_store \<Rightarrow> string" where
  "base_Address E s = MakeAddress E (bs_name s) [] None [bs_timeLimit s]"

definition base_isInTime :: "'d base_store \<Rightarrow> bool" where
  "base_isInTime s = bs_inTime s"

definition base_setTimeLimit :: "gotime \<Rightarrow> 'd base_store \<Rightarrow> 'd base_store" where
  "base_setTimeLimit now s =
     (if \<not> bs_inTime s then s
      else if time_equal (bs_timeLimit s) zero_time then s
      else if time_before (bs_timeLimit s) now then s\<lparr>bs_inTime := False\<rparr>
      else s\<lparr>bs_watch := True\<rparr>)"

definition base_Sync :: "('d, 'priv, 'pub) env \<Rightarrow> 'd base_store \<Rightarrow> 'd base_store \<times> goerror option" where
  "base_Sync E s =
     (if \<not> bs_inTime s then (s, None)
      else let (d, err) = ds_sync (lib_ds E) (bs_dt s) in (s\<lparr>bs_dt := d\<rparr>, err))"

definition base_autoSync :: "('d, 'priv, 'pub) env \<Rightarrow> 'd base_store \<Rightarrow> 'd base_store" where
  "base_autoSync E s =
     (if \<not> bs_inTime s then s
      else case ds_sync (lib_ds E) (bs_dt s) of
        (d, Some err) \<Rightarrow> s\<lparr>bs_dt := d\<rparr>
      | (d, None) \<Rightarrow> s\<lparr>bs_dt := d, bs_syncer := True\<rparr>)"

definition base_Has :: "('d, 'priv, 'pub) env \<Rightarrow> 'd base_store \<Rightarrow> string \<Rightarrow> bool res" where
  "base_Has E s key = ds_has (lib_ds E) (bs_dt s) (newKey (lib_ds E) key)"

definition base_Put ::
  "('d, 'priv, 'pub) env \<Rightarrow> string \<Rightarrow> bytes \<Rightarrow> 'd base_store \<Rightarrow> 'd base_store \<times> goerror option" where
  "base_Put E key val s =
     (case base_Has E s key of
        Inr True \<Rightarrow> (s, Some ErrAlreadyExist)
      | _ \<Rightarrow>
          let (d, err) = ds_put (lib_ds E) (bs_dt s) (newKey (lib_ds E) key) val
          in (s\<lparr>bs_dt := d\<rparr>, err))"

definition err_no_valid_data :: goerror where
  "err_no_valid_data = ErrNew ''no valid data''"

definition base_Get :: "('d, 'priv, 'pub) env \<Rightarrow> 'd base_store \<Rightarrow> string \<Rightarrow> bytes res" where
  "base_Get E s key =
     (case ds_get (lib_ds E) (bs_dt s) (newKey (lib_ds E) key) of
        Inl err \<Rightarrow> Inl err
      | Inr None \<Rightarrow> Inl err_no_valid_data
      | Inr (Some b) \<Rightarrow> Inr b)"

definition base_GetSize :: "('d, 'priv, 'pub) env \<Rightarrow> 'd base_store \<Rightarrow> string \<Rightarrow> int res" where
  "base_GetSize E s key = ds_getSize (lib_ds E) (bs_dt s) (newKey (lib_ds E) key)"

definition base_Query ::
  "('d, 'priv, 'pub) env \<Rightarrow> 'd base_store \<Rightarrow> query list \<Rightarrow> result list res" where
  "base_Query E s qs = ds_query (lib_ds E) (bs_dt s) (query_arg qs)"

definition base_initPut ::
  "('d, 'priv, 'pub) env \<Rightarrow> 'd base_store \<Rightarrow> 'd base_store \<times> goerror option" where
  "base_initPut E s = base_Put E (bs_name s) (bytes_of_string (bs_name s)) s"

text \<open>
  The check of a loaded store, over the query method of the store: one key has arrived, or the
  time window is over.
\<close>

definition one_key_query :: query where
  "one_key_query = empty_query\<lparr>q_keysOnly := True, q_limit := 1\<rparr>"

definition loadCheck_with ::
  "('d, 'priv, 'pub) env \<Rightarrow> (query list \<Rightarrow> result list res) \<Rightarrow> 'd base_store \<Rightarrow> bool" where
  "loadCheck_with E query s =
     (if \<not> bs_inTime s then True
      else case query [one_key_query] of
        Inl _ \<Rightarrow> False
      | Inr rs \<Rightarrow> (case results_rest (lib_q E) rs of Inl _ \<Rightarrow> False | Inr resList \<Rightarrow> 0 < length resList))"

definition base_loadCheck :: "('d, 'priv, 'pub) env \<Rightarrow> 'd base_store \<Rightarrow> bool" where
  "base_loadCheck E s = loadCheck_with E (base_Query E s) s"

section \<open>The base validator\<close>

definition base_Validate :: "'d base_store \<Rightarrow> string \<Rightarrow> bytes \<Rightarrow> bool" where
  "base_Validate s key val = base_isInTime s"

text \<open>
  The interface \<open>iValidator\<close>: every validator decides for the store it was made for, and none
  accepts a record once the store's time window is over.
\<close>

locale validator =
  fixes validate :: "'st \<Rightarrow> string \<Rightarrow> bytes \<Rightarrow> bool"
    and inTime :: "'st \<Rightarrow> bool"
  assumes validate_inTime: "validate s key val \<Longrightarrow> inTime s"
begin

lemma closed_rejects: "\<not> inTime s \<Longrightarrow> \<not> validate s key val"
  using validate_inTime by blast

lemma closed_rejects_all:
  "\<not> inTime s \<Longrightarrow> list_all (\<lambda>(key, val). validate s key val) recs \<longleftrightarrow> recs = []"
  by (cases recs) (auto dest: validate_inTime)

end

interpretation base_val: validator base_Validate base_isInTime
  by unfold_locales (simp add: base_Validate_def)

section \<open>Append-only stores\<close>

text \<open>
  The contract every store of the package gives to its callers: a successful \<open>Put\<close> adds one
  record under a key that was not there, a failed one changes no record. \<open>lawful\<close> is what the
  store's libraries must satisfy.
\<close>

fun run_puts :: "('a \<Rightarrow> 'st \<Rightarrow> 'st \<times> goerror option) \<Rightarrow> 'a list \<Rightarrow> 'st \<Rightarrow> 'st" where
  "run_puts put [] s = s"
| "run_puts put (a # as) s = run_puts put as (fst (put a s))"

fun puts_done :: "('a \<Rightarrow> 'st \<Rightarrow> 'st \<times> goerror option) \<Rightarrow> 'a list \<Rightarrow> 'st \<Rightarrow> nat" where
  "puts_done put [] s = 0"
| "puts_done put (a # as) s =
     (if snd (put a s) = None then 1 else 0) + puts_done put as (fst (put a s))"

locale append_only =
  fixes lawful :: bool
    and table :: "'st \<Rightarrow> (string \<rightharpoonup> bytes)"
    and put :: "'a \<Rightarrow> 'st \<Rightarrow> 'st \<times> goerror option"
  assumes put_ok: "lawful \<Longrightarrow> put a s = (s', None) \<Longrightarrow>
      \<exists>k v. table s k = None \<and> table s' = (table s)(k \<mapsto> v)"
    and put_err: "lawful \<Longrightarrow> put a s = (s', Some e) \<Longrightarrow> table s' = table s"
begin

lemma put_extends: "lawful \<Longrightarrow> table s \<subseteq>\<^sub>m table (fst (put a s))"
proof (cases "put a s")
  case (Pair s' err)
  assume lawful
  show ?thesis
  proof (cases err)
    case None
    with \<open>lawful\<close> Pair put_ok [of a s s'] obtain k v where
      "table s k = None" "table s' = (table s)(k \<mapsto> v)" by blast
    with Pair show ?thesis by (auto simp: map_le_def)
  next
    case (Some e)
    with \<open>lawful\<close> Pair put_err [of a s s' e] show ?thesis by simp
  qed
qed

lemma run_extends: "lawful \<Longrightarrow> table s \<subseteq>\<^sub>m table (run_puts put as s)"
  by (induction as arbitrary: s) (auto intro: map_le_trans put_extends)

lemma run_keeps: "lawful \<Longrightarrow> table s k = Some v \<Longrightarrow> table (run_puts put as s) k = Some v"
  using run_extends [of s as] by (metis domI map_le_def)

lemma put_size:
  assumes lawful "finite (dom (table s))"
  shows "finite (dom (table (fst (put a s))))"
    and "card (dom (table (fst (put a s)))) = (if snd (put a s) = None then 1 else 0) + card (dom (table s))"
proof -
  obtain s' err where p: "put a s = (s', err)" by (cases "put a s")
  have "finite (dom (table s')) \<and> card (dom (table s')) = (if err = None then 1 else 0) + card (dom (table s))"
  proof (cases err)
    case None
    with assms(1) p put_ok [of a s s'] obtain k v where
      "table s k = None" "table s' = (table s)(k \<mapsto> v)" by blast
    with None assms(2) show ?thesis by (simp add: domIff card_insert_if)
  next
    case (Some e)
    with assms p put_err [of a s s' e] show ?thesis by simp
  qed
  with p show "finite (dom (table (fst (put a s))))"
    and "card (dom (table (fst (put a s)))) = (if snd (put a s) = None then 1 else 0) + card (dom (table s))"
    by simp_all
qed

lemma run_size:
  "lawful \<Longrightarrow> finite (dom (table s)) \<Longrightarrow>
     card (dom (table (run_puts put as s))) = puts_done put as s + card (dom (table s))"
  by (induction as arbitrary: s) (simp_all add: put_size)

end

section \<open>Record operations\<close>

definition base_table :: "('d \<Rightarrow> (string \<rightharpoonup> bytes)) \<Rightarrow> 'd base_store \<Rightarrow> (string \<rightharpoonup> bytes)" where
  "base_table els s = els (bs_dt s)"

definition env_ok :: "('d, 'priv, 'pub) env \<Rightarrow> ('d \<Rightarrow> (string \<rightharpoonup> bytes)) \<Rightarrow> bool" where
  "env_ok E els \<longleftrightarrow> ds_ok (lib_ds E) els \<and> ds_has_total (lib_ds E)"

lemma env_okD [lib_laws]:
  "env_ok E els \<Longrightarrow> ds_ok (lib_ds E) els" "env_ok E els \<Longrightarrow> ds_has_total (lib_ds E)"
  by (simp_all add: env_ok_def)

lemma base_Has_exact:
  "env_ok E els \<Longrightarrow> base_Has E s key = Inr (base_table els s (newKey (lib_ds E) key) \<noteq> None)"
  unfolding base_Has_def base_table_def by (rule ds_has_exact) (simp_all add: env_ok_def)

lemma base_Put_cases:
  assumes "env_ok E els"
  shows "base_Put E key val s =
    (if base_table els s (newKey (lib_ds E) key) \<noteq> None then (s, Some ErrAlreadyExist)
     else (s\<lparr>bs_dt := fst (ds_put (lib_ds E) (bs_dt s) (newKey (lib_ds E) key) val)\<rparr>,
           snd (ds_put (lib_ds E) (bs_dt s) (newKey (lib_ds E) key) val)))"
  by (simp add: base_Put_def base_Has_exact [OF assms] split_beta Let_def)

lemma base_Put_ok:
  assumes "env_ok E els" "base_Put E key val s = (s', None)"
  shows "base_table els s (newKey (lib_ds E) key) = None"
    and "base_table els s' = (base_table els s)(newKey (lib_ds E) key \<mapsto> val)"
    and "bs_name s' = bs_name s" "bs_inTime s' = bs_inTime s" "bs_timeLimit s' = bs_timeLimit s"
proof -
  let ?k = "newKey (lib_ds E) key"
  from assms(2) have fresh: "base_table els s ?k = None"
    and s': "s' = s\<lparr>bs_dt := fst (ds_put (lib_ds E) (bs_dt s) ?k val)\<rparr>"
    and ok: "snd (ds_put (lib_ds E) (bs_dt s) ?k val) = None"
    unfolding base_Put_cases [OF assms(1)] by (auto split: if_splits)
  show "base_table els s ?k = None" by (rule fresh)
  from ok have "ds_put (lib_ds E) (bs_dt s) ?k val = (fst (ds_put (lib_ds E) (bs_dt s) ?k val), None)"
    by (simp add: prod_eq_iff)
  from ds_okD(2) [OF env_okD(1) [OF assms(1)] this]
  show "base_table els s' = (base_table els s)(?k \<mapsto> val)"
    unfolding base_table_def s' by simp
  show "bs_name s' = bs_name s" "bs_inTime s' = bs_inTime s" "bs_timeLimit s' = bs_timeLimit s"
    by (simp_all add: s')
qed

lemma base_Put_err:
  assumes "env_ok E els" "base_Put E key val s = (s', Some e)"
  shows "base_table els s' = base_table els s"
proof (cases "base_table els s (newKey (lib_ds E) key)")
  case None
  let ?p = "ds_put (lib_ds E) (bs_dt s) (newKey (lib_ds E) key) val"
  from None assms(2) have s': "s' = s\<lparr>bs_dt := fst ?p\<rparr>" and "snd ?p = Some e"
    unfolding base_Put_cases [OF assms(1)] by simp_all
  then have "?p = (fst ?p, Some e)" by (simp add: prod_eq_iff)
  from ds_okD(3) [OF env_okD(1) [OF assms(1)] this] show ?thesis by (simp add: s' base_table_def)
next
  case (Some v)
  with assms(2) show ?thesis by (simp add: base_Put_cases [OF assms(1)])
qed

text \<open>Writing to a key that is there reports \<open>ErrAlreadyExist\<close> and changes nothing.\<close>

lemma base_Put_exists:
  "base_Has E s key = Inr True \<Longrightarrow> base_Put E key val s = (s, Some ErrAlreadyExist)"
  by (simp add: base_Put_def)

text \<open>Unlike a store whose lookup fails: the write goes through, whatever is there.\<close>

lemma base_Put_has_fails:
  "base_Has E s key = Inl e \<Longrightarrow> base_Put E key val s =
     (s\<lparr>bs_dt := fst (ds_put (lib_ds E) (bs_dt s) (newKey (lib_ds E) key) val)\<rparr>,
      snd (ds_put (lib_ds E) (bs_dt s) (newKey (lib_ds E) key) val))"
  by (simp add: base_Put_def split_beta Let_def)

interpretation base_store: append_only "env_ok E els" "base_table els" "\<lambda>(key, val). base_Put E key val"
  for E els
proof unfold_locales
  fix a :: "string \<times> bytes" and s s' :: "'a base_store"
  assume "env_ok E els" "(case a of (key, val) \<Rightarrow> base_Put E key val) s = (s', None)"
  then show "\<exists>k v. base_table els s k = None \<and> base_table els s' = (base_table els s)(k \<mapsto> v)"
    by (cases a) (auto dest: base_Put_ok(1,2))
next
  fix a :: "string \<times> bytes" and s s' :: "'a base_store" and e
  assume "env_ok E els" "(case a of (key, val) \<Rightarrow> base_Put E key val) s = (s', Some e)"
  then show "base_table els s' = base_table els s"
    by (cases a) (auto dest: base_Put_err)
qed

lemma base_Get_sound:
  assumes "env_ok E els" "base_Get E s key = Inr b"
  shows "base_table els s (newKey (lib_ds E) key) = Some b"
proof -
  from assms(2) have "ds_get (lib_ds E) (bs_dt s) (newKey (lib_ds E) key) = Inr (Some b)"
    by (auto simp: base_Get_def split: sum.splits option.splits)
  from ds_okD(5) [OF env_okD(1) [OF assms(1)] this] show ?thesis
    by (simp add: base_table_def)
qed

lemma base_Get_live:
  assumes "ds_live (lib_ds E) els" "base_table els s (newKey (lib_ds E) key) = Some b" "b \<noteq> []"
  shows "base_Get E s key = Inr b"
  using ds_liveD(3) [OF assms(1) assms(2) [unfolded base_table_def] assms(3)]
  by (simp add: base_Get_def)

lemma base_Put_live:
  assumes "env_ok E els" "ds_live (lib_ds E) els" "base_table els s (newKey (lib_ds E) key) = None"
  shows "snd (base_Put E key val s) = None"
  using assms(3) ds_liveD(2) [OF assms(2)] by (simp add: base_Put_cases [OF assms(1)])

text \<open>Put, then Get.\<close>

lemma base_Put_Get:
  assumes "env_ok E els" "ds_live (lib_ds E) els" "base_Put E key val s = (s', None)" "val \<noteq> []"
  shows "base_Get E s' key = Inr val"
proof -
  have "base_table els s' (newKey (lib_ds E) key) = Some val"
    unfolding base_Put_ok(2) [OF assms(1,3)] by simp
  with assms(2,4) show ?thesis by (intro base_Get_live)
qed

lemma base_Query_answers:
  "env_ok E els \<Longrightarrow> base_Query E s qs = Inr rs \<Longrightarrow>
     answers (newKey (lib_ds E)) (query_arg qs) (base_table els s) rs"
  unfolding base_Query_def base_table_def by (rule ds_okD(6) [OF env_okD(1)])

section \<open>Addresses round trip\<close>

lemma b64_encode_ascii: "ascii (b64_encode bs)"
proof -
  have "\<forall>c \<in> insert (CHR ''='') (set b64_alphabet). (of_char c :: nat) < 128"
    by (simp add: b64_alphabet_def)
  with b64_encode_chars show ?thesis unfolding ascii_def by blast
qed

lemma protos_total_address:
  "protos_total P \<Longrightarrow> ascii (ba_name m) \<Longrightarrow> ascii (ba_pid m) \<Longrightarrow> \<exists>b. c_marshal (pb_address P) m = Inr b"
  by (auto simp: protos_total_def dest: codec_totalD)

lemma marshalled_address_nonempty:
  assumes "protos_ok P" "c_marshal (pb_address P) m = Inr b" "contents (ba_time m) \<noteq> []"
  shows "b \<noteq> []"
proof
  assume "b = []"
  with protos_okD(1,5) [OF assms(1)] assms(2) have "zero_address = canon_address m" by simp
  then have "ba_time zero_address = ba_time (canon_address m)" by simp
  with assms(3) show False by (simp add: zero_address_def canon_slice_def)
qed

lemma parse_MakeAddress:
  assumes E: "protos_ok (lib_pb E)" "protos_total (lib_pb E)"
    and names: "ascii name" "ascii pid" and mt: "time_marshal lim = Inr mt"
    and un: "time_unmarshal (local_zone E) mt = Inr lim'"
  shows "parseAddress E (MakeAddress E name pid salt [lim]) = Inr (name, canon_slice salt, pid, lim')"
proof -
  let ?m = "\<lparr>ba_name = name, ba_salt = salt, ba_pid = pid, ba_time = Some mt\<rparr>"
  from protos_total_address [OF E(2), of ?m] names obtain b where
    b: "c_marshal (pb_address (lib_pb E)) ?m = Inr b" by auto
  have "mt \<noteq> []" using mt by (auto dest: time_marshal_zero_length)
  with marshalled_address_nonempty [OF E(1) b] have "b \<noteq> []" by simp
  with b mt un \<open>mt \<noteq> []\<close> protos_okD(1) [OF E(1) b] show ?thesis
    by (simp add: MakeAddress_def parseAddress_def)
qed

lemma parse_MakeAddress_UTC:
  assumes "protos_ok (lib_pb E)" "protos_total (lib_pb E)" "ascii name" "ascii pid"
    and "wf_time lim" "t_loc lim = UTC"
  shows "parseAddress E (MakeAddress E name pid salt [lim]) = Inr (name, canon_slice salt, pid, strip_mono lim)"
proof -
  from time_roundtrip_UTC [OF assms(5,6), of "local_zone E"] obtain mt where
    "time_marshal lim = Inr mt" "time_unmarshal (local_zone E) mt = Inr (strip_mono lim)"
    by blast
  with assms(1-4) show ?thesis by (rule parse_MakeAddress)
qed

text \<open>
  A time limit in another zone keeps its instant; one that does not marshal (an offset that is not
  in whole minutes) makes the address empty.
\<close>

lemma parse_MakeAddress_instant:
  assumes "protos_ok (lib_pb E)" "protos_total (lib_pb E)" "ascii name" "ascii pid"
    and "time_marshal lim = Inr mt"
  obtains lim' where
    "parseAddress E (MakeAddress E name pid salt [lim]) = Inr (name, canon_slice salt, pid, lim')"
    "instant_of lim' = instant_of lim"
proof -
  from assms(5) obtain lim' where
    u: "time_unmarshal (local_zone E) mt = Inr lim'" and i: "instant_of lim' = instant_of lim"
    by (rule time_roundtrip_instant)
  from parse_MakeAddress [OF assms u] i show thesis by (rule that)
qed

lemma MakeAddress_no_zone: "time_marshal lim = Inl e \<Longrightarrow> MakeAddress E name pid salt [lim] = []"
  by (simp add: MakeAddress_def)

lemma MakeAddress_no_limit: "MakeAddress E name pid salt [] = MakeAddress E name pid salt [zero_time]"
  by (simp add: MakeAddress_def)

end
