(* ===== verification/Orders.thy ===== *)
theory Orders
  imports BaseStore "HOL-Library.Char_ord" "HOL-Library.List_Lexorder"
begin

text \<open>
  The two orders of crdt/updatable.go by which query results are sorted: by category (every
  component of the key but the last) and by the timestamp in the last component, newest first.

  The locale \<open>ranked_order\<close> is the contract a sort needs of an implementation of \<open>query.Order\<close>:
  three-way comparison of a rank on the entries that have one, the others after them. Both orders
  satisfy it, so putting them in front of a strict weak order keeps it one.
\<close>

section \<open>The comparisons of the source\<close>

definition categoryOrder :: qorder where
  "categoryOrder a b =
     (let keys = key_parts (e_key a) in
      if length keys < 2 then 1
      else let aKey = go_join ''/'' (take (length keys - 1) keys);
               keys = key_parts (e_key b)
           in if length keys < 2 then -1
              else let bKey = go_join ''/'' (take (length keys - 1) keys)
                   in str_compare aKey bKey)"

definition updatableOrder :: "zone \<Rightarrow> qorder" where
  "updatableOrder local a b =
     (let keys = key_parts (e_key a); taKey = keys ! (length keys - 1)
      in case b64_decode taKey of
        Inl _ \<Rightarrow> 1
      | Inr ma \<Rightarrow>
          (let keys = key_parts (e_key b); tbKey = keys ! (length keys - 1)
           in case b64_decode tbKey of
             Inl _ \<Rightarrow> -1
           | Inr mb \<Rightarrow>
               (case time_unmarshal local ma of
                  Inl _ \<Rightarrow> 1
                | Inr ta \<Rightarrow>
                    (case time_unmarshal local mb of
                       Inl _ \<Rightarrow> -1
                     | Inr tb \<Rightarrow>
                         if time_equal (to_utc ta) (to_utc tb) then 0
                         else if time_after (to_utc ta) (to_utc tb) then -1
                         else 1))))"

section \<open>The contract of an order\<close>

text \<open>
  \<open>level\<close> is 0 for the entries the order can rank; the entries of a higher level come later, and
  two entries of one positive level are not told apart (each compares as 1 with the other).
\<close>

definition three_way :: "'k::linorder \<Rightarrow> 'k \<Rightarrow> int" where
  "three_way x y = (if x = y then 0 else if x < y then -1 else 1)"

locale ranked_order =
  fixes cmp :: qorder
    and level :: "entry \<Rightarrow> nat"
    and rank :: "entry \<Rightarrow> 'k::linorder"
  assumes cmp_rank: "cmp a b =
    (if level a = 0 \<and> level b = 0 then three_way (rank a) (rank b)
     else if level a < level b then -1 else 1)"
begin

lemma less_iff:
  "entry_less (cmp # cs) a b \<longleftrightarrow>
     level a < level b
     \<or> level a = 0 \<and> level b = 0 \<and> (rank a < rank b \<or> rank a = rank b \<and> entry_less cs a b)"
  by (auto simp: entry_less.simps(2) cmp_rank three_way_def)

lemma less_weak_order:
  assumes "weak_order (entry_less cs)"
  shows "weak_order (entry_less (cmp # cs))"
proof (rule weak_orderI)
  fix a b
  assume "entry_less (cmp # cs) a b"
  then show "\<not> entry_less (cmp # cs) b a"
    unfolding less_iff using weak_order_asym [OF assms, of a b] by auto
next
  fix a b c
  assume "entry_less (cmp # cs) a b"
  then show "entry_less (cmp # cs) a c \<or> entry_less (cmp # cs) c b"
    unfolding less_iff using weak_order_neg_trans [OF assms, of a c b]
    by (metis less_trans linorder_neqE not_less0 neq0_conv)
qed

text \<open>An entry that no entry precedes has the least rank.\<close>

lemma first_has_least_rank:
  assumes "\<not> entry_less (cmp # cs) b a" "level b = 0"
  shows "level a = 0 \<and> rank a \<le> rank b"
  using assms unfolding less_iff by (cases "level a = 0") auto

end

section \<open>The category of a key\<close>

definition has_category :: "string \<Rightarrow> bool" where
  "has_category k \<longleftrightarrow> 2 \<le> length (key_parts k)"

definition category_of :: "string \<Rightarrow> string" where
  "category_of k = go_join ''/'' (butlast (key_parts k))"

lemma less_string_iff: "s < t \<longleftrightarrow> str_compare s t = -1" for s t :: string
proof (induction s t rule: str_compare.induct)
  case (4 x xs y ys)
  then show ?case
    by (auto simp: less_char_def)
qed simp_all

lemma str_compare_three_way: "str_compare s t = three_way s t"
  using str_compare_values [of s t] less_string_iff [of s t] str_compare_eq_0 [of s t]
  by (auto simp: three_way_def)

interpretation category_order:
  ranked_order categoryOrder "\<lambda>e. if has_category (e_key e) then 0 else 1" "\<lambda>e. category_of (e_key e)"
  by unfold_locales
    (simp add: categoryOrder_def has_category_def category_of_def str_compare_three_way Let_def
      butlast_conv_take not_le)

section \<open>The timestamp of a key\<close>

definition key_time :: "zone \<Rightarrow> string \<Rightarrow> gotime res" where
  "key_time local k =
     (case b64_decode (last (key_parts k)) of Inl e \<Rightarrow> Inl e | Inr m \<Rightarrow> time_unmarshal local m)"

definition time_level :: "zone \<Rightarrow> string \<Rightarrow> nat" where
  "time_level local k =
     (case b64_decode (last (key_parts k)) of
        Inl _ \<Rightarrow> 2
      | Inr m \<Rightarrow> (case time_unmarshal local m of Inl _ \<Rightarrow> 1 | Inr _ \<Rightarrow> 0))"

text \<open>Newest first: the rank is the negated instant.\<close>

definition time_rank :: "zone \<Rightarrow> string \<Rightarrow> int \<times> int" where
  "time_rank local k =
     (case key_time local k of
        Inl _ \<Rightarrow> (0, 0)
      | Inr t \<Rightarrow> (- i_sec (instant_of t), - i_nsec (instant_of t)))"

lemma time_level_0: "time_level local k = 0 \<longleftrightarrow> is_ok (key_time local k)"
  by (auto simp: time_level_def key_time_def split: sum.splits)

lemma time_rank_le:
  "key_time local k = Inr t \<Longrightarrow> key_time local k' = Inr t' \<Longrightarrow>
     time_rank local k \<le> time_rank local k' \<longleftrightarrow> instant_of t' \<le> instant_of t"
  by (auto simp: time_rank_def less_eq_instant_def)

lemma time_rank_eq:
  "key_time local k = Inr t \<Longrightarrow> key_time local k' = Inr t' \<Longrightarrow>
     time_rank local k = time_rank local k' \<longleftrightarrow> instant_of t' = instant_of t"
  by (auto simp: time_rank_def intro: instant.expand)

lemma last_nth: "xs \<noteq> [] \<Longrightarrow> xs ! (length xs - Suc 0) = last xs"
  by (simp add: last_conv_nth)

lemma three_way_times:
  assumes "key_time local k = Inr t" "key_time local k' = Inr t'"
  shows "three_way (time_rank local k) (time_rank local k') =
    (if time_equal (to_utc t) (to_utc t') then 0 else if time_after (to_utc t) (to_utc t') then -1 else 1)"
  using time_rank_eq [OF assms] time_rank_le [OF assms]
  by (auto simp: three_way_def time_equal_instant time_after_instant)

interpretation updatable_order:
  ranked_order "updatableOrder local" "\<lambda>e. time_level local (e_key e)" "\<lambda>e. time_rank local (e_key e)"
  for local
proof unfold_locales
  fix a b :: entry
  show "updatableOrder local a b =
    (if time_level local (e_key a) = 0 \<and> time_level local (e_key b) = 0
     then three_way (time_rank local (e_key a)) (time_rank local (e_key b))
     else if time_level local (e_key a) < time_level local (e_key b) then -1 else 1)"
  proof (cases "time_level local (e_key a) = 0 \<and> time_level local (e_key b) = 0")
    case True
    then obtain t t' where t: "key_time local (e_key a) = Inr t" "key_time local (e_key b) = Inr t'"
      by (auto simp: time_level_0 is_ok_iff)
    with True show ?thesis
      by (auto simp: three_way_times updatableOrder_def key_time_def Let_def last_nth split: sum.splits)
  next
    case False
    then show ?thesis
      by (auto simp: updatableOrder_def time_level_def Let_def last_nth split: sum.splits)
  qed
qed

text \<open>
  As three-way comparisons they are lawful for the entries they can rank only: of two entries that hold
  no category, or no timestamp for the same reason, each compares as greater than the other, and such
  an entry as greater than itself.
\<close>

lemma three_way_sum [simp]: "three_way x y + three_way y x = 0"
  by (auto simp: three_way_def)

context ranked_order
begin

lemma cmp_sum: "cmp a b + cmp b a = (if level a = level b \<and> 0 < level a then 2 else 0)"
  by (auto simp: cmp_rank)

lemma cmp_self: "cmp a a = (if level a = 0 then 0 else 1)"
  by (simp add: cmp_rank three_way_def)

end

text \<open>Both orders the stores sort by are strict weak orders.\<close>

lemma time_less_weak: "weak_order (entry_less [updatableOrder local])"
  by (rule updatable_order.less_weak_order [OF weak_order_keys])

lemma category_time_less_weak: "weak_order (entry_less [categoryOrder, updatableOrder local])"
  by (rule category_order.less_weak_order [OF time_less_weak])

end
