(* ===== verification/Lifecycle.thy ===== *)
theory Lifecycle
  imports BaseStore
begin

text \<open>
  The life of a base store: the goroutine \<open>setTimeLimit\<close> starts waits for the deadline or for the
  store's context, the one \<open>autoSync\<close> starts synchronises at every tick until the window closes, a
  synchronisation fails or the store is closed. Together with the caller's \<open>Put\<close> and \<open>Cancel\<close> they
  are a step relation: each step is one goroutine moving, at a reading \<open>now\<close> of the clock. Where two
  channels of a \<open>select\<close> are ready, either branch may be taken, so both rules apply.
\<close>

inductive base_step ::
  "('d, 'priv, 'pub) env \<Rightarrow> gotime \<Rightarrow> 'd base_store \<Rightarrow> 'd base_store \<Rightarrow> bool" for E where
  watch_cancelled: "bs_watch s \<Longrightarrow> bs_ctxDone s \<Longrightarrow> base_step E now s (s\<lparr>bs_watch := False\<rparr>)"
| watch_deadline: "bs_watch s \<Longrightarrow> \<not> time_before now (bs_timeLimit s) \<Longrightarrow>
     base_step E now s
       (s\<lparr>bs_dt := fst (ds_sync (lib_ds E) (bs_dt s)), bs_inTime := False, bs_watch := False\<rparr>)"
| sync_cancelled: "bs_syncer s \<Longrightarrow> bs_ctxDone s \<Longrightarrow> base_step E now s (s\<lparr>bs_syncer := False\<rparr>)"
| sync_stop: "bs_syncer s \<Longrightarrow> \<not> bs_inTime s \<Longrightarrow> base_step E now s (s\<lparr>bs_syncer := False\<rparr>)"
| sync_fail: "bs_syncer s \<Longrightarrow> bs_inTime s \<Longrightarrow> ds_sync (lib_ds E) (bs_dt s) = (d, Some err) \<Longrightarrow>
     base_step E now s (s\<lparr>bs_dt := d, bs_syncer := False\<rparr>)"
| sync_tick: "bs_syncer s \<Longrightarrow> bs_inTime s \<Longrightarrow> ds_sync (lib_ds E) (bs_dt s) = (d, None) \<Longrightarrow>
     base_step E now s (s\<lparr>bs_dt := d\<rparr>)"
| put: "base_step E now s (fst (base_Put E key val s))"
| cancel: "base_step E now s (base_Cancel E s)"

inductive_simps base_step_iff: "base_step E now s s'"

text \<open>Runs of a store, with the readings of the clock never going back.\<close>

inductive base_run ::
  "('d, 'priv, 'pub) env \<Rightarrow> gotime \<Rightarrow> 'd base_store \<Rightarrow> gotime \<Rightarrow> 'd base_store \<Rightarrow> bool"
  for E t0 s0 where
  run_start: "base_run E t0 s0 t0 s0"
| run_step: "base_run E t0 s0 t s \<Longrightarrow> instant_of t \<le> instant_of t' \<Longrightarrow> base_step E t' s s' \<Longrightarrow>
     base_run E t0 s0 t' s'"

section \<open>What a step keeps\<close>

lemma base_Put_frame [simp]:
  "bs_inTime (fst (base_Put E key val s)) = bs_inTime s"
  "bs_timeLimit (fst (base_Put E key val s)) = bs_timeLimit s"
  "bs_watch (fst (base_Put E key val s)) = bs_watch s"
  "bs_syncer (fst (base_Put E key val s)) = bs_syncer s"
  "bs_ctxDone (fst (base_Put E key val s)) = bs_ctxDone s"
  "bs_name (fst (base_Put E key val s)) = bs_name s"
  by (auto simp: base_Put_def Let_def split: sum.splits bool.splits prod.splits)

lemma base_Cancel_frame [simp]:
  "bs_inTime (base_Cancel E s) = bs_inTime s" "bs_timeLimit (base_Cancel E s) = bs_timeLimit s"
  "bs_watch (base_Cancel E s) = bs_watch s" "bs_syncer (base_Cancel E s) = bs_syncer s"
  "bs_ctxDone (base_Cancel E s)" "bs_name (base_Cancel E s) = bs_name s"
  by (simp_all add: base_Cancel_def)

lemma step_timeLimit: "base_step E now s s' \<Longrightarrow> bs_timeLimit s' = bs_timeLimit s"
  by (erule base_step.cases) simp_all

lemma step_inTime_down: "base_step E now s s' \<Longrightarrow> bs_inTime s' \<Longrightarrow> bs_inTime s"
  by (erule base_step.cases) simp_all

lemma step_closes:
  "base_step E now s s' \<Longrightarrow> bs_inTime s \<Longrightarrow> \<not> bs_inTime s' \<Longrightarrow>
     bs_watch s \<and> \<not> time_before now (bs_timeLimit s)"
  by (erule base_step.cases) simp_all

lemma step_ctxDone: "base_step E now s s' \<Longrightarrow> bs_ctxDone s \<Longrightarrow> bs_ctxDone s'"
  by (erule base_step.cases) simp_all

lemma step_watch_down: "base_step E now s s' \<Longrightarrow> bs_watch s' \<Longrightarrow> bs_watch s"
  by (erule base_step.cases) simp_all

lemma step_table:
  assumes "base_step E now s s'" and ok: "env_ok E els"
  shows "base_table els s \<subseteq>\<^sub>m base_table els s'"
  using assms(1)
proof cases
  case (put key val)
  with base_store.put_extends [OF ok, of s "(key, val)"] show ?thesis by simp
next
  case (sync_fail d err)
  with ds_okD(7) [OF env_okD(1) [OF ok], of "bs_dt s"] show ?thesis by (simp add: base_table_def)
next
  case (sync_tick d)
  with ds_okD(7) [OF env_okD(1) [OF ok], of "bs_dt s"] show ?thesis by (simp add: base_table_def)
qed (simp_all add: base_table_def base_Cancel_def ds_okD(7,8) [OF env_okD(1) [OF ok]])

section \<open>The time window\<close>

text \<open>
  A store that is out of time has reached its limit: the window never closes early. \<open>expired\<close> is
  the condition under which \<open>setTimeLimit\<close> or the watching goroutine closes it.
\<close>

definition expired :: "gotime \<Rightarrow> 'd base_store \<Rightarrow> bool" where
  "expired now s \<longleftrightarrow> \<not> time_equal (bs_timeLimit s) zero_time \<and> \<not> time_before now (bs_timeLimit s)"

definition window_inv :: "gotime \<Rightarrow> 'd base_store \<Rightarrow> bool" where
  "window_inv now s \<longleftrightarrow>
     (bs_watch s \<longrightarrow> \<not> time_equal (bs_timeLimit s) zero_time) \<and> (\<not> bs_inTime s \<longrightarrow> expired now s)"

lemma time_before_asym: "time_before a b \<Longrightarrow> \<not> time_before b a"
  by (auto simp: time_before_def both_mono_def ac_simps)

lemma window_inv_start:
  assumes "bs_inTime s" "\<not> bs_watch s"
  shows "window_inv now (base_setTimeLimit now s)"
  using assms
  by (auto simp: window_inv_def base_setTimeLimit_def expired_def dest: time_before_asym)

lemma not_before_limit:
  "no_mono lim \<Longrightarrow> instant_of t \<le> instant_of t' \<Longrightarrow> \<not> time_before t lim \<Longrightarrow> \<not> time_before t' lim"
  by (simp add: time_before_instant)

lemma window_inv_step:
  assumes "window_inv t s" "base_step E t' s s'" "instant_of t \<le> instant_of t'"
    and "no_mono (bs_timeLimit s)"
  shows "window_inv t' s'"
proof -
  have lim: "bs_timeLimit s' = bs_timeLimit s" by (rule step_timeLimit [OF assms(2)])
  have w: "bs_watch s' \<longrightarrow> \<not> time_equal (bs_timeLimit s) zero_time"
    using assms(1) step_watch_down [OF assms(2)] by (auto simp: window_inv_def)
  have "expired t' s" if "\<not> bs_inTime s'"
  proof (cases "bs_inTime s")
    case True
    from step_closes [OF assms(2) True that] assms(1) show ?thesis
      by (auto simp: window_inv_def expired_def)
  next
    case False
    with assms(1) have "expired t s" by (simp add: window_inv_def)
    with not_before_limit [OF assms(4,3)] show ?thesis by (simp add: expired_def)
  qed
  with w lim show ?thesis by (simp add: window_inv_def expired_def)
qed

lemma run_timeLimit: "base_run E t0 s0 t s \<Longrightarrow> bs_timeLimit s = bs_timeLimit s0"
  by (induction rule: base_run.induct) (auto dest: step_timeLimit)

lemma run_window_inv:
  assumes "base_run E t0 s0 t s" "window_inv t0 s0" "no_mono (bs_timeLimit s0)"
  shows "window_inv t s"
  using assms(1)
proof (induction rule: base_run.induct)
  case run_start
  show ?case by (rule assms(2))
next
  case (run_step t s t' s')
  with assms(3) run_timeLimit [OF run_step.hyps(1)] show ?case
    by (intro window_inv_step [OF run_step.IH run_step.hyps(3,2)]) simp
qed

lemma run_inTime_down: "base_run E t0 s0 t s \<Longrightarrow> bs_inTime s \<Longrightarrow> bs_inTime s0"
  by (induction rule: base_run.induct) (auto dest: step_inTime_down)

lemma run_table:
  assumes "base_run E t0 s0 t s" "env_ok E els"
  shows "base_table els s0 \<subseteq>\<^sub>m base_table els s"
  using assms(1)
proof (induction rule: base_run.induct)
  case run_start
  show ?case by simp
next
  case (run_step t s t' s')
  from run_step.IH step_table [OF run_step.hyps(3) assms(2)] show ?case by (rule map_le_trans)
qed

text \<open>
  Once the deadline has passed, the watching goroutine can move, and its step closes the window.
\<close>

lemma deadline_enabled:
  assumes "bs_watch s" "\<not> time_before now (bs_timeLimit s)"
  obtains s' where "base_step E now s s'" "\<not> bs_inTime s'" "\<not> bs_watch s'"
  by (rule that [OF base_step.watch_deadline [OF assms]]) simp_all

text \<open>A store with a limit in the future is watched; one whose limit has passed is closed at once.\<close>

lemma setTimeLimit_cases:
  assumes "bs_inTime s"
  shows "base_setTimeLimit now s =
    (if time_equal (bs_timeLimit s) zero_time then s
     else if time_before (bs_timeLimit s) now then s\<lparr>bs_inTime := False\<rparr>
     else s\<lparr>bs_watch := True\<rparr>)"
  using assms by (simp add: base_setTimeLimit_def)

text \<open>The synchronising goroutine never runs again once the window is closed.\<close>

lemma sync_ends: "bs_syncer s \<Longrightarrow> \<not> bs_inTime s \<Longrightarrow> base_step E now s (s\<lparr>bs_syncer := False\<rparr>)"
  by (rule base_step.sync_stop)

lemma step_syncer_down: "base_step E now s s' \<Longrightarrow> bs_syncer s' \<Longrightarrow> bs_syncer s"
  by (erule base_step.cases) simp_all

end
