(* ===== verification/Updatable.thy ===== *)
theory Updatable
  imports Orders Lifecycle
begin

text \<open>
  The updatable store of crdt/updatable.go: a \<open>Put\<close> never overwrites, it adds a record under
  \<open>category/timestamp\<close>, and the readers pick the newest record. The clock is the argument \<open>now\<close>
  (the reading \<open>time.Now()\<close> returns). The lemmas show what a put stores, that \<open>Get\<close> and \<open>Query\<close>
  return the newest records, and that other peers accept what a put wrote.
\<close>

section \<open>The validator\<close>

definition updatable_Validate ::
  "zone \<Rightarrow> gotime \<Rightarrow> (string \<Rightarrow> bytes \<Rightarrow> bool) \<Rightarrow> string \<Rightarrow> bytes \<Rightarrow> bool" where
  "updatable_Validate local now inner key val =
     (if \<not> inner key val then False
      else let keys = key_parts key; tKey = keys ! (length keys - 1)
      in case b64_decode tKey of
        Inl _ \<Rightarrow> False
      | Inr tb \<Rightarrow>
          (case time_unmarshal local tb of
             Inl _ \<Rightarrow> False
           | Inr t \<Rightarrow>
               let isUTC = (loc_name (t_loc t) = loc_name UTC);
                   isBefore = time_before t (to_utc now)
               in isUTC \<and> isBefore))"

definition newUpdatableValidator ::
  "('d, 'priv, 'pub) env \<Rightarrow> gotime \<Rightarrow> 'd base_store \<Rightarrow> string \<Rightarrow> bytes \<Rightarrow> bool" where
  "newUpdatableValidator E now s = updatable_Validate (local_zone E) now (base_Validate s)"

section \<open>The operations\<close>

definition upd_Put ::
  "('d, 'priv, 'pub) env \<Rightarrow> gotime \<Rightarrow> string \<Rightarrow> bytes \<Rightarrow> 'd base_store \<Rightarrow> 'd base_store \<times> goerror option" where
  "upd_Put E now key val s =
     (case time_marshal (to_utc now) of
        Inl err \<Rightarrow> (s, Some err)
      | Inr tb \<Rightarrow> let tKey = b64_encode tb in base_Put E (key @ ''/'' @ tKey) val s)"

definition latest_query :: "('d, 'priv, 'pub) env \<Rightarrow> string \<Rightarrow> query" where
  "latest_query E key = empty_query\<lparr>q_prefix := ''/'' @ key,
     q_orders := [updatableOrder (local_zone E)], q_limit := 1\<rparr>"

definition upd_Get :: "('d, 'priv, 'pub) env \<Rightarrow> 'd base_store \<Rightarrow> string \<Rightarrow> bytes res" where
  "upd_Get E s key =
     (case base_Query E s [latest_query E key] of
        Inl err \<Rightarrow> Inl err
      | Inr rs \<Rightarrow> (case e_value (recv rs) of None \<Rightarrow> Inl err_no_valid_data | Some v \<Rightarrow> Inr v))"

definition upd_GetSize :: "('d, 'priv, 'pub) env \<Rightarrow> 'd base_store \<Rightarrow> string \<Rightarrow> int res" where
  "upd_GetSize E s key =
     (case base_Query E s [(latest_query E key)\<lparr>q_returnsSizes := True\<rparr>] of
        Inl err \<Rightarrow> Inl err
      | Inr rs \<Rightarrow>
          (let r = recv rs
           in case e_value r of None \<Rightarrow> Inl err_no_valid_data | Some _ \<Rightarrow> Inr (e_size r)))"

definition upd_Has :: "('d, 'priv, 'pub) env \<Rightarrow> 'd base_store \<Rightarrow> string \<Rightarrow> bool res" where
  "upd_Has E s key =
     (case base_Query E s [(latest_query E key)\<lparr>q_keysOnly := True\<rparr>] of
        Inl err \<Rightarrow> Inl err
      | Inr rs \<Rightarrow>
          (case results_rest (lib_q E) rs of Inl err \<Rightarrow> Inl err | Inr resList \<Rightarrow> Inr (0 < length resList)))"

definition upd_baseQuery ::
  "('d, 'priv, 'pub) env \<Rightarrow> 'd base_store \<Rightarrow> query list \<Rightarrow> result list res" where
  "upd_baseQuery E s qs =
     (let q = query_arg qs
      in base_Query E s [q\<lparr>q_orders := q_orders q @ [categoryOrder, updatableOrder (local_zone E)]\<rparr>])"

text \<open>The goroutine of \<open>Query\<close>: the first result of each run of equal categories.\<close>

fun latest_only :: "string \<Rightarrow> result list \<Rightarrow> result list" where
  "latest_only cKey [] = []"
| "latest_only cKey (r # rs) =
     (let keys = key_parts (e_key r)
      in if length keys < 2 then latest_only cKey rs
         else let cKey2 = go_join ''/'' (take (length keys - 1) keys)
              in if cKey \<noteq> cKey2 then r # latest_only cKey2 rs else latest_only cKey rs)"

definition upd_Query ::
  "('d, 'priv, 'pub) env \<Rightarrow> 'd base_store \<Rightarrow> query list \<Rightarrow> result list res" where
  "upd_Query E s qs =
     (case upd_baseQuery E s qs of Inl err \<Rightarrow> Inl err | Inr rs \<Rightarrow> Inr (latest_only [] rs))"

definition upd_QueryAll ::
  "('d, 'priv, 'pub) env \<Rightarrow> 'd base_store \<Rightarrow> query list \<Rightarrow> result list res" where
  "upd_QueryAll E s qs =
     (case upd_baseQuery E s qs of
        Inl err \<Rightarrow> Inl err
      | Inr rs \<Rightarrow> Inr (filter (\<lambda>r. \<not> length (key_parts (e_key r)) < 2) rs))"

definition upd_initPut ::
  "('d, 'priv, 'pub) env \<Rightarrow> gotime \<Rightarrow> 'd base_store \<Rightarrow> 'd base_store \<times> goerror option" where
  "upd_initPut E now s = upd_Put E now (bs_name s) (bytes_of_string (bs_name s)) s"

definition upd_loadCheck :: "('d, 'priv, 'pub) env \<Rightarrow> 'd base_store \<Rightarrow> bool" where
  "upd_loadCheck E s = loadCheck_with E (upd_Query E s) s"

section \<open>The validator decides for the store\<close>

lemma updatable_Validate_inner: "updatable_Validate local now inner key val \<Longrightarrow> inner key val"
  by (simp add: updatable_Validate_def split: if_splits)

interpretation updatable_val: validator "newUpdatableValidator E now" base_isInTime for E now
  by unfold_locales (auto simp: newUpdatableValidator_def base_Validate_def dest: updatable_Validate_inner)

lemma updatable_Validate_iff:
  "updatable_Validate local now inner key val \<longleftrightarrow>
     inner key val \<and> (\<exists>t. key_time local key = Inr t \<and> loc_name (t_loc t) = ''UTC''
       \<and> time_before t (to_utc now))"
  by (auto simp: updatable_Validate_def key_time_def Let_def last_nth split: sum.splits)

section \<open>What a put stores\<close>

definition time_key :: "gotime \<Rightarrow> string" where
  "time_key now = b64_encode (time_wire (to_utc now) (-1))"

lemma upd_Put_eq: "upd_Put E now key val s = base_Put E (key @ ''/'' @ time_key now) val s"
  by (simp add: upd_Put_def time_key_def time_marshal_UTC)

lemma time_key_no_slash [simp]: "CHR ''/'' \<notin> set (time_key now)"
  by (simp add: time_key_def)

lemma time_key_clean: "clean_path (time_key now)"
proof -
  have "time_key now \<noteq> []" by (simp add: time_key_def)
  moreover have "time_key now \<noteq> CHR ''.'' # r" for r
    unfolding time_key_def by (rule b64_encode_hd_not_dot)
  ultimately show ?thesis by (simp add: clean_path_component)
qed

lemma stamped_key:
  assumes "key_ok nk" "clean_path key"
  shows "nk (key @ CHR ''/'' # time_key now) = CHR ''/'' # key @ CHR ''/'' # time_key now"
proof -
  have "clean_path (key @ CHR ''/'' # time_key now)"
    using assms(2) time_key_clean by (simp add: clean_path_append)
  from key_okD(1) [OF assms(1) this] show ?thesis by simp
qed

lemma stamped_key_parts:
  "key_parts (CHR ''/'' # key @ CHR ''/'' # time_key now) = go_split (CHR ''/'') key @ [time_key now]"
  by (simp only: key_parts_append) (simp add: go_split_no_sep)

lemma category_of_stamped [simp]: "category_of (CHR ''/'' # key @ CHR ''/'' # time_key now) = key"
  by (simp only: category_of_def stamped_key_parts butlast_snoc go_join_split)

lemma wf_to_utc_roundtrip:
  assumes "wf_time now"
  shows "time_unmarshal local (time_wire (to_utc now) (-1)) = Inr (to_utc now)"
proof -
  from time_roundtrip_UTC [OF wf_time_to_utc [OF assms], of local] show ?thesis
    by (simp add: time_marshal_UTC strip_mono_id)
qed

lemma key_time_stamped:
  assumes "wf_time now"
  shows "key_time local (CHR ''/'' # key @ CHR ''/'' # time_key now) = Inr (to_utc now)"
  unfolding key_time_def stamped_key_parts
  by (simp add: time_key_def wf_to_utc_roundtrip [OF assms])

interpretation upd_store: append_only "env_ok E els" "base_table els" "\<lambda>(now, key, val). upd_Put E now key val"
  for E els
proof unfold_locales
  fix a :: "gotime \<times> string \<times> bytes" and s s' :: "'a base_store"
  assume "env_ok E els" "(case a of (now, key, val) \<Rightarrow> upd_Put E now key val) s = (s', None)"
  then show "\<exists>k v. base_table els s k = None \<and> base_table els s' = (base_table els s)(k \<mapsto> v)"
    by (cases a) (auto simp: upd_Put_eq dest: base_Put_ok(1,2))
next
  fix a :: "gotime \<times> string \<times> bytes" and s s' :: "'a base_store" and e
  assume "env_ok E els" "(case a of (now, key, val) \<Rightarrow> upd_Put E now key val) s = (s', Some e)"
  then show "base_table els s' = base_table els s"
    by (cases a) (auto simp: upd_Put_eq dest: base_Put_err)
qed

text \<open>A record that was put passes the validator of any peer whose clock is later.\<close>

lemma upd_Put_validates:
  assumes "key_ok (newKey (lib_ds E))" "clean_path key" "wf_time now"
    and "instant_of now < instant_of now'" "bs_inTime peer"
  shows "newUpdatableValidator E now' peer (newKey (lib_ds E) (key @ ''/'' @ time_key now)) val"
  using assms key_time_stamped [OF assms(3), of "local_zone E" key]
  by (simp add: newUpdatableValidator_def updatable_Validate_iff base_Validate_def base_isInTime_def
      stamped_key time_before_instant)

section \<open>Get returns the newest version\<close>

lemma latest_query_selects:
  "selects nk (latest_query E key) e \<longleftrightarrow> prefix_selects nk (CHR ''/'' # key) (e_key e)"
  by (simp add: selects_def latest_query_def)

lemma clean_prefix_selects:
  assumes "key_ok nk" "clean_path key"
  shows "prefix_selects nk (CHR ''/'' # key) k \<longleftrightarrow> has_prefix k (CHR ''/'' # key @ ''/'')"
  using key_okD(2) [OF assms] clean_path_nonempty [OF assms(2)] by (simp add: prefix_selects_def)

text \<open>\<open>newest m P k\<close>: no record of \<open>m\<close> whose key satisfies \<open>P\<close> has a later timestamp than \<open>k\<close>.\<close>

definition newest :: "zone \<Rightarrow> (string \<rightharpoonup> bytes) \<Rightarrow> (string \<Rightarrow> bool) \<Rightarrow> string \<Rightarrow> bool" where
  "newest local m P k \<longleftrightarrow> k \<in> dom m \<and> P k \<and>
     (\<forall>k' t'. k' \<in> dom m \<longrightarrow> P k' \<longrightarrow> key_time local k' = Inr t' \<longrightarrow>
        (\<exists>t. key_time local k = Inr t \<and> instant_of t' \<le> instant_of t))"

lemma not_less_time:
  assumes "\<not> entry_less [updatableOrder local] b a" "key_time local (e_key b) = Inr t'"
  shows "\<exists>t. key_time local (e_key a) = Inr t \<and> instant_of t' \<le> instant_of t"
proof -
  from assms(2) have "time_level local (e_key b) = 0" by (simp add: time_level_0)
  from updatable_order.first_has_least_rank [OF assms(1) this]
  have a: "time_level local (e_key a) = 0" "time_rank local (e_key a) \<le> time_rank local (e_key b)" by simp_all
  then obtain t where "key_time local (e_key a) = Inr t" by (auto simp: time_level_0 is_ok_iff)
  with a(2) assms(2) show ?thesis by (auto simp: time_rank_le)
qed

lemma sorted_head_least:
  assumes "sorted_wrt (\<lambda>a b. \<not> lt b a) (e # es)" "weak_order lt" "e' \<in> set (e # es)"
  shows "\<not> lt e' e"
  using assms by (auto dest: weak_order_asym)

text \<open>The first result of a query sorted by time, limited to one.\<close>

lemma latest_answer:
  assumes ans: "answers nk q m rs" and nk: "key_ok nk" and key: "clean_path key"
    and q: "q_prefix q = CHR ''/'' # key" "q_filters q = []" "q_orders q = [updatableOrder local]"
      "q_limit q = 1" "q_offset q = 0"
  shows "if \<exists>k \<in> dom m. has_prefix k (CHR ''/'' # key @ ''/'')
         then \<exists>e. rs = [ok_result e] \<and> exhibits q m e
                \<and> newest local m (\<lambda>k. has_prefix k (CHR ''/'' # key @ ''/'')) (e_key e)
         else rs = []"
proof -
  let ?P = "\<lambda>k. has_prefix k (CHR ''/'' # key @ ''/'')"
  have sel: "selects nk q e \<longleftrightarrow> ?P (e_key e)" for e
    using clean_prefix_selects [OF nk key] q(1,2) by (simp add: selects_def)
  from ans q(4,5) obtain es where full: "full_answer nk q m es" and rs: "rs = map ok_result (window q es)"
    by (auto elim: answersE)
  have cov: "k \<in> e_key ` set es" if "k \<in> dom m" "?P k" for k
    using full_answer_covers [OF full that(1)] that(2) sel by simp
  show ?thesis
  proof (cases es)
    case Nil
    with cov have "\<not> (\<exists>k \<in> dom m. ?P k)" by fastforce
    with rs Nil show ?thesis by (simp add: window_def)
  next
    case (Cons e es')
    have e: "exhibits q m e" "?P (e_key e)"
      using full_answerD [OF full, of e] Cons sel by simp_all
    have "sorted_wrt (\<lambda>a b. \<not> entry_less [updatableOrder local] b a) es"
      using full_answer_sorted [OF full] q(3) time_less_weak [of local] by simp
    then have least: "\<not> entry_less [updatableOrder local] e' e" if "e' \<in> set es" for e'
      using sorted_head_least [OF _ time_less_weak] that unfolding Cons by blast
    have "newest local m ?P (e_key e)"
      unfolding newest_def
    proof (intro conjI allI impI)
      show "e_key e \<in> dom m" by (rule exhibits_dom [OF e(1)])
      fix k' t'
      assume k': "k' \<in> dom m" "?P k'" and t': "key_time local k' = Inr t'"
      from cov [OF k'] obtain e' where "e' \<in> set es" "e_key e' = k'" by blast
      with not_less_time [OF least, of e' t'] t'
      show "\<exists>t. key_time local (e_key e) = Inr t \<and> instant_of t' \<le> instant_of t" by simp
    qed (rule e(2))
    moreover have "rs = [ok_result e]" using rs Cons q(4,5) by (simp add: window_def)
    moreover have "\<exists>k \<in> dom m. ?P k" using exhibits_dom [OF e(1)] e(2) by blast
    ultimately show ?thesis using e(1) by auto
  qed
qed

definition below :: "string \<Rightarrow> string \<Rightarrow> bool" where
  "below key k \<longleftrightarrow> has_prefix k (CHR ''/'' # key @ ''/'')"

lemma below_stamped [simp]: "below key (CHR ''/'' # key @ CHR ''/'' # t)"
  by (simp add: below_def has_prefix_iff)

lemma below_eta: "(\<lambda>k. has_prefix k (CHR ''/'' # key @ ''/'')) = below key"
  by (rule ext) (simp add: below_def)

lemma upd_query_latest:
  assumes E: "env_ok E els" and key: "clean_path key" and run: "base_Query E s [q] = Inr rs"
    and q: "q_prefix q = CHR ''/'' # key" "q_filters q = []"
      "q_orders q = [updatableOrder (local_zone E)]" "q_limit q = 1" "q_offset q = 0"
  shows "if \<exists>k \<in> dom (base_table els s). below key k
         then \<exists>e. rs = [ok_result e] \<and> exhibits q (base_table els s) e
                \<and> newest (local_zone E) (base_table els s) (below key) (e_key e)
         else rs = []"
proof -
  have "answers (newKey (lib_ds E)) q (base_table els s) rs"
    using base_Query_answers [OF E run] by simp
  from latest_answer [OF this ds_okD(1) [OF env_okD(1) [OF E]] key q] show ?thesis
    by (simp only: below_eta below_def)
qed

lemma latest_query_simps [simp]:
  "q_prefix (latest_query E key) = CHR ''/'' # key" "q_filters (latest_query E key) = []"
  "q_orders (latest_query E key) = [updatableOrder (local_zone E)]" "q_limit (latest_query E key) = 1"
  "q_offset (latest_query E key) = 0" "\<not> q_keysOnly (latest_query E key)"
  "\<not> q_returnsSizes (latest_query E key)"
  by (simp_all add: latest_query_def)

lemma recv_simps [simp]: "recv [] = zero_result" "recv (r # rs) = r" "e_value zero_result = None"
  by (simp_all add: recv_def zero_result_def)

lemma upd_Get_newest:
  assumes E: "env_ok E els" and key: "clean_path key" and get: "upd_Get E s key = Inr v"
  obtains k where "base_table els s k = Some v"
    "newest (local_zone E) (base_table els s) (below key) k"
proof -
  from get obtain rs where rs: "base_Query E s [latest_query E key] = Inr rs"
    and v: "e_value (recv rs) = Some v"
    by (auto simp: upd_Get_def split: sum.splits option.splits)
  note ans = upd_query_latest [OF E key rs latest_query_simps(1-5)]
  have "rs \<noteq> []" using v by auto
  with ans obtain e where e: "rs = [ok_result e]" "exhibits (latest_query E key) (base_table els s) e"
    "newest (local_zone E) (base_table els s) (below key) (e_key e)"
    by (metis (no_types, lifting))
  with v exhibits_value [OF e(2)] have "base_table els s (e_key e) = Some v" by simp
  from that [OF this e(3)] show thesis .
qed

text \<open>\<open>Get\<close> fails only when nothing is stored below the key, or what is newest there is empty.\<close>

lemma upd_Get_live:
  assumes E: "env_ok E els" "ds_live (lib_ds E) els" and key: "clean_path key"
    and k: "k \<in> dom (base_table els s)" "below key k"
  obtains k' v where "newest (local_zone E) (base_table els s) (below key) k'"
    "base_table els s k' = Some v" "v \<noteq> [] \<Longrightarrow> upd_Get E s key = Inr v"
proof -
  from ds_liveD(4) [OF E(2)] obtain rs where rs: "base_Query E s [latest_query E key] = Inr rs"
    by (auto simp: base_Query_def is_ok_iff)
  from upd_query_latest [OF E(1) key rs latest_query_simps(1-5)] k obtain e where
    e: "rs = [ok_result e]" "exhibits (latest_query E key) (base_table els s) e"
      "newest (local_zone E) (base_table els s) (below key) (e_key e)"
    by (metis (no_types, lifting))
  have t: "base_table els s (e_key e) = Some (contents (e_value e))"
    by (rule exhibits_value [OF e(2)]) simp
  have "upd_Get E s key = Inr (contents (e_value e))" if "contents (e_value e) \<noteq> []"
  proof (cases "e_value e")
    case None
    with that show ?thesis by simp
  next
    case (Some v)
    then show ?thesis using rs e(1) by (simp add: upd_Get_def)
  qed
  with e(3) t show thesis by (rule that)
qed

text \<open>The version of a stored timestamp that no other version below the key reaches is read.\<close>

lemma upd_Get_stored:
  assumes E: "env_ok E els" "ds_live (lib_ds E) els" and key: "clean_path key" and t: "wf_time t"
    and tab: "base_table els s (CHR ''/'' # key @ CHR ''/'' # time_key t) = Some val" and val: "val \<noteq> []"
    and older: "\<And>k u. k \<in> dom (base_table els s) \<Longrightarrow> below key k \<Longrightarrow>
      k \<noteq> CHR ''/'' # key @ CHR ''/'' # time_key t \<Longrightarrow> key_time (local_zone E) k = Inr u \<Longrightarrow>
      instant_of u < instant_of t"
  shows "upd_Get E s key = Inr val"
proof -
  let ?k = "CHR ''/'' # key @ CHR ''/'' # time_key t"
  from tab have k: "?k \<in> dom (base_table els s)" by (rule domI)
  from upd_Get_live [OF E key k below_stamped] obtain k' v where
    k': "newest (local_zone E) (base_table els s) (below key) k'"
    and v: "base_table els s k' = Some v" "v \<noteq> [] \<Longrightarrow> upd_Get E s key = Inr v"
    by metis
  have "k' = ?k"
  proof (rule ccontr)
    assume ne: "k' \<noteq> ?k"
    from k' k key_time_stamped [OF t, of "local_zone E" key] obtain u where
      u: "key_time (local_zone E) k' = Inr u" "instant_of (to_utc t) \<le> instant_of u"
      unfolding newest_def using below_stamped by blast
    moreover have "instant_of u < instant_of t"
      using k' by (intro older [OF _ _ ne u(1)]) (simp_all add: newest_def)
    ultimately show False by simp
  qed
  with v tab val show ?thesis by simp
qed

text \<open>
  Last writer wins: after a put, \<open>Get\<close> returns the value, provided every other version below the
  key has an earlier timestamp.
\<close>

lemma upd_Put_Get:
  assumes E: "env_ok E els" "ds_live (lib_ds E) els" and key: "clean_path key" and now: "wf_time now"
    and put: "upd_Put E now key val s = (s', None)" and val: "val \<noteq> []"
    and older: "\<And>k t. k \<in> dom (base_table els s) \<Longrightarrow> below key k \<Longrightarrow>
      key_time (local_zone E) k = Inr t \<Longrightarrow> instant_of t < instant_of now"
  shows "upd_Get E s' key = Inr val"
proof (rule upd_Get_stored [OF E key now _ val])
  let ?k = "CHR ''/'' # key @ CHR ''/'' # time_key now"
  have nk: "newKey (lib_ds E) (key @ ''/'' @ time_key now) = ?k"
    using stamped_key [OF ds_okD(1) [OF env_okD(1) [OF E(1)]] key, of now] by simp
  have tab: "base_table els s' = (base_table els s)(?k \<mapsto> val)"
    using base_Put_ok(2) [OF E(1) put [unfolded upd_Put_eq]] unfolding nk .
  then show "base_table els s' ?k = Some val" by simp
  show "instant_of u < instant_of now" if "k \<in> dom (base_table els s')" "below key k" "k \<noteq> ?k"
    "key_time (local_zone E) k = Inr u" for k u
    using that older tab by simp
qed

text \<open>Two puts of one key at the same reading of the clock: the second one fails.\<close>

lemma upd_Put_same_time:
  assumes E: "env_ok E els" and put: "upd_Put E now key val s = (s', None)"
  shows "upd_Put E now key val' s' = (s', Some ErrAlreadyExist)"
proof -
  have "base_table els s' (newKey (lib_ds E) (key @ ''/'' @ time_key now)) \<noteq> None"
    unfolding base_Put_ok(2) [OF E put [unfolded upd_Put_eq]] by simp
  then show ?thesis
    unfolding upd_Put_eq base_Put_cases [OF E] by simp
qed

section \<open>Query returns the newest version of every category\<close>

abbreviation rkey_less :: "zone \<Rightarrow> result \<Rightarrow> result \<Rightarrow> bool" where
  "rkey_less local a b \<equiv> entry_less [categoryOrder, updatableOrder local] (entry_of a) (entry_of b)"

lemma rkey_less_category:
  "\<not> rkey_less local b a \<Longrightarrow> has_category (e_key a) \<Longrightarrow> has_category (e_key b) \<Longrightarrow>
     category_of (e_key a) \<le> category_of (e_key b)"
  unfolding category_order.less_iff by auto

lemma rkey_less_time:
  "\<not> rkey_less local b a \<Longrightarrow> has_category (e_key a) \<Longrightarrow> has_category (e_key b) \<Longrightarrow>
     category_of (e_key a) = category_of (e_key b) \<Longrightarrow>
     \<not> entry_less [updatableOrder local] (entry_of b) (entry_of a)"
  unfolding category_order.less_iff by auto

lemma latest_only_Cons:
  "latest_only c (r # rs) =
     (if \<not> has_category (e_key r) then latest_only c rs
      else if c \<noteq> category_of (e_key r) then r # latest_only (category_of (e_key r)) rs
      else latest_only c rs)"
  by (simp add: has_category_def category_of_def Let_def butlast_conv_take not_le)

declare latest_only.simps(2) [simp del]

text \<open>
  On a list sorted by category and time, the goroutine delivers one result per category, in
  increasing order, each the newest of its category.
\<close>

lemma latest_only_sorted:
  assumes "sorted_wrt (\<lambda>a b. \<not> rkey_less local b a) rs"
    and "\<And>r. r \<in> set rs \<Longrightarrow> has_category (e_key r) \<Longrightarrow> c \<le> category_of (e_key r)"
  shows "sorted_wrt (\<lambda>a b. category_of (e_key a) < category_of (e_key b)) (latest_only c rs)
    \<and> (\<forall>r \<in> set (latest_only c rs). r \<in> set rs \<and> has_category (e_key r) \<and> c < category_of (e_key r))
    \<and> (\<forall>r \<in> set rs. has_category (e_key r) \<longrightarrow> category_of (e_key r) \<noteq> c \<longrightarrow>
         (\<exists>r' \<in> set (latest_only c rs). category_of (e_key r') = category_of (e_key r)
            \<and> \<not> rkey_less local r r'))"
  using assms
proof (induction rs arbitrary: c)
  case Nil
  then show ?case by simp
next
  case (Cons r rs)
  have sorted: "sorted_wrt (\<lambda>a b. \<not> rkey_less local b a) rs"
    and head: "\<And>r'. r' \<in> set rs \<Longrightarrow> \<not> rkey_less local r' r"
    using Cons.prems(1) by simp_all
  have low: "\<And>r'. r' \<in> set rs \<Longrightarrow> has_category (e_key r') \<Longrightarrow> c \<le> category_of (e_key r')"
    using Cons.prems(2) by simp
  show ?case
  proof (cases "has_category (e_key r) \<and> c \<noteq> category_of (e_key r)")
    case False
    with Cons.IH [OF sorted low] show ?thesis by (auto simp: latest_only_Cons)
  next
    case True
    let ?c = "category_of (e_key r)"
    have above: "\<And>r'. r' \<in> set rs \<Longrightarrow> has_category (e_key r') \<Longrightarrow> ?c \<le> category_of (e_key r')"
      using rkey_less_category [OF head] True by simp
    have c: "c < ?c" using Cons.prems(2) [of r] True by (simp add: order_less_le)
    have irrefl: "\<not> rkey_less local r r"
      using weak_order_asym [OF category_time_less_weak] by blast
    from Cons.IH [OF sorted above] True c head irrefl show ?thesis
      by (auto simp: latest_only_Cons intro: order_less_trans)
  qed
qed

text \<open>Queries without prefix and window whose filters look at the key only.\<close>

definition key_query :: "query \<Rightarrow> bool" where
  "key_query q \<longleftrightarrow> q_prefix q = [] \<and> q_limit q = 0 \<and> q_offset q = 0 \<and> \<not> q_keysOnly q \<and> q_orders q = []
     \<and> (\<forall>f \<in> set (q_filters q). \<forall>e e'. e_key e = e_key e' \<longrightarrow> f e = f e')"

definition key_passes :: "query \<Rightarrow> string \<Rightarrow> bool" where
  "key_passes q k \<longleftrightarrow> (\<forall>f \<in> set (q_filters q). f \<lparr>e_key = k, e_value = None, e_size = 0\<rparr>)"

lemma key_query_passes:
  assumes "key_query q"
  shows "(\<forall>f \<in> set (q_filters q). f e) \<longleftrightarrow> key_passes q (e_key e)"
proof -
  have "f e = f \<lparr>e_key = e_key e, e_value = None, e_size = 0\<rparr>" if "f \<in> set (q_filters q)" for f
    using assms that unfolding key_query_def by (elim conjE) simp
  then show ?thesis unfolding key_passes_def by (rule ball_cong [OF refl])
qed

lemma key_query_empty [simp]: "key_query empty_query" "key_passes empty_query k"
  by (simp_all add: key_query_def key_passes_def)

lemma key_query_exist [simp]:
  "key_query (empty_query\<lparr>q_filters := [KeyExistFilter key]\<rparr>)"
  "key_passes (empty_query\<lparr>q_filters := [KeyExistFilter key]\<rparr>) k \<longleftrightarrow> key \<in> set (key_parts k)"
  by (simp_all add: key_query_def key_passes_def KeyExistFilter_iff)

text \<open>
  The same with a prefix, a limit or keys only. An offset, orders of the caller and filters that read
  the value are left out: with them the first record delivered of a category need not be its newest.
\<close>

definition window_query :: "query \<Rightarrow> bool" where
  "window_query q \<longleftrightarrow> 0 \<le> q_limit q \<and> q_offset q = 0 \<and> q_orders q = []
     \<and> (\<forall>f \<in> set (q_filters q). \<forall>e e'. e_key e = e_key e' \<longrightarrow> f e = f e')"

definition query_passes :: "(string \<Rightarrow> string) \<Rightarrow> query \<Rightarrow> string \<Rightarrow> bool" where
  "query_passes nk q k \<longleftrightarrow> prefix_selects nk (q_prefix q) k \<and> key_passes q k"

lemma window_query_passes:
  assumes "window_query q"
  shows "(\<forall>f \<in> set (q_filters q). f e) \<longleftrightarrow> key_passes q (e_key e)"
proof -
  have "f e = f \<lparr>e_key = e_key e, e_value = None, e_size = 0\<rparr>" if "f \<in> set (q_filters q)" for f
    using assms that unfolding window_query_def by (elim conjE) simp
  then show ?thesis unfolding key_passes_def by (rule ball_cong [OF refl])
qed

lemma key_query_window:
  assumes "key_query q"
  shows "window_query q" "query_passes nk q = key_passes q" "q_limit q = 0" "\<not> q_keysOnly q"
  using assms by (simp_all add: key_query_def window_query_def query_passes_def prefix_selects_def fun_eq_iff)

lemma upd_window_answer:
  assumes E: "env_ok E els" and q: "window_query q" and run: "upd_baseQuery E s [q] = Inr rs"
  obtains rs0 where "rs = (if q_limit q = 0 then rs0 else take (nat (q_limit q)) rs0)"
    and "sorted_wrt (\<lambda>a b. \<not> rkey_less (local_zone E) b a) rs0"
    and "\<forall>r \<in> set rs0. (\<exists>v. base_table els s (e_key r) = Some v \<and> (q_keysOnly q \<or> contents (e_value r) = v))
      \<and> query_passes (newKey (lib_ds E)) q (e_key r) \<and> r_error r = None"
    and "\<forall>k \<in> dom (base_table els s). query_passes (newKey (lib_ds E)) q k \<longrightarrow> k \<in> e_key ` set rs0"
    and "distinct (map e_key rs0)"
proof -
  let ?q = "q\<lparr>q_orders := q_orders q @ [categoryOrder, updatableOrder (local_zone E)]\<rparr>"
  have qs: "0 \<le> q_limit q" "q_offset q = 0" "q_orders q = []"
    using q unfolding window_query_def by simp_all
  have "answers (newKey (lib_ds E)) ?q (base_table els s) rs"
    using base_Query_answers [OF E, of s "[?q]" rs] run by (simp add: upd_baseQuery_def)
  then obtain es where full: "full_answer (newKey (lib_ds E)) ?q (base_table els s) es"
    and rs: "rs = map ok_result (window ?q es)"
    using qs by (auto elim: answersE)
  have sel: "selects (newKey (lib_ds E)) ?q e \<longleftrightarrow> query_passes (newKey (lib_ds E)) q (e_key e)" for e
    using window_query_passes [OF q, of e] by (simp add: selects_def query_passes_def)
  have mem: "\<exists>e \<in> set es. r = ok_result e" if "r \<in> set (map ok_result es)" for r
    using that unfolding set_map by (rule imageE) (rule bexI)
  show thesis
  proof (rule that)
    show "rs = (if q_limit q = 0 then map ok_result es else take (nat (q_limit q)) (map ok_result es))"
      unfolding rs by (simp add: window_def qs take_map)
    have "sorted_wrt (\<lambda>a b. \<not> entry_less [categoryOrder, updatableOrder (local_zone E)] b a) es"
      using full_answer_sorted [OF full] category_time_less_weak [of "local_zone E"] qs by simp
    then show "sorted_wrt (\<lambda>a b. \<not> rkey_less (local_zone E) b a) (map ok_result es)"
      unfolding sorted_wrt_map ok_result_simps .
    show "\<forall>r \<in> set (map ok_result es). (\<exists>v. base_table els s (e_key r) = Some v \<and> (q_keysOnly q \<or> contents (e_value r) = v))
      \<and> query_passes (newKey (lib_ds E)) q (e_key r) \<and> r_error r = None"
    proof
      fix r assume "r \<in> set (map ok_result es)"
      then obtain e where e: "e \<in> set es" "r = ok_result e" using mem by blast
      from full_answerD(1) [OF full e(1)] have "\<exists>v. base_table els s (e_key r) = Some v \<and> (q_keysOnly q \<or> contents (e_value r) = v)"
        by (auto simp: exhibits_def e(2) split: if_splits)
      with full_answerD(2) [OF full e(1)] sel e(2)
      show "(\<exists>v. base_table els s (e_key r) = Some v \<and> (q_keysOnly q \<or> contents (e_value r) = v))
        \<and> query_passes (newKey (lib_ds E)) q (e_key r) \<and> r_error r = None" by simp
    qed
    show "\<forall>k \<in> dom (base_table els s). query_passes (newKey (lib_ds E)) q k \<longrightarrow> k \<in> e_key ` set (map ok_result es)"
    proof (intro ballI impI)
      fix k assume k: "k \<in> dom (base_table els s)" "query_passes (newKey (lib_ds E)) q k"
      have "k \<in> e_key ` set es"
        by (rule full_answer_covers [OF full k(1)]) (simp add: sel k(2))
      then show "k \<in> e_key ` set (map ok_result es)" by (simp add: image_image)
    qed
    have "distinct (map e_key es)" using full unfolding full_answer_def by (elim conjE)
    then show "distinct (map e_key (map ok_result es))" by (simp add: comp_def)
  qed
qed

lemma upd_keyQuery_answer:
  assumes E: "env_ok E els" and q: "key_query q" and run: "upd_baseQuery E s [q] = Inr rs"
  shows "sorted_wrt (\<lambda>a b. \<not> rkey_less (local_zone E) b a) rs"
    and "\<And>r. r \<in> set rs \<Longrightarrow> base_table els s (e_key r) = Some (contents (e_value r))"
    and "\<And>r. r \<in> set rs \<Longrightarrow> key_passes q (e_key r)"
    and "\<And>r. r \<in> set rs \<Longrightarrow> r_error r = None"
    and "\<And>k. k \<in> dom (base_table els s) \<Longrightarrow> key_passes q k \<Longrightarrow> k \<in> e_key ` set rs"
    and "distinct (map e_key rs)"
proof -
  note w = key_query_window [OF q]
  obtain rs0 where rs: "rs = (if q_limit q = 0 then rs0 else take (nat (q_limit q)) rs0)"
    and ans: "sorted_wrt (\<lambda>a b. \<not> rkey_less (local_zone E) b a) rs0"
      "\<forall>r \<in> set rs0. (\<exists>v. base_table els s (e_key r) = Some v \<and> (q_keysOnly q \<or> contents (e_value r) = v))
        \<and> query_passes (newKey (lib_ds E)) q (e_key r) \<and> r_error r = None"
      "\<forall>k \<in> dom (base_table els s). query_passes (newKey (lib_ds E)) q k \<longrightarrow> k \<in> e_key ` set rs0"
      "distinct (map e_key rs0)"
    by (rule upd_window_answer [OF E w(1) run])
  have eq: "rs = rs0" using rs w(3) by simp
  show "sorted_wrt (\<lambda>a b. \<not> rkey_less (local_zone E) b a) rs" "distinct (map e_key rs)"
    unfolding eq by (rule ans(1), rule ans(4))
  show "r \<in> set rs \<Longrightarrow> base_table els s (e_key r) = Some (contents (e_value r))"
    "r \<in> set rs \<Longrightarrow> key_passes q (e_key r)" "r \<in> set rs \<Longrightarrow> r_error r = None" for r
    using ans(2) w(2,4) unfolding eq by auto
  show "k \<in> dom (base_table els s) \<Longrightarrow> key_passes q k \<Longrightarrow> k \<in> e_key ` set rs" for k
    using ans(3) w(2) unfolding eq by auto
qed

lemma upd_baseQuery_empty: "upd_baseQuery E s [] = upd_baseQuery E s [empty_query]"
  by (simp add: upd_baseQuery_def)

lemma upd_Query_empty: "upd_Query E s [] = upd_Query E s [empty_query]"
  by (simp add: upd_Query_def upd_baseQuery_empty)

text \<open>The goroutine delivers of a shorter list the first of the results.\<close>

lemma latest_only_take: "\<exists>m. latest_only c (take n rs) = take m (latest_only c rs)"
proof (induction rs arbitrary: c n)
  case Nil
  show ?case by (simp add: exI [of _ 0])
next
  case (Cons r rs)
  show ?case
  proof (cases n)
    case 0
    then show ?thesis by (intro exI [of _ 0]) simp
  next
    case (Suc n')
    from Cons.IH [of "category_of (e_key r)" n'] obtain m where
      m: "latest_only (category_of (e_key r)) (take n' rs) = take m (latest_only (category_of (e_key r)) rs)" by blast
    then have "r # latest_only (category_of (e_key r)) (take n' rs) =
        take (Suc m) (r # latest_only (category_of (e_key r)) rs)" by simp
    then have "\<exists>m. r # latest_only (category_of (e_key r)) (take n' rs) =
        take m (r # latest_only (category_of (e_key r)) rs)" ..
    with Cons.IH [of c n'] Suc show ?thesis
      by (cases "c = category_of (e_key r)") (simp_all add: latest_only_Cons)
  qed
qed

lemma latest_only_length: "length (latest_only c rs) \<le> length rs"
  by (induction rs arbitrary: c) (auto simp: latest_only_Cons intro: le_SucI)

text \<open>What a query delivers, with or without a limit; without one no category is missed.\<close>

lemma upd_Query_window:
  assumes E: "env_ok E els" and q: "window_query q" and run: "upd_Query E s [q] = Inr out"
  shows "distinct (map (\<lambda>r. category_of (e_key r)) out)"
    and "\<And>r. r \<in> set out \<Longrightarrow> (\<exists>v. base_table els s (e_key r) = Some v \<and> (q_keysOnly q \<or> contents (e_value r) = v))
      \<and> newest (local_zone E) (base_table els s)
          (\<lambda>k. query_passes (newKey (lib_ds E)) q k \<and> has_category k \<and> category_of k = category_of (e_key r)) (e_key r)"
    and "\<And>k. q_limit q = 0 \<Longrightarrow> k \<in> dom (base_table els s) \<Longrightarrow> query_passes (newKey (lib_ds E)) q k \<Longrightarrow>
      has_category k \<Longrightarrow> category_of k \<noteq> [] \<Longrightarrow> \<exists>r \<in> set out. category_of (e_key r) = category_of k"
    and "\<And>r. r \<in> set out \<Longrightarrow> r_error r = None"
    and "q_limit q \<noteq> 0 \<Longrightarrow> int (length out) \<le> q_limit q"
proof -
  let ?P = "query_passes (newKey (lib_ds E)) q"
  from run obtain rs where base: "upd_baseQuery E s [q] = Inr rs" and out: "out = latest_only [] rs"
    by (auto simp: upd_Query_def split: sum.splits)
  obtain rs0 where rs: "rs = (if q_limit q = 0 then rs0 else take (nat (q_limit q)) rs0)"
    and ans: "sorted_wrt (\<lambda>a b. \<not> rkey_less (local_zone E) b a) rs0"
      "\<forall>r \<in> set rs0. (\<exists>v. base_table els s (e_key r) = Some v \<and> (q_keysOnly q \<or> contents (e_value r) = v))
        \<and> ?P (e_key r) \<and> r_error r = None"
      "\<forall>k \<in> dom (base_table els s). ?P k \<longrightarrow> k \<in> e_key ` set rs0" "distinct (map e_key rs0)"
    by (rule upd_window_answer [OF E q base])
  let ?out0 = "latest_only [] rs0"
  obtain m where m: "out = take m ?out0"
  proof (cases "q_limit q = 0")
    case True
    then show ?thesis using that [of "length ?out0"] by (simp add: out rs)
  next
    case False
    with latest_only_take [of "[]" "nat (q_limit q)" rs0] that show ?thesis by (auto simp: out rs)
  qed
  have spec: "sorted_wrt (\<lambda>a b. category_of (e_key a) < category_of (e_key b)) ?out0
    \<and> (\<forall>r \<in> set ?out0. r \<in> set rs0 \<and> has_category (e_key r) \<and> [] < category_of (e_key r))
    \<and> (\<forall>r \<in> set rs0. has_category (e_key r) \<longrightarrow> category_of (e_key r) \<noteq> [] \<longrightarrow>
         (\<exists>r' \<in> set ?out0. category_of (e_key r') = category_of (e_key r)
            \<and> \<not> rkey_less (local_zone E) r r'))"
    by (rule latest_only_sorted [OF ans(1)]) simp
  then have "sorted_wrt (<) (map (\<lambda>r. category_of (e_key r)) ?out0)"
    by (simp add: sorted_wrt_map)
  then have dist: "distinct (map (\<lambda>r. category_of (e_key r)) ?out0)"
    by (simp add: strict_sorted_iff)
  then show "distinct (map (\<lambda>r. category_of (e_key r)) out)"
    unfolding m take_map [symmetric] by (rule distinct_take)
  have sub: "set out \<subseteq> set ?out0" unfolding m by (rule set_take_subset)
  show "r_error r = None" if "r \<in> set out" for r
    using spec that sub ans(2) by blast
  show "\<exists>r \<in> set out. category_of (e_key r) = category_of k"
    if lim: "q_limit q = 0" and k: "k \<in> dom (base_table els s)" "?P k" "has_category k" "category_of k \<noteq> []" for k
  proof -
    from ans(3) k(1,2) obtain r where r: "r \<in> set rs0" "k = e_key r" by auto
    with spec k(3,4) have "\<exists>r' \<in> set ?out0. category_of (e_key r') = category_of k" by blast
    with lim show ?thesis by (simp add: out rs)
  qed
  show "int (length out) \<le> q_limit q" if "q_limit q \<noteq> 0"
  proof -
    have "length out \<le> nat (q_limit q)"
      using latest_only_length [of "[]" rs] that by (simp add: out rs)
    moreover have "0 \<le> q_limit q" using q by (simp add: window_query_def)
    ultimately show ?thesis by simp
  qed
  show "(\<exists>v. base_table els s (e_key r) = Some v \<and> (q_keysOnly q \<or> contents (e_value r) = v))
      \<and> newest (local_zone E) (base_table els s)
          (\<lambda>k. ?P k \<and> has_category k \<and> category_of k = category_of (e_key r)) (e_key r)"
    if "r \<in> set out" for r
  proof -
    from that sub have r: "r \<in> set ?out0" by blast
    with spec have in_rs: "r \<in> set rs0" and cat: "has_category (e_key r)" "category_of (e_key r) \<noteq> []"
      by auto
    have "\<exists>t. key_time (local_zone E) (e_key r) = Inr t \<and> instant_of t' \<le> instant_of t"
      if k': "k' \<in> dom (base_table els s)" "?P k' \<and> has_category k' \<and> category_of k' = category_of (e_key r)"
        and t': "key_time (local_zone E) k' = Inr t'" for k' t'
    proof -
      from ans(3) k' obtain r1 where r1: "r1 \<in> set rs0" "k' = e_key r1" by auto
      with spec k' cat obtain r' where r': "r' \<in> set ?out0" "category_of (e_key r') = category_of (e_key r)"
        "\<not> rkey_less (local_zone E) r1 r'" by metis
      with dist r have "r' = r" by (simp add: distinct_map inj_on_def)
      with r'(3) k'(2) r1(2) cat(1) have "\<not> entry_less [updatableOrder (local_zone E)] (entry_of r1) (entry_of r)"
        by (intro rkey_less_time) simp_all
      from not_less_time [OF this, of t'] t' r1(2) show ?thesis by simp
    qed
    with bspec [OF ans(2) in_rs] cat(1) show ?thesis by (auto simp: newest_def)
  qed
qed

lemma upd_Query_newest:
  assumes E: "env_ok E els" and q: "key_query q" and run: "upd_Query E s [q] = Inr out"
  shows "distinct (map (\<lambda>r. category_of (e_key r)) out)"
    and "\<And>r. r \<in> set out \<Longrightarrow> base_table els s (e_key r) = Some (contents (e_value r))
      \<and> newest (local_zone E) (base_table els s)
          (\<lambda>k. key_passes q k \<and> has_category k \<and> category_of k = category_of (e_key r)) (e_key r)"
    and "\<And>k. k \<in> dom (base_table els s) \<Longrightarrow> key_passes q k \<Longrightarrow> has_category k \<Longrightarrow> category_of k \<noteq> [] \<Longrightarrow>
      \<exists>r \<in> set out. category_of (e_key r) = category_of k"
    and "\<And>r. r \<in> set out \<Longrightarrow> r_error r = None"
proof -
  note w = key_query_window [OF q]
  note res = upd_Query_window [OF E w(1) run, unfolded w(2)]
  show "distinct (map (\<lambda>r. category_of (e_key r)) out)" by (rule res(1))
  show "base_table els s (e_key r) = Some (contents (e_value r))
      \<and> newest (local_zone E) (base_table els s)
          (\<lambda>k. key_passes q k \<and> has_category k \<and> category_of k = category_of (e_key r)) (e_key r)"
    if "r \<in> set out" for r
    using res(2) [OF that] w(4) by auto
  show "\<exists>r \<in> set out. category_of (e_key r) = category_of k"
    if "k \<in> dom (base_table els s)" "key_passes q k" "has_category k" "category_of k \<noteq> []" for k
    using res(3) [OF w(3)] that by simp
  show "r_error r = None" if "r \<in> set out" for r using res(4) [OF that] .
qed

lemma upd_Query_latest:
  assumes E: "env_ok E els" and run: "upd_Query E s [] = Inr out"
  shows "distinct (map (\<lambda>r. category_of (e_key r)) out)"
    and "\<And>r. r \<in> set out \<Longrightarrow> base_table els s (e_key r) = Some (contents (e_value r))
      \<and> newest (local_zone E) (base_table els s)
          (\<lambda>k. has_category k \<and> category_of k = category_of (e_key r)) (e_key r)"
    and "\<And>k. k \<in> dom (base_table els s) \<Longrightarrow> has_category k \<Longrightarrow> category_of k \<noteq> [] \<Longrightarrow>
      \<exists>r \<in> set out. category_of (e_key r) = category_of k"
  using upd_Query_newest [OF E _ run [unfolded upd_Query_empty]] by simp_all

text \<open>\<open>QueryAll\<close> delivers every version, grouped by category, newest first.\<close>

lemma upd_QueryAll_all:
  assumes E: "env_ok E els" and run: "upd_QueryAll E s [] = Inr out"
  shows "e_key ` set out = {k \<in> dom (base_table els s). has_category k}"
    and "sorted_wrt (\<lambda>a b. \<not> rkey_less (local_zone E) b a) out"
    and "distinct (map e_key out)"
proof -
  from run obtain rs where base: "upd_baseQuery E s [empty_query] = Inr rs"
    and out: "out = filter (\<lambda>r. has_category (e_key r)) rs"
    by (auto simp: upd_QueryAll_def upd_baseQuery_empty has_category_def not_less split: sum.splits)
  note ans = upd_keyQuery_answer [OF E key_query_empty(1) base]
  show "e_key ` set out = {k \<in> dom (base_table els s). has_category k}"
  proof (intro set_eqI iffI)
    fix k assume "k \<in> e_key ` set out"
    then show "k \<in> {k \<in> dom (base_table els s). has_category k}"
      using ans(2) unfolding out by (elim imageE) (simp add: domIff)
  next
    fix k assume "k \<in> {k \<in> dom (base_table els s). has_category k}"
    then show "k \<in> e_key ` set out"
      using ans(5) [of k] unfolding out by (auto intro: image_eqI)
  qed
  show "sorted_wrt (\<lambda>a b. \<not> rkey_less (local_zone E) b a) out"
    unfolding out by (rule sorted_wrt_filter [OF ans(1)])
  show "distinct (map e_key out)"
    unfolding out by (rule distinct_map_filter [OF ans(6)])
qed

end
