(* ===== verification/Signature.thy ===== *)
theory Signature
  imports BaseStore
begin

text \<open>
  The signature store of crdt/signature.go: a record is written under \<open>pid/key\<close>, where \<open>pid\<close> is
  the printed ID of the writer's public key, and its value is a \<open>SignatureData\<close> with the writer's
  signature. The validator of every other peer checks the signature against the key in the record's
  own key. \<open>StoreOpts\<close> and the key-pair options, which the other stores share, are here too.
\<close>

section \<open>Options\<close>

record ('priv, 'pub) store_opts =
  so_Salt :: slice
  so_Priv :: "'priv option"
  so_Pub :: "'pub option"
  so_TimeLimit :: gotime

definition empty_opts :: "('priv, 'pub) store_opts" where
  "empty_opts = \<lparr>so_Salt = None, so_Priv = None, so_Pub = None, so_TimeLimit = zero_time\<rparr>"

text \<open>\<open>priv, pub, _ := generateKeyPair()\<close>: both are nil when it fails.\<close>

definition gen_pair :: "('d, 'priv, 'pub) env \<Rightarrow> bytes \<Rightarrow> 'priv option \<times> 'pub option" where
  "gen_pair E rnd =
     (case generateKeyPair (crypto E) rnd of Inl _ \<Rightarrow> (None, None) | Inr (priv, pub) \<Rightarrow> (Some priv, Some pub))"

text \<open>The caller's options are filled in through the pointer, so they are returned too.\<close>

definition getSignatureOpts ::
  "('d, 'priv, 'pub) env \<Rightarrow> bytes \<Rightarrow> ('priv, 'pub) store_opts list \<Rightarrow>
    ('priv option \<times> 'pub option \<times> gotime) \<times> ('priv, 'pub) store_opts list" where
  "getSignatureOpts E rnd opts =
     (case opts of
        [] \<Rightarrow> let (priv, pub) = gen_pair E rnd in ((priv, pub, zero_time), [])
      | o0 # os \<Rightarrow>
          let o0 = (if so_Pub o0 = None
                    then let (priv, pub) = gen_pair E rnd in o0\<lparr>so_Priv := priv, so_Pub := pub\<rparr>
                    else o0)
          in ((so_Priv o0, so_Pub o0, so_TimeLimit o0), o0 # os))"

section \<open>The validator\<close>

definition signature_Validate ::
  "('d, 'priv, 'pub) env \<Rightarrow> (string \<Rightarrow> bytes \<Rightarrow> bool) \<Rightarrow> string \<Rightarrow> bytes \<Rightarrow> bool" where
  "signature_Validate E inner key val =
     (if \<not> inner key val then False
      else let keys = key_parts key in
      case StrToPubKey (lib_id E) (crypto E) (keys ! 0) of
        Inl _ \<Rightarrow> False
      | Inr vk \<Rightarrow>
          (case c_unmarshal (pb_sig (lib_pb E)) val of
             Inl _ \<Rightarrow> False
           | Inr sd \<Rightarrow>
               (case k_verify (key_ops E) vk (contents (sd_value sd)) (contents (sd_sign sd)) of
                  Inl _ \<Rightarrow> False
                | Inr ok \<Rightarrow> ok)))"

definition newSignatureValidator ::
  "('d, 'priv, 'pub) env \<Rightarrow> 'd base_store \<Rightarrow> string \<Rightarrow> bytes \<Rightarrow> bool" where
  "newSignatureValidator E s = signature_Validate E (base_Validate s)"

section \<open>The store\<close>

record ('d, 'priv, 'pub) signature_store =
  sg_base :: "'d base_store"
  sg_priv :: "'priv option"
  sg_pub :: "'pub option"

definition sg_ResetKeyPair ::
  "('d, 'priv, 'pub) env \<Rightarrow> bytes \<Rightarrow> 'priv option \<Rightarrow> 'pub option \<Rightarrow>
    ('d, 'priv, 'pub) signature_store \<Rightarrow> ('d, 'priv, 'pub) signature_store" where
  "sg_ResetKeyPair E rnd priv pub s =
     (let (priv, pub) = (if priv = None \<or> pub = None then gen_pair E rnd else (priv, pub))
      in s\<lparr>sg_priv := priv, sg_pub := pub\<rparr>)"

definition err_no_privKey :: goerror where "err_no_privKey = ErrNew ''no valid privKey''"
definition err_invalid_pubKey :: goerror where "err_invalid_pubKey = ErrNew ''invalid pubKey''"

text \<open>
  The signed record of a value: the first lines of \<open>Put\<close> and of \<open>initPut\<close>, up to the key string.
\<close>

definition signed_record ::
  "('d, 'priv, 'pub) env \<Rightarrow> 'priv option \<Rightarrow> 'pub option \<Rightarrow> bytes \<Rightarrow> (string \<times> bytes) res" where
  "signed_record E priv pub val =
     (case priv of
        None \<Rightarrow> Inl err_no_privKey
      | Some sk \<Rightarrow>
          (case k_sign (key_ops E) sk val of
             Inl err \<Rightarrow> Inl err
           | Inr sign \<Rightarrow>
               (let sd = \<lparr>sd_value = Some val, sd_sign = Some sign\<rparr>
                in case c_marshal (pb_sig (lib_pb E)) sd of
                  Inl err \<Rightarrow> Inl err
                | Inr msd \<Rightarrow>
                    (let sKey = PubKeyToStr (lib_id E) (crypto E) pub
                     in if sKey = [] then Inl err_invalid_pubKey else Inr (sKey, msd)))))"

definition sg_Put ::
  "('d, 'priv, 'pub) env \<Rightarrow> string \<Rightarrow> bytes \<Rightarrow> ('d, 'priv, 'pub) signature_store \<Rightarrow>
    ('d, 'priv, 'pub) signature_store \<times> goerror option" where
  "sg_Put E key val s =
     (case signed_record E (sg_priv s) (sg_pub s) val of
        Inl err \<Rightarrow> (s, Some err)
      | Inr (sKey, msd) \<Rightarrow>
          let (b, err) = base_Put E (sKey @ ''/'' @ key) msd (sg_base s) in (s\<lparr>sg_base := b\<rparr>, err))"

definition sg_Get ::
  "('d, 'priv, 'pub) env \<Rightarrow> ('d, 'priv, 'pub) signature_store \<Rightarrow> string \<Rightarrow> slice res" where
  "sg_Get E s key =
     (case base_Get E (sg_base s) key of
        Inl err \<Rightarrow> Inl err
      | Inr msd \<Rightarrow>
          (case c_unmarshal (pb_sig (lib_pb E)) msd of
             Inl err \<Rightarrow> Inl err
           | Inr sd \<Rightarrow> Inr (sd_value sd)))"

definition sg_GetSize ::
  "('d, 'priv, 'pub) env \<Rightarrow> ('d, 'priv, 'pub) signature_store \<Rightarrow> string \<Rightarrow> int res" where
  "sg_GetSize E s key =
     (case sg_Get E s key of Inl err \<Rightarrow> Inl err | Inr val \<Rightarrow> Inr (int (length (contents val))))"

text \<open>
  The goroutine of the query methods: a result whose value does not unmarshal is dropped, the
  others are delivered with the value the message carries.
\<close>

fun decode_results :: "(bytes \<Rightarrow> slice res) \<Rightarrow> result list \<Rightarrow> result list" where
  "decode_results dec [] = []"
| "decode_results dec (r # rs) =
     (case dec (contents (e_value r)) of
        Inl _ \<Rightarrow> decode_results dec rs
      | Inr v \<Rightarrow> r\<lparr>e_value := v\<rparr> # decode_results dec rs)"

definition sig_value :: "('d, 'priv, 'pub) env \<Rightarrow> bytes \<Rightarrow> slice res" where
  "sig_value E b =
     (case c_unmarshal (pb_sig (lib_pb E)) b of Inl err \<Rightarrow> Inl err | Inr sd \<Rightarrow> Inr (sd_value sd))"

definition sg_Query ::
  "('d, 'priv, 'pub) env \<Rightarrow> ('d, 'priv, 'pub) signature_store \<Rightarrow> query list \<Rightarrow> result list res" where
  "sg_Query E s qs =
     (let q = query_arg qs in
      case base_Query E (sg_base s) [q] of
        Inl err \<Rightarrow> Inl err
      | Inr rs \<Rightarrow> if q_keysOnly q then Inr rs else Inr (decode_results (sig_value E) rs))"

definition sg_accessFromKey :: "string \<Rightarrow> string" where
  "sg_accessFromKey key =
     (let keys = key_parts key in if length keys = 0 then [] else keys ! 0)"

definition sg_putKey ::
  "('d, 'priv, 'pub) env \<Rightarrow> ('d, 'priv, 'pub) signature_store \<Rightarrow> string \<Rightarrow> string" where
  "sg_putKey E s key =
     (let sKey = PubKeyToStr (lib_id E) (crypto E) (sg_pub s)
      in if sKey = [] then [] else sKey @ ''/'' @ key)"

definition sg_acQuery ::
  "('d, 'priv, 'pub) env \<Rightarrow> ('d, 'priv, 'pub) signature_store \<Rightarrow> string \<Rightarrow> result list res" where
  "sg_acQuery E s acKey = sg_Query E s [empty_query\<lparr>q_filters := [KeyExistFilter acKey]\<rparr>]"

definition sg_initPut ::
  "('d, 'priv, 'pub) env \<Rightarrow> ('d, 'priv, 'pub) signature_store \<Rightarrow>
    ('d, 'priv, 'pub) signature_store \<times> goerror option" where
  "sg_initPut E s =
     (case signed_record E (sg_priv s) (sg_pub s) (bytes_of_string (bs_name (sg_base s))) of
        Inl err \<Rightarrow> (s, Some err)
      | Inr (sKey, msd) \<Rightarrow>
          let (b, err) = base_Put E (sKey @ ''/'' @ bs_name (sg_base s)) msd (sg_base s)
          in (s\<lparr>sg_base := b\<rparr>, err))"

definition sg_loadCheck :: "('d, 'priv, 'pub) env \<Rightarrow> ('d, 'priv, 'pub) signature_store \<Rightarrow> bool" where
  "sg_loadCheck E s = loadCheck_with E (base_Query E (sg_base s)) (sg_base s)"

section \<open>The validator decides for the store, and checks authenticity\<close>

text \<open>
  A record is authentic when its value carries a signature that the key named in the first
  component of its key verifies.
\<close>

definition authentic :: "('d, 'priv, 'pub) env \<Rightarrow> string \<Rightarrow> bytes \<Rightarrow> bool" where
  "authentic E key val \<longleftrightarrow>
     (case StrToPubKey (lib_id E) (crypto E) (hd (key_parts key)) of
        Inl _ \<Rightarrow> False
      | Inr vk \<Rightarrow>
          (case c_unmarshal (pb_sig (lib_pb E)) val of
             Inl _ \<Rightarrow> False
           | Inr sd \<Rightarrow> k_verify (key_ops E) vk (contents (sd_value sd)) (contents (sd_sign sd)) = Inr True))"

lemma signature_Validate_iff: "signature_Validate E inner key val \<longleftrightarrow> inner key val \<and> authentic E key val"
  by (auto simp: signature_Validate_def authentic_def Let_def hd_conv_nth split: sum.splits)

interpretation signature_val: validator "newSignatureValidator E" base_isInTime for E
  by unfold_locales (simp add: newSignatureValidator_def signature_Validate_iff base_Validate_def)

section \<open>What a put stores\<close>

definition signed_ok :: "('d, 'priv, 'pub) env \<Rightarrow> 'priv option \<Rightarrow> 'pub option \<Rightarrow> bool" where
  "signed_ok E priv pub \<longleftrightarrow>
     (\<forall>sk pk. priv = Some sk \<longrightarrow> pub = Some pk \<longrightarrow> key_pair (key_ops E) sk pk)"

definition libs_ok :: "('d, 'priv, 'pub) env \<Rightarrow> bool" where
  "libs_ok E \<longleftrightarrow> protos_ok (lib_pb E) \<and> id_ok (lib_id E) \<and> marshal_ok (crypto E)"

lemma libs_okD [lib_laws]:
  "libs_ok E \<Longrightarrow> protos_ok (lib_pb E)" "libs_ok E \<Longrightarrow> id_ok (lib_id E)" "libs_ok E \<Longrightarrow> marshal_ok (crypto E)"
  by (simp_all add: libs_ok_def)

lemma signed_record_Inr:
  assumes "signed_record E priv pub val = Inr (sKey, msd)"
  obtains sk sign where "priv = Some sk" "k_sign (key_ops E) sk val = Inr sign"
    "c_marshal (pb_sig (lib_pb E)) \<lparr>sd_value = Some val, sd_sign = Some sign\<rparr> = Inr msd"
    "sKey = PubKeyToStr (lib_id E) (crypto E) pub" "sKey \<noteq> []"
  using assms by (auto simp: signed_record_def Let_def split: option.splits sum.splits if_splits)

lemma signed_record_value:
  assumes "libs_ok E" "signed_record E priv pub val = Inr (sKey, msd)"
  shows "sig_value E msd = Inr (canon_slice (Some val))"
  using assms(2)
proof (rule signed_record_Inr)
  fix sk sign
  assume "c_marshal (pb_sig (lib_pb E)) \<lparr>sd_value = Some val, sd_sign = Some sign\<rparr> = Inr msd"
  from protos_okD(4) [OF libs_okD(1) [OF assms(1)] this] show ?thesis
    by (simp add: sig_value_def)
qed

lemma signed_record_key:
  assumes "libs_ok E" "signed_record E priv pub val = Inr (sKey, msd)"
  shows "plain_component sKey"
  using assms(2) PubKeyToStr_plain [OF libs_okD(2) [OF assms(1)]]
  by (auto elim: signed_record_Inr)

lemma plain_clean: "plain_component p \<Longrightarrow> clean_path p"
  unfolding plain_component_def using clean_path_component by blast

text \<open>The signed record is authentic under every key that starts with the writer's key string.\<close>

lemma signed_record_authentic:
  assumes "libs_ok E" "signed_ok E priv pub" "signed_record E priv pub val = Inr (sKey, msd)"
  shows "authentic E (CHR ''/'' # sKey @ CHR ''/'' # rest) msd"
  using assms(3)
proof (rule signed_record_Inr)
  fix sk sign
  assume r: "priv = Some sk" "k_sign (key_ops E) sk val = Inr sign"
    "c_marshal (pb_sig (lib_pb E)) \<lparr>sd_value = Some val, sd_sign = Some sign\<rparr> = Inr msd"
    "sKey = PubKeyToStr (lib_id E) (crypto E) pub" "sKey \<noteq> []"
  from StrToPubKey_PubKeyToStr [OF libs_okD(2) [OF assms(1)] libs_okD(3) [OF assms(1)]] r(4,5) obtain vk where
    vk: "pub = Some vk" "StrToPubKey (lib_id E) (crypto E) sKey = Inr vk" by metis
  from assms(2) r(1,2) vk(1) have "k_verify (key_ops E) vk val sign = Inr True"
    by (simp add: signed_ok_def key_pair_def)
  moreover from signed_record_key [OF assms(1,3)]
  have "hd (key_parts (CHR ''/'' # sKey @ CHR ''/'' # rest)) = sKey"
    by (simp add: go_split_append go_split_no_sep plain_component_def)
  ultimately show ?thesis
    using vk(2) protos_okD(4) [OF libs_okD(1) [OF assms(1)] r(3)] by (simp add: authentic_def)
qed

lemma signed_key:
  assumes "key_ok nk" "plain_component sKey" "clean_path key"
  shows "nk (sKey @ CHR ''/'' # key) = CHR ''/'' # sKey @ CHR ''/'' # key"
proof -
  have "clean_path (sKey @ CHR ''/'' # key)"
    using plain_clean [OF assms(2)] assms(3) by (simp add: clean_path_append)
  from key_okD(1) [OF assms(1) this] show ?thesis .
qed

definition sg_table :: "('d \<Rightarrow> (string \<rightharpoonup> bytes)) \<Rightarrow> ('d, 'priv, 'pub) signature_store \<Rightarrow> (string \<rightharpoonup> bytes)" where
  "sg_table els s = base_table els (sg_base s)"

lemma sg_Put_ok:
  assumes "env_ok E els" "sg_Put E key val s = (s', None)"
  obtains sKey msd where "signed_record E (sg_priv s) (sg_pub s) val = Inr (sKey, msd)"
    "sg_table els s (newKey (lib_ds E) (sKey @ ''/'' @ key)) = None"
    "sg_table els s' = (sg_table els s)(newKey (lib_ds E) (sKey @ ''/'' @ key) \<mapsto> msd)"
    "sg_priv s' = sg_priv s" "sg_pub s' = sg_pub s" "bs_inTime (sg_base s') = bs_inTime (sg_base s)"
proof -
  from assms(2) obtain sKey msd b where r: "signed_record E (sg_priv s) (sg_pub s) val = Inr (sKey, msd)"
    and b: "base_Put E (sKey @ ''/'' @ key) msd (sg_base s) = (b, None)" and s': "s' = s\<lparr>sg_base := b\<rparr>"
    by (auto simp: sg_Put_def split: sum.splits prod.splits)
  from base_Put_ok [OF assms(1) b] show thesis
    by (intro that [OF r]) (simp_all add: sg_table_def s')
qed

lemma sg_Put_err:
  assumes "env_ok E els" "sg_Put E key val s = (s', Some e)"
  shows "sg_table els s' = sg_table els s"
  using assms base_Put_err [OF assms(1)]
  by (auto simp: sg_Put_def sg_table_def split: sum.splits prod.splits)

interpretation sg_store: append_only "env_ok E els" "sg_table els" "\<lambda>(key, val). sg_Put E key val"
  for E els
proof unfold_locales
  fix a :: "string \<times> bytes" and s s' :: "('a, 'b, 'c) signature_store"
  assume "env_ok E els" "(case a of (key, val) \<Rightarrow> sg_Put E key val) s = (s', None)"
  then show "\<exists>k v. sg_table els s k = None \<and> sg_table els s' = (sg_table els s)(k \<mapsto> v)"
    by (cases a) (simp, erule (1) sg_Put_ok, blast)
next
  fix a :: "string \<times> bytes" and s s' :: "('a, 'b, 'c) signature_store" and e
  assume "env_ok E els" "(case a of (key, val) \<Rightarrow> sg_Put E key val) s = (s', Some e)"
  then show "sg_table els s' = sg_table els s"
    by (cases a) (auto dest: sg_Put_err)
qed

text \<open>A signed record that is stored is read as the value that was signed.\<close>

lemma stored_read:
  assumes E: "ds_live (lib_ds E) els" "libs_ok E"
    and r: "signed_record E priv pub val = Inr (sKey, msd)" and val: "val \<noteq> []"
    and tab: "sg_table els s (newKey (lib_ds E) key) = Some msd"
  shows "sg_Get E s key = Inr (Some val)"
proof -
  have sv: "sig_value E msd = Inr (canon_slice (Some val))"
    by (rule signed_record_value [OF E(2) r])
  then have "msd \<noteq> []"
    using protos_okD(8) [OF libs_okD(1) [OF E(2)]] val by (auto simp: sig_value_def zero_sig_def)
  then have "base_Get E (sg_base s) key = Inr msd"
    using tab E(1) by (intro base_Get_live) (simp_all add: sg_table_def)
  with sv val show ?thesis by (auto simp: sg_Get_def sig_value_def split: sum.splits)
qed

text \<open>Put, then Get by any reader who knows the writer's key string.\<close>

lemma sg_Put_Get:
  assumes E: "env_ok E els" "ds_live (lib_ds E) els" "libs_ok E"
    and put: "sg_Put E key val s = (s', None)" and val: "val \<noteq> []"
  shows "sg_Get E s' (sg_putKey E s key) = Inr (Some val)"
proof -
  from sg_Put_ok [OF E(1) put] obtain sKey msd where
    r: "signed_record E (sg_priv s) (sg_pub s) val = Inr (sKey, msd)"
    and tab: "sg_table els s' = (sg_table els s)(newKey (lib_ds E) (sKey @ ''/'' @ key) \<mapsto> msd)" .
  from r have "sg_putKey E s key = sKey @ ''/'' @ key"
    by (auto elim!: signed_record_Inr simp: sg_putKey_def Let_def)
  with stored_read [OF E(2,3) r val, of s' "sKey @ ''/'' @ key"] tab show ?thesis by simp
qed

text \<open>A put passes the validator of any other peer that is in time.\<close>

lemma sg_Put_validates:
  assumes E: "env_ok E els" "libs_ok E" and pair: "signed_ok E (sg_priv s) (sg_pub s)"
    and key: "clean_path key" and put: "sg_Put E key val s = (s', None)" and peer: "bs_inTime peer"
  obtains k msd where "sg_table els s' = (sg_table els s)(k \<mapsto> msd)" "newSignatureValidator E peer k msd"
proof -
  from sg_Put_ok [OF E(1) put] obtain sKey msd where
    r: "signed_record E (sg_priv s) (sg_pub s) val = Inr (sKey, msd)"
    and tab: "sg_table els s' = (sg_table els s)(newKey (lib_ds E) (sKey @ ''/'' @ key) \<mapsto> msd)" .
  have "newKey (lib_ds E) (sKey @ ''/'' @ key) = CHR ''/'' # sKey @ CHR ''/'' # key"
    using signed_key [OF ds_okD(1) [OF env_okD(1) [OF E(1)]] signed_record_key [OF E(2) r] key] by simp
  with signed_record_authentic [OF E(2) pair r, of key] peer
  have "newSignatureValidator E peer (newKey (lib_ds E) (sKey @ ''/'' @ key)) msd"
    by (simp add: newSignatureValidator_def signature_Validate_iff base_Validate_def base_isInTime_def)
  with tab show thesis by (rule that)
qed

text \<open>Two writers never write to the same key.\<close>

lemma signed_keys_disjoint:
  assumes "key_ok nk" "plain_component p" "plain_component q" "clean_path k" "clean_path k'"
    and "nk (p @ ''/'' @ k) = nk (q @ ''/'' @ k')"
  shows "p = q"
proof -
  from signed_key [OF assms(1,2,4)] signed_key [OF assms(1,3,5)] assms(6)
  have "p @ CHR ''/'' # k = q @ CHR ''/'' # k'" by simp
  then have "hd (go_split (CHR ''/'') (p @ CHR ''/'' # k)) = hd (go_split (CHR ''/'') (q @ CHR ''/'' # k'))"
    by (rule arg_cong)
  with assms(2,3) show ?thesis
    by (simp add: go_split_append go_split_no_sep plain_component_def)
qed

section \<open>Queries\<close>

lemma decode_results_set:
  "r' \<in> set (decode_results dec rs) \<longleftrightarrow>
     (\<exists>r \<in> set rs. \<exists>v. dec (contents (e_value r)) = Inr v \<and> r' = r\<lparr>e_value := v\<rparr>)"
  by (induction rs) (auto split: sum.splits)

lemma decode_results_errors:
  "(\<And>r. r \<in> set rs \<Longrightarrow> r_error r = None) \<Longrightarrow> r' \<in> set (decode_results dec rs) \<Longrightarrow> r_error r' = None"
  by (auto simp: decode_results_set)

end
