(* ===== verification/UpdatableSignature.thy ===== *)
theory UpdatableSignature
  imports Updatable Signature
begin

text \<open>
  The store of crdt/updatable_signature.go: records are signed as in the signature store and
  versioned as in the updatable store, under \<open>pid/category/timestamp\<close>. The struct has the fields of
  the signature store (an embedded store and the key pair), so it is the same record type here.
\<close>

type_synonym ('d, 'priv, 'pub) updatable_signature_store = "('d, 'priv, 'pub) signature_store"

definition newUpdatableSignatureValidator ::
  "('d, 'priv, 'pub) env \<Rightarrow> gotime \<Rightarrow> 'd base_store \<Rightarrow> string \<Rightarrow> bytes \<Rightarrow> bool" where
  "newUpdatableSignatureValidator E now s = updatable_Validate (local_zone E) now (newSignatureValidator E s)"

definition getUpdatableSignatureOpts ::
  "('d, 'priv, 'pub) env \<Rightarrow> bytes \<Rightarrow> ('priv, 'pub) store_opts list \<Rightarrow>
    ('priv option \<times> 'pub option \<times> gotime) \<times> ('priv, 'pub) store_opts list" where
  "getUpdatableSignatureOpts E rnd opts =
     (case opts of
        [] \<Rightarrow> let (priv, pub) = gen_pair E rnd in ((priv, pub, zero_time), [])
      | o0 # os \<Rightarrow>
          let o0 = (if so_Pub o0 = None
                    then let (priv, pub) = gen_pair E rnd in o0\<lparr>so_Priv := priv, so_Pub := pub\<rparr>
                    else o0)
          in ((so_Priv o0, so_Pub o0, so_TimeLimit o0), o0 # os))"

definition us_ResetKeyPair ::
  "('d, 'priv, 'pub) env \<Rightarrow> bytes \<Rightarrow> 'priv option \<Rightarrow> 'pub option \<Rightarrow>
    ('d, 'priv, 'pub) updatable_signature_store \<Rightarrow> ('d, 'priv, 'pub) updatable_signature_store" where
  "us_ResetKeyPair E rnd priv pub s =
     (let (priv, pub) = (if priv = None \<or> pub = None then gen_pair E rnd else (priv, pub))
      in s\<lparr>sg_priv := priv, sg_pub := pub\<rparr>)"

definition us_Put ::
  "('d, 'priv, 'pub) env \<Rightarrow> gotime \<Rightarrow> string \<Rightarrow> bytes \<Rightarrow> ('d, 'priv, 'pub) updatable_signature_store \<Rightarrow>
    ('d, 'priv, 'pub) updatable_signature_store \<times> goerror option" where
  "us_Put E now key val s =
     (case signed_record E (sg_priv s) (sg_pub s) val of
        Inl err \<Rightarrow> (s, Some err)
      | Inr (sKey, msd) \<Rightarrow>
          let (b, err) = upd_Put E now (sKey @ ''/'' @ key) msd (sg_base s) in (s\<lparr>sg_base := b\<rparr>, err))"

definition us_Get ::
  "('d, 'priv, 'pub) env \<Rightarrow> ('d, 'priv, 'pub) updatable_signature_store \<Rightarrow> string \<Rightarrow> slice res" where
  "us_Get E s key =
     (case upd_Get E (sg_base s) key of
        Inl err \<Rightarrow> Inl err
      | Inr msd \<Rightarrow>
          (case c_unmarshal (pb_sig (lib_pb E)) msd of
             Inl err \<Rightarrow> Inl err
           | Inr sd \<Rightarrow> Inr (sd_value sd)))"

definition us_GetSize ::
  "('d, 'priv, 'pub) env \<Rightarrow> ('d, 'priv, 'pub) updatable_signature_store \<Rightarrow> string \<Rightarrow> int res" where
  "us_GetSize E s key =
     (case us_Get E s key of Inl err \<Rightarrow> Inl err | Inr val \<Rightarrow> Inr (int (length (contents val))))"

definition us_baseQuery ::
  "('d, 'priv, 'pub) env \<Rightarrow> ('d, 'priv, 'pub) updatable_signature_store \<Rightarrow> query \<Rightarrow> result list res" where
  "us_baseQuery E s q =
     (case upd_Query E (sg_base s) [q] of
        Inl err \<Rightarrow> Inl err
      | Inr rs \<Rightarrow> if q_keysOnly q then Inr rs else Inr (decode_results (sig_value E) rs))"

definition us_Query ::
  "('d, 'priv, 'pub) env \<Rightarrow> ('d, 'priv, 'pub) updatable_signature_store \<Rightarrow> query list \<Rightarrow> result list res" where
  "us_Query E s qs = us_baseQuery E s (query_arg qs)"

definition us_baseQueryAll ::
  "('d, 'priv, 'pub) env \<Rightarrow> ('d, 'priv, 'pub) updatable_signature_store \<Rightarrow> query \<Rightarrow> result list res" where
  "us_baseQueryAll E s q =
     (case upd_QueryAll E (sg_base s) [q] of
        Inl err \<Rightarrow> Inl err
      | Inr rs \<Rightarrow> if q_keysOnly q then Inr rs else Inr (decode_results (sig_value E) rs))"

definition us_QueryAll ::
  "('d, 'priv, 'pub) env \<Rightarrow> ('d, 'priv, 'pub) updatable_signature_store \<Rightarrow> query list \<Rightarrow> result list res" where
  "us_QueryAll E s qs = us_baseQueryAll E s (query_arg qs)"

definition us_accessFromKey :: "string \<Rightarrow> string" where
  "us_accessFromKey key =
     (let keys = key_parts key in if length keys = 0 then [] else keys ! 0)"

definition us_putKey ::
  "('d, 'priv, 'pub) env \<Rightarrow> ('d, 'priv, 'pub) updatable_signature_store \<Rightarrow> string \<Rightarrow> string" where
  "us_putKey E s key =
     (let sKey = PubKeyToStr (lib_id E) (crypto E) (sg_pub s)
      in if sKey = [] then [] else sKey @ ''/'' @ key)"

definition us_acQuery ::
  "('d, 'priv, 'pub) env \<Rightarrow> ('d, 'priv, 'pub) updatable_signature_store \<Rightarrow> string \<Rightarrow> result list res" where
  "us_acQuery E s acKey = us_Query E s [empty_query\<lparr>q_filters := [KeyExistFilter acKey]\<rparr>]"

definition us_initPut ::
  "('d, 'priv, 'pub) env \<Rightarrow> gotime \<Rightarrow> ('d, 'priv, 'pub) updatable_signature_store \<Rightarrow>
    ('d, 'priv, 'pub) updatable_signature_store \<times> goerror option" where
  "us_initPut E now s =
     (case signed_record E (sg_priv s) (sg_pub s) (bytes_of_string (bs_name (sg_base s))) of
        Inl err \<Rightarrow> (s, Some err)
      | Inr (sKey, msd) \<Rightarrow>
          let (b, err) = upd_Put E now (sKey @ ''/'' @ bs_name (sg_base s)) msd (sg_base s)
          in (s\<lparr>sg_base := b\<rparr>, err))"

definition us_loadCheck ::
  "('d, 'priv, 'pub) env \<Rightarrow> ('d, 'priv, 'pub) updatable_signature_store \<Rightarrow> bool" where
  "us_loadCheck E s = loadCheck_with E (upd_Query E (sg_base s)) (sg_base s)"

section \<open>The validator\<close>

lemma newUpdatableSignatureValidator_iff:
  "newUpdatableSignatureValidator E now s key val \<longleftrightarrow>
     bs_inTime s \<and> authentic E key val
     \<and> (\<exists>t. key_time (local_zone E) key = Inr t \<and> loc_name (t_loc t) = ''UTC'' \<and> time_before t (to_utc now))"
  by (auto simp: newUpdatableSignatureValidator_def updatable_Validate_iff newSignatureValidator_def
      signature_Validate_iff base_Validate_def base_isInTime_def)

interpretation updatable_signature_val: validator "newUpdatableSignatureValidator E now" base_isInTime
  for E now
  by unfold_locales (simp add: newUpdatableSignatureValidator_iff base_isInTime_def)

section \<open>What a put stores\<close>

lemma us_Put_ok:
  assumes "env_ok E els" "us_Put E now key val s = (s', None)"
  obtains sKey msd b where "signed_record E (sg_priv s) (sg_pub s) val = Inr (sKey, msd)"
    "upd_Put E now (sKey @ ''/'' @ key) msd (sg_base s) = (b, None)" "s' = s\<lparr>sg_base := b\<rparr>"
  using assms(2) by (auto simp: us_Put_def split: sum.splits prod.splits)

interpretation us_store: append_only "env_ok E els" "sg_table els" "\<lambda>(now, key, val). us_Put E now key val"
  for E els
proof unfold_locales
  fix a :: "gotime \<times> string \<times> bytes" and s s' :: "('a, 'b, 'c) signature_store"
  assume E: "env_ok E els" and "(case a of (now, key, val) \<Rightarrow> us_Put E now key val) s = (s', None)"
  then obtain now key val where "us_Put E now key val s = (s', None)" by (cases a) auto
  from us_Put_ok [OF E this] obtain sKey msd b where
    "upd_Put E now (sKey @ ''/'' @ key) msd (sg_base s) = (b, None)" "s' = s\<lparr>sg_base := b\<rparr>"
    by metis
  with base_Put_ok(1,2) [OF E] show "\<exists>k v. sg_table els s k = None \<and> sg_table els s' = (sg_table els s)(k \<mapsto> v)"
    unfolding sg_table_def upd_Put_eq by (metis signature_store.select_convs(1) signature_store.surjective
        signature_store.update_convs(1))
next
  fix a :: "gotime \<times> string \<times> bytes" and s s' :: "('a, 'b, 'c) signature_store" and e
  assume E: "env_ok E els" and "(case a of (now, key, val) \<Rightarrow> us_Put E now key val) s = (s', Some e)"
  then show "sg_table els s' = sg_table els s"
    using base_Put_err [OF E]
    by (cases a) (auto simp: us_Put_def sg_table_def upd_Put_eq split: sum.splits prod.splits)
qed

text \<open>The key and the value a successful put has written.\<close>

lemma us_Put_record:
  assumes E: "env_ok E els" "libs_ok E" and key: "clean_path key"
    and put: "us_Put E now key val s = (s', None)"
  obtains sKey msd where "signed_record E (sg_priv s) (sg_pub s) val = Inr (sKey, msd)"
    "sg_table els s' =
       (sg_table els s)(CHR ''/'' # (sKey @ CHR ''/'' # key) @ CHR ''/'' # time_key now \<mapsto> msd)"
    "us_putKey E s key = sKey @ CHR ''/'' # key" "clean_path (sKey @ CHR ''/'' # key)"
proof -
  from us_Put_ok [OF E(1) put] obtain sKey msd b where
    r: "signed_record E (sg_priv s) (sg_pub s) val = Inr (sKey, msd)"
    and b: "upd_Put E now (sKey @ ''/'' @ key) msd (sg_base s) = (b, None)" and s': "s' = s\<lparr>sg_base := b\<rparr>"
    by metis
  have clean: "clean_path (sKey @ CHR ''/'' # key)"
    using plain_clean [OF signed_record_key [OF E(2) r]] key by (simp add: clean_path_append)
  have "newKey (lib_ds E) ((sKey @ CHR ''/'' # key) @ CHR ''/'' # time_key now) =
    CHR ''/'' # (sKey @ CHR ''/'' # key) @ CHR ''/'' # time_key now"
    by (rule stamped_key [OF ds_okD(1) [OF env_okD(1) [OF E(1)]] clean])
  with base_Put_ok(2) [OF E(1) b [unfolded upd_Put_eq]]
  have "sg_table els s' =
       (sg_table els s)(CHR ''/'' # (sKey @ CHR ''/'' # key) @ CHR ''/'' # time_key now \<mapsto> msd)"
    by (simp add: sg_table_def s')
  moreover have "us_putKey E s key = sKey @ CHR ''/'' # key"
    using r by (auto elim!: signed_record_Inr simp: us_putKey_def Let_def)
  ultimately show thesis using that [OF r] clean by blast
qed

text \<open>A signed record that is stored as the newest version below its key is read.\<close>

lemma stored_version_read:
  assumes E: "env_ok E els" "ds_live (lib_ds E) els" "libs_ok E"
    and r: "signed_record E priv pub val = Inr (sKey, msd)" and val: "val \<noteq> []"
    and key: "clean_path key" and t: "wf_time t"
    and tab: "sg_table els s (CHR ''/'' # key @ CHR ''/'' # time_key t) = Some msd"
    and older: "\<And>k u. k \<in> dom (sg_table els s) \<Longrightarrow> below key k \<Longrightarrow>
      k \<noteq> CHR ''/'' # key @ CHR ''/'' # time_key t \<Longrightarrow> key_time (local_zone E) k = Inr u \<Longrightarrow>
      instant_of u < instant_of t"
  shows "us_Get E s key = Inr (Some val)"
proof -
  have sv: "sig_value E msd = Inr (canon_slice (Some val))"
    by (rule signed_record_value [OF E(3) r])
  then have "msd \<noteq> []"
    using protos_okD(8) [OF libs_okD(1) [OF E(3)]] val by (auto simp: sig_value_def zero_sig_def)
  with tab older have "upd_Get E (sg_base s) key = Inr msd"
    unfolding sg_table_def by (intro upd_Get_stored [OF E(1,2) key t])
  with sv val show ?thesis
    by (auto simp: us_Get_def sig_value_def split: sum.splits)
qed

text \<open>Put, then Get: the value, if no other version below the key is as new.\<close>

lemma us_Put_Get:
  assumes E: "env_ok E els" "ds_live (lib_ds E) els" "libs_ok E" and key: "clean_path key"
    and now: "wf_time now" and put: "us_Put E now key val s = (s', None)" and val: "val \<noteq> []"
    and older: "\<And>k t. k \<in> dom (sg_table els s) \<Longrightarrow> below (us_putKey E s key) k \<Longrightarrow>
      key_time (local_zone E) k = Inr t \<Longrightarrow> instant_of t < instant_of now"
  shows "us_Get E s' (us_putKey E s key) = Inr (Some val)"
proof -
  from us_Put_record [OF E(1,3) key put] obtain sKey msd where
    r: "signed_record E (sg_priv s) (sg_pub s) val = Inr (sKey, msd)"
    and tab: "sg_table els s' =
       (sg_table els s)(CHR ''/'' # (sKey @ CHR ''/'' # key) @ CHR ''/'' # time_key now \<mapsto> msd)"
    and k: "us_putKey E s key = sKey @ CHR ''/'' # key" "clean_path (sKey @ CHR ''/'' # key)" .
  show ?thesis
    unfolding k(1) by (rule stored_version_read [OF E r val k(2) now]) (use tab older k(1) in auto)
qed

text \<open>
  A replay: the signature covers the value only, so the record of one put is valid under every key and
  timestamp of its writer.
\<close>

lemma replay_validates:
  assumes E: "libs_ok E" and pair: "signed_ok E priv pub" and r: "signed_record E priv pub val = Inr (sKey, msd)"
    and t: "wf_time t" "instant_of t < instant_of now" and peer: "bs_inTime peer"
  shows "newUpdatableSignatureValidator E now peer (CHR ''/'' # (sKey @ CHR ''/'' # path) @ CHR ''/'' # time_key t) msd"
  using signed_record_authentic [OF E pair r, of "path @ CHR ''/'' # time_key t"] t peer
    key_time_stamped [OF t(1), of "local_zone E" "sKey @ CHR ''/'' # path"]
  by (simp add: newUpdatableSignatureValidator_iff time_before_instant)

text \<open>A put passes the validator of any other peer that is in time and whose clock is later.\<close>

lemma us_Put_validates:
  assumes E: "env_ok E els" "libs_ok E" and pair: "signed_ok E (sg_priv s) (sg_pub s)"
    and key: "clean_path key" and put: "us_Put E now key val s = (s', None)"
    and now: "wf_time now" "instant_of now < instant_of now'" and peer: "bs_inTime peer"
  obtains k msd where "sg_table els s' = (sg_table els s)(k \<mapsto> msd)"
    "newUpdatableSignatureValidator E now' peer k msd"
proof -
  from us_Put_record [OF E key put] obtain sKey msd where
    r: "signed_record E (sg_priv s) (sg_pub s) val = Inr (sKey, msd)"
    and tab: "sg_table els s' =
      (sg_table els s)(CHR ''/'' # (sKey @ CHR ''/'' # key) @ CHR ''/'' # time_key now \<mapsto> msd)" .
  have "newUpdatableSignatureValidator E now' peer
      (CHR ''/'' # (sKey @ CHR ''/'' # key) @ CHR ''/'' # time_key now) msd"
    by (rule replay_validates [OF E(2) pair r now peer])
  with tab show thesis by (rule that)
qed

section \<open>Queries by a component of the key\<close>

text \<open>A version that is the newest of its category is delivered, with the value it carries.\<close>

lemma us_Query_delivers:
  assumes E: "env_ok E els" and q: "key_query q" and run: "us_Query E s [q] = Inr rs"
    and k: "sg_table els s k = Some v" "key_passes q k" "has_category k" "category_of k \<noteq> []"
    and val: "sig_value E v = Inr val" and t: "key_time (local_zone E) k = Inr t"
    and older: "\<And>k' t'. k' \<in> dom (sg_table els s) \<Longrightarrow> has_category k' \<Longrightarrow> category_of k' = category_of k \<Longrightarrow>
      k' \<noteq> k \<Longrightarrow> key_time (local_zone E) k' = Inr t' \<Longrightarrow> instant_of t' < instant_of t"
  shows "\<exists>r \<in> set rs. e_key r = k \<and> e_value r = val"
proof -
  have "\<not> q_keysOnly q" using q by (simp add: key_query_def)
  with run obtain rs0 where rs0: "upd_Query E (sg_base s) [q] = Inr rs0"
    and rs: "rs = decode_results (sig_value E) rs0"
    by (auto simp: us_Query_def us_baseQuery_def split: sum.splits)
  note new = upd_Query_newest [OF E q rs0]
  from new(3) [of k] k obtain r0 where r0: "r0 \<in> set rs0" "category_of (e_key r0) = category_of k"
    by (auto simp: sg_table_def)
  from new(2) [OF r0(1)] have tab: "base_table els (sg_base s) (e_key r0) = Some (contents (e_value r0))"
    and hc: "has_category (e_key r0)"
    and nw: "newest (local_zone E) (base_table els (sg_base s)) (\<lambda>k'. key_passes q k'
      \<and> has_category k' \<and> category_of k' = category_of (e_key r0)) (e_key r0)"
    by (simp_all add: newest_def)
  have "e_key r0 = k"
  proof (rule ccontr)
    assume ne: "e_key r0 \<noteq> k"
    from nw k(1-3) r0(2) t obtain t0 where t0: "key_time (local_zone E) (e_key r0) = Inr t0"
      "instant_of t \<le> instant_of t0"
      unfolding newest_def sg_table_def by (metis domI)
    have "instant_of t0 < instant_of t"
      using tab by (intro older [OF _ hc r0(2) ne t0(1)]) (simp add: sg_table_def domIff)
    with t0(2) show False by simp
  qed
  with tab k(1) have "contents (e_value r0) = v" by (simp add: sg_table_def)
  with val r0(1) have "r0\<lparr>e_value := val\<rparr> \<in> set rs"
    by (auto simp: rs decode_results_set)
  then show ?thesis using \<open>e_key r0 = k\<close> by (intro bexI [of _ "r0\<lparr>e_value := val\<rparr>"]) simp_all
qed

lemma us_Query_live:
  assumes "ds_live (lib_ds E) els"
  obtains rs where "us_Query E s qs = Inr rs"
proof -
  from ds_liveD(4) [OF assms] obtain rs1 where
    "upd_baseQuery E (sg_base s) [query_arg qs] = Inr rs1"
    by (auto simp: upd_baseQuery_def base_Query_def Let_def is_ok_iff)
  then have "us_Query E s qs = Inr (if q_keysOnly (query_arg qs) then latest_only [] rs1
      else decode_results (sig_value E) (latest_only [] rs1))"
    by (simp add: us_Query_def us_baseQuery_def upd_Query_def)
  then show thesis by (rule that)
qed

end
