(* ===== verification/Hash.thy ===== *)
theory Hash
  imports Signature
begin

text \<open>
  The hash store of crdt/hash.go: a record is written under the Argon2 hash of its base string and
  the store's salt, and carries both, so every peer can recompute the key. A key can be written
  once, by whoever knows the base string.
\<close>

definition MakeHashKey :: "('d, 'priv, 'pub) env \<Rightarrow> string \<Rightarrow> slice \<Rightarrow> string" where
  "MakeHashKey E bHashStr salt =
     (let hash = argonIDKey E (bytes_of_string bHashStr) (contents salt) 1 (64 * 1024) 4 64
      in b64_encode hash)"

definition hash_Validate ::
  "('d, 'priv, 'pub) env \<Rightarrow> (string \<Rightarrow> bytes \<Rightarrow> bool) \<Rightarrow> string \<Rightarrow> bytes \<Rightarrow> bool" where
  "hash_Validate E inner key val =
     (if \<not> inner key val then False
      else let key = trim_prefix key ''/'' in
      case c_unmarshal (pb_hash (lib_pb E)) val of
        Inl _ \<Rightarrow> False
      | Inr data \<Rightarrow> (let hKey = MakeHashKey E (hd_baseHash data) (hd_salt data) in key = hKey))"

definition newHashValidator ::
  "('d, 'priv, 'pub) env \<Rightarrow> 'd base_store \<Rightarrow> string \<Rightarrow> bytes \<Rightarrow> bool" where
  "newHashValidator E s = hash_Validate E (base_Validate s)"

text \<open>\<open>rnd\<close> is the eight random bytes of a fresh salt.\<close>

definition getHashOpts ::
  "bytes \<Rightarrow> ('priv, 'pub) store_opts list \<Rightarrow> (slice \<times> gotime) \<times> ('priv, 'pub) store_opts list" where
  "getHashOpts rnd opts =
     (case opts of
        [] \<Rightarrow> ((Some rnd, zero_time), [])
      | o0 # os \<Rightarrow>
          let o0 = (if so_Salt o0 = None then o0\<lparr>so_Salt := Some rnd\<rparr> else o0)
          in ((so_Salt o0, so_TimeLimit o0), o0 # os))"

record 'd hash_store =
  hs_base :: "'d base_store"
  hs_salt :: slice

definition hs_Address :: "('d, 'priv, 'pub) env \<Rightarrow> 'd hash_store \<Rightarrow> string" where
  "hs_Address E s = MakeAddress E (bs_name (hs_base s)) [] (hs_salt s) [bs_timeLimit (hs_base s)]"

definition hs_Put ::
  "('d, 'priv, 'pub) env \<Rightarrow> string \<Rightarrow> bytes \<Rightarrow> 'd hash_store \<Rightarrow> 'd hash_store \<times> goerror option" where
  "hs_Put E bHashStr val s =
     (let key = MakeHashKey E bHashStr (hs_salt s);
          data = \<lparr>hd_baseHash = bHashStr, hd_salt = hs_salt s, hd_value = Some val\<rparr>
      in case c_marshal (pb_hash (lib_pb E)) data of
        Inl err \<Rightarrow> (s, Some err)
      | Inr m \<Rightarrow> let (b, err) = base_Put E key m (hs_base s) in (s\<lparr>hs_base := b\<rparr>, err))"

definition hash_value :: "('d, 'priv, 'pub) env \<Rightarrow> bytes \<Rightarrow> slice res" where
  "hash_value E b =
     (case c_unmarshal (pb_hash (lib_pb E)) b of Inl err \<Rightarrow> Inl err | Inr data \<Rightarrow> Inr (hd_value data))"

definition hs_get :: "('d, 'priv, 'pub) env \<Rightarrow> 'd hash_store \<Rightarrow> string \<Rightarrow> slice res" where
  "hs_get E s key =
     (case base_Get E (hs_base s) key of
        Inl err \<Rightarrow> Inl err
      | Inr m \<Rightarrow>
          (case c_unmarshal (pb_hash (lib_pb E)) m of
             Inl err \<Rightarrow> Inl err
           | Inr data \<Rightarrow> Inr (hd_value data)))"

definition hs_Get :: "('d, 'priv, 'pub) env \<Rightarrow> 'd hash_store \<Rightarrow> string \<Rightarrow> slice res" where
  "hs_Get E s key =
     (case hs_get E s key of
        Inr data \<Rightarrow> Inr data
      | Inl _ \<Rightarrow> hs_get E s (MakeHashKey E key (hs_salt s)))"

definition hs_GetSize :: "('d, 'priv, 'pub) env \<Rightarrow> 'd hash_store \<Rightarrow> string \<Rightarrow> int res" where
  "hs_GetSize E s key =
     (case hs_Get E s key of Inl err \<Rightarrow> Inl err | Inr val \<Rightarrow> Inr (int (length (contents val))))"

definition hs_Has :: "('d, 'priv, 'pub) env \<Rightarrow> 'd hash_store \<Rightarrow> string \<Rightarrow> bool res" where
  "hs_Has E s key =
     (case base_Has E (hs_base s) key of
        Inr True \<Rightarrow> Inr True
      | _ \<Rightarrow> base_Has E (hs_base s) (MakeHashKey E key (hs_salt s)))"

definition hs_Query ::
  "('d, 'priv, 'pub) env \<Rightarrow> 'd hash_store \<Rightarrow> query list \<Rightarrow> result list res" where
  "hs_Query E s qs =
     (let q = query_arg qs in
      case base_Query E (hs_base s) [q] of
        Inl err \<Rightarrow> Inl err
      | Inr rs \<Rightarrow> if q_keysOnly q then Inr rs else Inr (decode_results (hash_value E) rs))"

definition hs_accessFromKey :: "string \<Rightarrow> string" where
  "hs_accessFromKey key = key"

definition hs_putKey :: "('d, 'priv, 'pub) env \<Rightarrow> 'd hash_store \<Rightarrow> string \<Rightarrow> string" where
  "hs_putKey E s key = MakeHashKey E key (hs_salt s)"

text \<open>The goroutine of \<open>acQuery\<close> also puts the base string in the place of the key.\<close>

fun decode_hash_results :: "('d, 'priv, 'pub) env \<Rightarrow> result list \<Rightarrow> result list" where
  "decode_hash_results E [] = []"
| "decode_hash_results E (r # rs) =
     (case c_unmarshal (pb_hash (lib_pb E)) (contents (e_value r)) of
        Inl _ \<Rightarrow> decode_hash_results E rs
      | Inr data \<Rightarrow> r\<lparr>e_key := hd_baseHash data, e_value := hd_value data\<rparr> # decode_hash_results E rs)"

definition hs_acQuery :: "('d, 'priv, 'pub) env \<Rightarrow> 'd hash_store \<Rightarrow> string \<Rightarrow> result list res" where
  "hs_acQuery E s acKey =
     (let key = MakeHashKey E acKey (hs_salt s) in
      case base_Query E (hs_base s) [empty_query\<lparr>q_filters := [KeyMatchFilter key]\<rparr>] of
        Inl err \<Rightarrow> Inl err
      | Inr rs \<Rightarrow> Inr (decode_hash_results E rs))"

definition hs_initPut ::
  "('d, 'priv, 'pub) env \<Rightarrow> 'd hash_store \<Rightarrow> 'd hash_store \<times> goerror option" where
  "hs_initPut E s =
     (let name = bs_name (hs_base s);
          key = MakeHashKey E name (hs_salt s);
          data = \<lparr>hd_baseHash = name, hd_salt = hs_salt s, hd_value = Some (bytes_of_string name)\<rparr>
      in case c_marshal (pb_hash (lib_pb E)) data of
        Inl err \<Rightarrow> (s, Some err)
      | Inr m \<Rightarrow> let (b, err) = base_Put E key m (hs_base s) in (s\<lparr>hs_base := b\<rparr>, err))"

definition hs_loadCheck :: "('d, 'priv, 'pub) env \<Rightarrow> 'd hash_store \<Rightarrow> bool" where
  "hs_loadCheck E s = loadCheck_with E (base_Query E (hs_base s)) (hs_base s)"

section \<open>The validator\<close>

text \<open>A record is consistent when its key is the hash of what it carries.\<close>

definition hash_consistent :: "('d, 'priv, 'pub) env \<Rightarrow> string \<Rightarrow> bytes \<Rightarrow> bool" where
  "hash_consistent E key val \<longleftrightarrow>
     (case c_unmarshal (pb_hash (lib_pb E)) val of
        Inl _ \<Rightarrow> False
      | Inr data \<Rightarrow> trim_prefix key ''/'' = MakeHashKey E (hd_baseHash data) (hd_salt data))"

lemma hash_Validate_iff: "hash_Validate E inner key val \<longleftrightarrow> inner key val \<and> hash_consistent E key val"
  by (auto simp: hash_Validate_def hash_consistent_def Let_def split: sum.splits)

interpretation hash_val: validator "newHashValidator E" base_isInTime for E
  by unfold_locales (simp add: newHashValidator_def hash_Validate_iff base_Validate_def)

text \<open>Argon2 returns as many bytes as it is asked for.\<close>

definition kdf_ok :: "('d, 'priv, 'pub) env \<Rightarrow> bool" where
  "kdf_ok E \<longleftrightarrow> (\<forall>pw salt t m p n. length (argonIDKey E pw salt t m p n) = n)"

lemma MakeHashKey_nonempty: "kdf_ok E \<Longrightarrow> MakeHashKey E b salt \<noteq> []"
  by (metis MakeHashKey_def b64_encode_eq_Nil kdf_ok_def list.size(3) zero_neq_numeral)

lemma MakeHashKey_no_slash [simp]: "CHR ''/'' \<notin> set (MakeHashKey E b salt)"
  by (simp add: MakeHashKey_def Let_def)

lemma MakeHashKey_clean: "kdf_ok E \<Longrightarrow> clean_path (MakeHashKey E b salt)"
proof -
  assume "kdf_ok E"
  then have "MakeHashKey E b salt \<noteq> []" by (rule MakeHashKey_nonempty)
  moreover have "MakeHashKey E b salt \<noteq> CHR ''.'' # r" for r
    unfolding MakeHashKey_def Let_def by (rule b64_encode_hd_not_dot)
  ultimately show ?thesis by (simp add: clean_path_component)
qed

lemma newKey_hash:
  "key_ok nk \<Longrightarrow> kdf_ok E \<Longrightarrow> nk (MakeHashKey E b salt) = CHR ''/'' # MakeHashKey E b salt"
  by (rule key_okD(1) [OF _ MakeHashKey_clean])

section \<open>What a put stores\<close>

definition hs_table :: "('d \<Rightarrow> (string \<rightharpoonup> bytes)) \<Rightarrow> 'd hash_store \<Rightarrow> (string \<rightharpoonup> bytes)" where
  "hs_table els s = base_table els (hs_base s)"

lemma hs_Put_ok:
  assumes "env_ok E els" "hs_Put E b val s = (s', None)"
  obtains m where
    "c_marshal (pb_hash (lib_pb E)) \<lparr>hd_baseHash = b, hd_salt = hs_salt s, hd_value = Some val\<rparr> = Inr m"
    "hs_table els s (newKey (lib_ds E) (MakeHashKey E b (hs_salt s))) = None"
    "hs_table els s' = (hs_table els s)(newKey (lib_ds E) (MakeHashKey E b (hs_salt s)) \<mapsto> m)"
    "hs_salt s' = hs_salt s"
proof -
  from assms(2) obtain m bs where
    m: "c_marshal (pb_hash (lib_pb E)) \<lparr>hd_baseHash = b, hd_salt = hs_salt s, hd_value = Some val\<rparr> = Inr m"
    and bs: "base_Put E (MakeHashKey E b (hs_salt s)) m (hs_base s) = (bs, None)"
    and s': "s' = s\<lparr>hs_base := bs\<rparr>"
    by (auto simp: hs_Put_def Let_def split: sum.splits prod.splits)
  from base_Put_ok [OF assms(1) bs] show thesis
    by (intro that [OF m]) (simp_all add: hs_table_def s')
qed

lemma hs_Put_err:
  assumes "env_ok E els" "hs_Put E b val s = (s', Some e)"
  shows "hs_table els s' = hs_table els s"
  using assms base_Put_err [OF assms(1)]
  by (auto simp: hs_Put_def hs_table_def Let_def split: sum.splits prod.splits)

interpretation hs_store: append_only "env_ok E els" "hs_table els" "\<lambda>(b, val). hs_Put E b val"
  for E els
proof unfold_locales
  fix a :: "string \<times> bytes" and s s' :: "'a hash_store"
  assume "env_ok E els" "(case a of (b, val) \<Rightarrow> hs_Put E b val) s = (s', None)"
  then show "\<exists>k v. hs_table els s k = None \<and> hs_table els s' = (hs_table els s)(k \<mapsto> v)"
    by (cases a) (simp, erule (1) hs_Put_ok, blast)
next
  fix a :: "string \<times> bytes" and s s' :: "'a hash_store" and e
  assume "env_ok E els" "(case a of (b, val) \<Rightarrow> hs_Put E b val) s = (s', Some e)"
  then show "hs_table els s' = hs_table els s"
    by (cases a) (auto dest: hs_Put_err)
qed

text \<open>A put is consistent, so it passes the validator of any other peer that is in time.\<close>

lemma hs_Put_consistent:
  assumes E: "env_ok E els" "protos_ok (lib_pb E)" "kdf_ok E" and put: "hs_Put E b val s = (s', None)"
  obtains m where
    "hs_table els s' = (hs_table els s)(CHR ''/'' # MakeHashKey E b (hs_salt s) \<mapsto> m)"
    "hash_consistent E (CHR ''/'' # MakeHashKey E b (hs_salt s)) m"
    "hash_value E m = Inr (canon_slice (Some val))"
proof -
  from hs_Put_ok [OF E(1) put] obtain m where
    m: "c_marshal (pb_hash (lib_pb E)) \<lparr>hd_baseHash = b, hd_salt = hs_salt s, hd_value = Some val\<rparr> = Inr m"
    and tab: "hs_table els s' = (hs_table els s)(newKey (lib_ds E) (MakeHashKey E b (hs_salt s)) \<mapsto> m)" .
  from protos_okD(3) [OF E(2) m] have un: "c_unmarshal (pb_hash (lib_pb E)) m =
      Inr (canon_hash \<lparr>hd_baseHash = b, hd_salt = hs_salt s, hd_value = Some val\<rparr>)" .
  have "hash_consistent E (CHR ''/'' # MakeHashKey E b (hs_salt s)) m"
    by (simp add: hash_consistent_def un MakeHashKey_def)
  moreover have "hash_value E m = Inr (canon_slice (Some val))"
    by (simp add: hash_value_def un)
  moreover from tab newKey_hash [OF ds_okD(1) [OF env_okD(1) [OF E(1)]] E(3)]
  have "hs_table els s' = (hs_table els s)(CHR ''/'' # MakeHashKey E b (hs_salt s) \<mapsto> m)" by simp
  ultimately show thesis by (intro that)
qed

lemma hs_get_eq:
  "hs_get E s key = (case base_Get E (hs_base s) key of Inl err \<Rightarrow> Inl err | Inr m \<Rightarrow> hash_value E m)"
  by (simp add: hs_get_def hash_value_def split: sum.split)

text \<open>A record that is stored under the hash of a base string is read with the base string.\<close>

lemma stored_hash_read:
  assumes E: "env_ok E els" "ds_live (lib_ds E) els" "protos_ok (lib_pb E)" "kdf_ok E"
    and tab: "hs_table els s (CHR ''/'' # MakeHashKey E b (hs_salt s)) = Some m"
    and v: "hash_value E m = Inr (canon_slice (Some val))" and val: "val \<noteq> []"
    and raw: "hs_table els s (newKey (lib_ds E) b) = None"
  shows "hs_Get E s b = Inr (Some val)"
proof -
  from v have "m \<noteq> []"
    using protos_okD(7) [OF E(3)] val by (auto simp: hash_value_def zero_hash_def)
  moreover have "base_table els (hs_base s) (newKey (lib_ds E) (MakeHashKey E b (hs_salt s))) = Some m"
    using tab newKey_hash [OF ds_okD(1) [OF env_okD(1) [OF E(1)]] E(4)] by (simp add: hs_table_def)
  ultimately have "base_Get E (hs_base s) (MakeHashKey E b (hs_salt s)) = Inr m"
    using E(2) by (intro base_Get_live)
  moreover obtain e where "base_Get E (hs_base s) b = Inl e"
  proof (cases "base_Get E (hs_base s) b")
    case (Inr c)
    from base_Get_sound [OF E(1) this] raw show thesis by (simp add: hs_table_def)
  qed
  ultimately show ?thesis using v val by (simp add: hs_Get_def hs_get_eq)
qed

text \<open>Put, then Get with the base string, when no record is stored under the base string itself.\<close>

lemma hs_Put_Get:
  assumes E: "env_ok E els" "ds_live (lib_ds E) els" "protos_ok (lib_pb E)" "kdf_ok E"
    and put: "hs_Put E b val s = (s', None)" and val: "val \<noteq> []"
    and raw: "hs_table els s' (newKey (lib_ds E) b) = None"
  shows "hs_Get E s' b = Inr (Some val)"
proof -
  from hs_Put_ok [OF E(1) put] have salt: "hs_salt s' = hs_salt s" by metis
  from hs_Put_consistent [OF E(1,3,4) put] obtain m where
    tab: "hs_table els s' = (hs_table els s)(CHR ''/'' # MakeHashKey E b (hs_salt s) \<mapsto> m)"
    and v: "hash_value E m = Inr (canon_slice (Some val))" .
  from stored_hash_read [OF E _ v val raw] tab show ?thesis by (simp add: salt)
qed

text \<open>The second put of a base string under one salt fails.\<close>

lemma hs_Put_twice:
  assumes E: "env_ok E els" and put: "hs_Put E b val s = (s', None)"
    and m: "c_marshal (pb_hash (lib_pb E)) \<lparr>hd_baseHash = b, hd_salt = hs_salt s, hd_value = Some val'\<rparr> = Inr m"
  shows "hs_Put E b val' s' = (s', Some ErrAlreadyExist)"
proof -
  from hs_Put_ok [OF E put] obtain m0 where
    tab: "hs_table els s' = (hs_table els s)(newKey (lib_ds E) (MakeHashKey E b (hs_salt s)) \<mapsto> m0)"
    and salt: "hs_salt s' = hs_salt s" by metis
  from fun_cong [OF tab, of "newKey (lib_ds E) (MakeHashKey E b (hs_salt s))"]
  have "base_table els (hs_base s') (newKey (lib_ds E) (MakeHashKey E b (hs_salt s))) \<noteq> None"
    by (simp add: hs_table_def)
  with m salt show ?thesis
    by (simp add: hs_Put_def Let_def base_Put_cases [OF E])
qed

end
