(* ===== verification/Access.thy ===== *)
theory Access
  imports UpdatableSignature Hash
begin

text \<open>
  The interface \<open>IStore\<close> of crdt/crdtverse.go with its implementations as the constructors of
  \<open>store\<close>, its methods as functions that dispatch on them, and the access store of crdt/access.go,
  which wraps a store and lets a key be used only when its owner has been granted access by the
  master key. An access store may itself be wrapped, so the dispatch is recursive.
\<close>

datatype ('d, 'priv, 'pub) store =
    LogStore "'d base_store"
  | UpdatableStore "'d base_store"
  | SignatureStore "('d, 'priv, 'pub) signature_store"
  | UpdatableSignatureStore "('d, 'priv, 'pub) updatable_signature_store"
  | HashStore "'d hash_store"
  | AccessStore "('d, 'priv, 'pub) store" "'priv option" "'pub option"

primrec st_base :: "('d, 'priv, 'pub) store \<Rightarrow> 'd base_store" where
  "st_base (LogStore s) = s"
| "st_base (UpdatableStore s) = s"
| "st_base (SignatureStore s) = sg_base s"
| "st_base (UpdatableSignatureStore s) = sg_base s"
| "st_base (HashStore s) = hs_base s"
| "st_base (AccessStore b priv pub) = st_base b"

text \<open>The methods every store inherits from the embedded base store.\<close>

primrec st_map :: "('d base_store \<Rightarrow> 'd base_store) \<Rightarrow> ('d, 'priv, 'pub) store \<Rightarrow> ('d, 'priv, 'pub) store" where
  "st_map f (LogStore s) = LogStore (f s)"
| "st_map f (UpdatableStore s) = UpdatableStore (f s)"
| "st_map f (SignatureStore s) = SignatureStore (s\<lparr>sg_base := f (sg_base s)\<rparr>)"
| "st_map f (UpdatableSignatureStore s) = UpdatableSignatureStore (s\<lparr>sg_base := f (sg_base s)\<rparr>)"
| "st_map f (HashStore s) = HashStore (s\<lparr>hs_base := f (hs_base s)\<rparr>)"
| "st_map f (AccessStore b priv pub) = AccessStore (st_map f b) priv pub"

lemma st_base_map [simp]: "st_base (st_map f s) = f (st_base s)"
  by (induction s) simp_all

definition st_Close :: "('d, 'priv, 'pub) env \<Rightarrow> ('d, 'priv, 'pub) store \<Rightarrow> ('d, 'priv, 'pub) store" where
  "st_Close E = st_map (base_Close E)"

definition st_Cancel :: "('d, 'priv, 'pub) env \<Rightarrow> ('d, 'priv, 'pub) store \<Rightarrow> ('d, 'priv, 'pub) store" where
  "st_Cancel E = st_map (base_Cancel E)"

definition st_autoSync :: "('d, 'priv, 'pub) env \<Rightarrow> ('d, 'priv, 'pub) store \<Rightarrow> ('d, 'priv, 'pub) store" where
  "st_autoSync E = st_map (base_autoSync E)"

definition st_Sync ::
  "('d, 'priv, 'pub) env \<Rightarrow> ('d, 'priv, 'pub) store \<Rightarrow> ('d, 'priv, 'pub) store \<times> goerror option" where
  "st_Sync E s = (st_map (\<lambda>b. fst (base_Sync E b)) s, snd (base_Sync E (st_base s)))"

section \<open>The stores an access store can wrap\<close>

text \<open>The interface \<open>IAccessBaseStore\<close> and the type assertion to it.\<close>

fun is_access_base :: "('d, 'priv, 'pub) store \<Rightarrow> bool" where
  "is_access_base (LogStore _) = False"
| "is_access_base (UpdatableStore _) = False"
| "is_access_base _ = True"

fun is_hash_store :: "('d, 'priv, 'pub) store \<Rightarrow> bool" where
  "is_hash_store (HashStore _) = True"
| "is_hash_store _ = False"

definition err_invalid_base :: goerror where "err_invalid_base = ErrNew ''invalid base store''"

fun st_putKey :: "('d, 'priv, 'pub) env \<Rightarrow> ('d, 'priv, 'pub) store \<Rightarrow> string \<Rightarrow> string" where
  "st_putKey E (SignatureStore s) key = sg_putKey E s key"
| "st_putKey E (UpdatableSignatureStore s) key = us_putKey E s key"
| "st_putKey E (HashStore s) key = hs_putKey E s key"
| "st_putKey E (AccessStore b _ _) key = st_putKey E b key"
| "st_putKey E _ key = []"

fun st_accessFromKey :: "('d, 'priv, 'pub) store \<Rightarrow> string \<Rightarrow> string" where
  "st_accessFromKey (SignatureStore s) key = sg_accessFromKey key"
| "st_accessFromKey (UpdatableSignatureStore s) key = us_accessFromKey key"
| "st_accessFromKey (HashStore s) key = hs_accessFromKey key"
| "st_accessFromKey (AccessStore b _ _) key = st_accessFromKey b key"
| "st_accessFromKey _ key = []"

fun st_acQuery :: "('d, 'priv, 'pub) env \<Rightarrow> ('d, 'priv, 'pub) store \<Rightarrow> string \<Rightarrow> result list res" where
  "st_acQuery E (SignatureStore s) acKey = sg_acQuery E s acKey"
| "st_acQuery E (UpdatableSignatureStore s) acKey = us_acQuery E s acKey"
| "st_acQuery E (HashStore s) acKey = hs_acQuery E s acKey"
| "st_acQuery E (AccessStore b _ _) acKey = st_acQuery E b acKey"
| "st_acQuery E _ acKey = Inl err_invalid_base"

section \<open>Access keys and their check\<close>

text \<open>One turn of the loop of \<open>acFilter.extractPubKey\<close>: the master key a component carries.\<close>

definition component_key :: "('d, 'priv, 'pub) env \<Rightarrow> string \<Rightarrow> 'pub option" where
  "component_key E maybeAcKey =
     (case b64_decode maybeAcKey of
        Inl _ \<Rightarrow> None
      | Inr mak \<Rightarrow>
          (case c_unmarshal (pb_access (lib_pb E)) mak of
             Inl _ \<Rightarrow> None
           | Inr pak \<Rightarrow>
               (case StrToPubKey (lib_id E) (crypto E) (ak_masterKey pak) of
                  Inl _ \<Rightarrow> None
                | Inr pub \<Rightarrow> Some pub)))"

fun first_component_key :: "('d, 'priv, 'pub) env \<Rightarrow> string list \<Rightarrow> 'pub option" where
  "first_component_key E [] = None"
| "first_component_key E (c # cs) =
     (case component_key E c of None \<Rightarrow> first_component_key E cs | Some pub \<Rightarrow> Some pub)"

definition acFilter_extractPubKey :: "('d, 'priv, 'pub) env \<Rightarrow> string \<Rightarrow> 'pub option" where
  "acFilter_extractPubKey E key = first_component_key E (key_parts key)"

definition acFilter :: "('d, 'priv, 'pub) env \<Rightarrow> qfilter" where
  "acFilter E e =
     (case acFilter_extractPubKey E (e_key e) of
        None \<Rightarrow> False
      | Some pub \<Rightarrow>
          (case c_unmarshal (pb_sig (lib_pb E)) (contents (e_value e)) of
             Inl _ \<Rightarrow> False
           | Inr sd \<Rightarrow>
               (case k_verify (key_ops E) pub (contents (sd_value sd)) (contents (sd_sign sd)) of
                  Inl _ \<Rightarrow> False
                | Inr ok \<Rightarrow> ok)))"

definition accessKey :: "('d, 'priv, 'pub) env \<Rightarrow> 'pub option \<Rightarrow> string \<Rightarrow> string" where
  "accessKey E pub access =
     (let sKey = PubKeyToStr (lib_id E) (crypto E) pub in
      if sKey = [] then []
      else case c_marshal (pb_access (lib_pb E)) \<lparr>ak_masterKey = sKey, ak_access = access\<rparr> of
        Inl _ \<Rightarrow> []
      | Inr m \<Rightarrow> b64_encode m)"

definition err_invalid_access :: goerror where "err_invalid_access = ErrNew ''invalid access error''"
definition err_accessKey :: goerror where "err_accessKey = ErrNew ''accessKey generation error''"
definition err_no_permission :: goerror where "err_no_permission = ErrNew ''no access permission''"

definition ac_verify ::
  "('d, 'priv, 'pub) env \<Rightarrow> ('d, 'priv, 'pub) store \<Rightarrow> 'pub option \<Rightarrow> string \<Rightarrow> bool res" where
  "ac_verify E b pub key =
     (let key = trim_prefix key ''/'';
          access = st_accessFromKey b key
      in if access = [] then Inl err_invalid_access
      else let acKey = accessKey E pub access
      in if acKey = [] then Inl err_accessKey
      else case st_acQuery E b acKey of
        Inl err \<Rightarrow> Inl err
      | Inr rs \<Rightarrow>
          (case results_rest (lib_q E) (naiveFilter (lib_q E) rs (acFilter E)) of
             Inl err \<Rightarrow> Inl err
           | Inr resList \<Rightarrow> Inr (0 < length resList)))"

definition ac_Verify ::
  "('d, 'priv, 'pub) env \<Rightarrow> ('d, 'priv, 'pub) store \<Rightarrow> 'pub option \<Rightarrow> string \<Rightarrow> goerror option" where
  "ac_Verify E b pub key =
     (case ac_verify E b pub key of
        Inl err \<Rightarrow> Some err
      | Inr ok \<Rightarrow> if \<not> ok then Some err_no_permission else None)"

definition acVerifyFilter ::
  "('d, 'priv, 'pub) env \<Rightarrow> ('d, 'priv, 'pub) store \<Rightarrow> 'pub option \<Rightarrow> qfilter" where
  "acVerifyFilter E b pub e \<longleftrightarrow> ac_Verify E b pub (e_key e) = None"

text \<open>The guard \<open>Get\<close>, \<open>GetSize\<close> and \<open>Has\<close> share: the key itself, or for a hash store its hash.\<close>

definition ac_gate ::
  "('d, 'priv, 'pub) env \<Rightarrow> ('d, 'priv, 'pub) store \<Rightarrow> 'pub option \<Rightarrow> string \<Rightarrow> goerror option" where
  "ac_gate E b pub key =
     (case ac_Verify E b pub key of
        None \<Rightarrow> None
      | Some err \<Rightarrow> if \<not> is_hash_store b then Some err else ac_Verify E b pub (st_putKey E b key))"

section \<open>The methods of \<open>IStore\<close>\<close>

fun st_Address :: "('d, 'priv, 'pub) env \<Rightarrow> ('d, 'priv, 'pub) store \<Rightarrow> string" where
  "st_Address E (HashStore s) = hs_Address E s"
| "st_Address E (AccessStore b priv pub) =
     (case parseAddress E (st_Address E b) of
        Inl _ \<Rightarrow> []
      | Inr (name, salt, _, time) \<Rightarrow>
          (let pid = PubKeyToStr (lib_id E) (crypto E) pub in MakeAddress E name pid salt [time]))"
| "st_Address E s = base_Address E (st_base s)"

fun st_Put ::
  "('d, 'priv, 'pub) env \<Rightarrow> gotime \<Rightarrow> string \<Rightarrow> bytes \<Rightarrow> ('d, 'priv, 'pub) store \<Rightarrow>
    ('d, 'priv, 'pub) store \<times> goerror option" where
  "st_Put E now key val (LogStore s) = (let (s, err) = base_Put E key val s in (LogStore s, err))"
| "st_Put E now key val (UpdatableStore s) =
     (let (s, err) = upd_Put E now key val s in (UpdatableStore s, err))"
| "st_Put E now key val (SignatureStore s) =
     (let (s, err) = sg_Put E key val s in (SignatureStore s, err))"
| "st_Put E now key val (UpdatableSignatureStore s) =
     (let (s, err) = us_Put E now key val s in (UpdatableSignatureStore s, err))"
| "st_Put E now key val (HashStore s) = (let (s, err) = hs_Put E key val s in (HashStore s, err))"
| "st_Put E now key val (AccessStore b priv pub) =
     (case ac_Verify E b pub (st_putKey E b key) of
        Some err \<Rightarrow> (AccessStore b priv pub, Some err)
      | None \<Rightarrow> let (b, err) = st_Put E now key val b in (AccessStore b priv pub, err))"

definition some_slice :: "bytes res \<Rightarrow> slice res" where
  "some_slice r = (case r of Inl err \<Rightarrow> Inl err | Inr b \<Rightarrow> Inr (Some b))"

fun st_Get :: "('d, 'priv, 'pub) env \<Rightarrow> ('d, 'priv, 'pub) store \<Rightarrow> string \<Rightarrow> slice res" where
  "st_Get E (LogStore s) key = some_slice (base_Get E s key)"
| "st_Get E (UpdatableStore s) key = some_slice (upd_Get E s key)"
| "st_Get E (SignatureStore s) key = sg_Get E s key"
| "st_Get E (UpdatableSignatureStore s) key = us_Get E s key"
| "st_Get E (HashStore s) key = hs_Get E s key"
| "st_Get E (AccessStore b priv pub) key =
     (case ac_gate E b pub key of Some err \<Rightarrow> Inl err | None \<Rightarrow> st_Get E b key)"

fun st_GetSize :: "('d, 'priv, 'pub) env \<Rightarrow> ('d, 'priv, 'pub) store \<Rightarrow> string \<Rightarrow> int res" where
  "st_GetSize E (LogStore s) key = base_GetSize E s key"
| "st_GetSize E (UpdatableStore s) key = upd_GetSize E s key"
| "st_GetSize E (SignatureStore s) key = sg_GetSize E s key"
| "st_GetSize E (UpdatableSignatureStore s) key = us_GetSize E s key"
| "st_GetSize E (HashStore s) key = hs_GetSize E s key"
| "st_GetSize E (AccessStore b priv pub) key =
     (case ac_gate E b pub key of Some err \<Rightarrow> Inl err | None \<Rightarrow> st_GetSize E b key)"

fun st_Has :: "('d, 'priv, 'pub) env \<Rightarrow> ('d, 'priv, 'pub) store \<Rightarrow> string \<Rightarrow> bool res" where
  "st_Has E (LogStore s) key = base_Has E s key"
| "st_Has E (UpdatableStore s) key = upd_Has E s key"
| "st_Has E (SignatureStore s) key = base_Has E (sg_base s) key"
| "st_Has E (UpdatableSignatureStore s) key = upd_Has E (sg_base s) key"
| "st_Has E (HashStore s) key = hs_Has E s key"
| "st_Has E (AccessStore b priv pub) key =
     (case ac_gate E b pub key of Some err \<Rightarrow> Inl err | None \<Rightarrow> st_Has E b key)"

fun st_Query :: "('d, 'priv, 'pub) env \<Rightarrow> ('d, 'priv, 'pub) store \<Rightarrow> query list \<Rightarrow> result list res" where
  "st_Query E (LogStore s) qs = base_Query E s qs"
| "st_Query E (UpdatableStore s) qs = upd_Query E s qs"
| "st_Query E (SignatureStore s) qs = sg_Query E s qs"
| "st_Query E (UpdatableSignatureStore s) qs = us_Query E s qs"
| "st_Query E (HashStore s) qs = hs_Query E s qs"
| "st_Query E (AccessStore b priv pub) qs =
     (case st_Query E b [] of
        Inl err \<Rightarrow> Inl err
      | Inr rs \<Rightarrow>
          (let q = query_arg qs in
           Inr (naiveQueryApply (lib_q E)
             (q\<lparr>q_filters := q_filters q @ [acVerifyFilter E b pub]\<rparr>) rs)))"

text \<open>
  \<open>QueryAll\<close> of an access store works on the stores that implement \<open>IUpdatableSignatureStore\<close>: the
  updatable signature store, and an access store.
\<close>

definition err_not_implemented :: goerror where "err_not_implemented = ErrNew ''not implemented error''"

fun st_QueryAll :: "('d, 'priv, 'pub) env \<Rightarrow> ('d, 'priv, 'pub) store \<Rightarrow> query list \<Rightarrow> result list res" where
  "st_QueryAll E (UpdatableStore s) qs = upd_QueryAll E s qs"
| "st_QueryAll E (UpdatableSignatureStore s) qs = us_QueryAll E s qs"
| "st_QueryAll E (AccessStore b priv pub) qs =
     (case b of
        UpdatableStore _ \<Rightarrow> Inl err_not_implemented
      | _ \<Rightarrow>
        (case st_QueryAll E b [] of
           Inl err \<Rightarrow> Inl err
         | Inr rs \<Rightarrow>
             (let q = query_arg qs in
              Inr (naiveQueryApply (lib_q E)
                (q\<lparr>q_filters := q_filters q @ [acVerifyFilter E b pub]\<rparr>) rs))))"
| "st_QueryAll E _ qs = Inl err_not_implemented"

fun st_initPut ::
  "('d, 'priv, 'pub) env \<Rightarrow> gotime \<Rightarrow> ('d, 'priv, 'pub) store \<Rightarrow>
    ('d, 'priv, 'pub) store \<times> goerror option" where
  "st_initPut E now (LogStore s) = (let (s, err) = base_initPut E s in (LogStore s, err))"
| "st_initPut E now (UpdatableStore s) = (let (s, err) = upd_initPut E now s in (UpdatableStore s, err))"
| "st_initPut E now (SignatureStore s) = (let (s, err) = sg_initPut E s in (SignatureStore s, err))"
| "st_initPut E now (UpdatableSignatureStore s) =
     (let (s, err) = us_initPut E now s in (UpdatableSignatureStore s, err))"
| "st_initPut E now (HashStore s) = (let (s, err) = hs_initPut E s in (HashStore s, err))"
| "st_initPut E now (AccessStore b priv pub) =
     (let (b, err) = st_initPut E now b in (AccessStore b priv pub, err))"

fun st_loadCheck :: "('d, 'priv, 'pub) env \<Rightarrow> ('d, 'priv, 'pub) store \<Rightarrow> bool" where
  "st_loadCheck E (LogStore s) = base_loadCheck E s"
| "st_loadCheck E (UpdatableStore s) = upd_loadCheck E s"
| "st_loadCheck E (SignatureStore s) = sg_loadCheck E s"
| "st_loadCheck E (UpdatableSignatureStore s) = us_loadCheck E s"
| "st_loadCheck E (HashStore s) = hs_loadCheck E s"
| "st_loadCheck E (AccessStore b priv pub) = st_loadCheck E b"

text \<open>\<open>ResetKeyPair\<close>, of the stores that have it; an access store passes it on.\<close>

fun st_ResetKeyPair ::
  "('d, 'priv, 'pub) env \<Rightarrow> bytes \<Rightarrow> 'priv option \<Rightarrow> 'pub option \<Rightarrow> ('d, 'priv, 'pub) store \<Rightarrow>
    ('d, 'priv, 'pub) store" where
  "st_ResetKeyPair E rnd priv pub (SignatureStore s) = SignatureStore (sg_ResetKeyPair E rnd priv pub s)"
| "st_ResetKeyPair E rnd priv pub (UpdatableSignatureStore s) =
     UpdatableSignatureStore (us_ResetKeyPair E rnd priv pub s)"
| "st_ResetKeyPair E rnd priv pub (AccessStore b p q) = AccessStore (st_ResetKeyPair E rnd priv pub b) p q"
| "st_ResetKeyPair E rnd priv pub s = s"

section \<open>Making an access store\<close>

definition getAccessOpts ::
  "('d, 'priv, 'pub) env \<Rightarrow> bytes \<Rightarrow> ('priv, 'pub) store_opts list \<Rightarrow>
    ('priv option \<times> 'pub option) \<times> ('priv, 'pub) store_opts list" where
  "getAccessOpts E rnd opts =
     (case opts of
        [] \<Rightarrow> (gen_pair E rnd, [])
      | o0 # os \<Rightarrow>
          let o0 = (if so_Pub o0 = None
                    then let (priv, pub) = gen_pair E rnd in o0\<lparr>so_Priv := priv, so_Pub := pub\<rparr>
                    else o0)
          in ((so_Priv o0, so_Pub o0), o0 # os))"

text \<open>
  \<open>Grant\<close> on the access store with base \<open>b\<close> and key pair \<open>priv\<close>, \<open>pub\<close>; \<open>val\<close> is the 32 random
  bytes it signs. The new base store is returned.
\<close>

definition ac_Grant ::
  "('d, 'priv, 'pub) env \<Rightarrow> gotime \<Rightarrow> bytes \<Rightarrow> string \<Rightarrow> 'priv option \<Rightarrow> 'pub option \<Rightarrow>
    ('d, 'priv, 'pub) store \<Rightarrow> ('d, 'priv, 'pub) store \<times> goerror option" where
  "ac_Grant E now val access priv pub b =
     (case priv of
        None \<Rightarrow> (b, Some err_no_privKey)
      | Some sk \<Rightarrow>
          (case k_sign (key_ops E) sk val of
             Inl err \<Rightarrow> (b, Some err)
           | Inr sign \<Rightarrow>
               (let sd = \<lparr>sd_value = Some val, sd_sign = Some sign\<rparr> in
                case c_marshal (pb_sig (lib_pb E)) sd of
                  Inl err \<Rightarrow> (b, Some err)
                | Inr msd \<Rightarrow>
                    (let acKey = accessKey E pub access
                     in if acKey = [] then (b, Some err_accessKey) else st_Put E now acKey msd b))))"

text \<open>The loop over the channel of accesses, each with the clock and the random bytes it reads.\<close>

fun grant_all ::
  "('d, 'priv, 'pub) env \<Rightarrow> 'priv option \<Rightarrow> 'pub option \<Rightarrow> (string \<times> gotime \<times> bytes) list \<Rightarrow>
    ('d, 'priv, 'pub) store \<Rightarrow> ('d, 'priv, 'pub) store \<times> goerror option" where
  "grant_all E priv pub [] b = (b, None)"
| "grant_all E priv pub ((access, now, val) # as) b =
     (case ac_Grant E now val access priv pub b of
        (b, Some err) \<Rightarrow> (st_Close E b, Some err)
      | (b, None) \<Rightarrow> grant_all E priv pub as b)"

text \<open>
  \<open>NewAccessStore\<close>: the private key is forgotten once the grants are written. On an error the
  store is closed and no access store is returned.
\<close>

definition NewAccessStore ::
  "('d, 'priv, 'pub) env \<Rightarrow> bytes \<Rightarrow> ('d, 'priv, 'pub) store \<Rightarrow> (string \<times> gotime \<times> bytes) list \<Rightarrow>
    ('priv, 'pub) store_opts list \<Rightarrow> ('d, 'priv, 'pub) store \<times> ('d, 'priv, 'pub) store res" where
  "NewAccessStore E rnd st accesses opts =
     (if \<not> is_access_base st then (st, Inl err_invalid_base)
      else let ((priv, pub), opts) = getAccessOpts E rnd opts in
      case grant_all E priv pub accesses st of
        (b, Some err) \<Rightarrow> (b, Inl err)
      | (b, None) \<Rightarrow> (b, Inr (AccessStore b None pub)))"

definition loadAccessStore ::
  "('d, 'priv, 'pub) env \<Rightarrow> bytes \<Rightarrow> ('d, 'priv, 'pub) store \<Rightarrow> string \<Rightarrow>
    ('priv, 'pub) store_opts list \<Rightarrow> ('d, 'priv, 'pub) store res \<times> ('priv, 'pub) store_opts list" where
  "loadAccessStore E rnd st pid opts =
     (if \<not> is_access_base st then (Inl err_invalid_base, opts)
      else let ((priv, _), opts) = getAccessOpts E rnd opts in
      case StrToPubKey (lib_id E) (crypto E) pid of
        Inl err \<Rightarrow> (Inl err, opts)
      | Inr pub \<Rightarrow> (Inr (AccessStore st priv (Some pub)), opts))"

section \<open>Every store is append-only\<close>

definition st_table :: "('d \<Rightarrow> (string \<rightharpoonup> bytes)) \<Rightarrow> ('d, 'priv, 'pub) store \<Rightarrow> (string \<rightharpoonup> bytes)" where
  "st_table els s = base_table els (st_base s)"

lemma st_Put_ok:
  assumes E: "env_ok E els"
  shows "st_Put E now key val s = (s', None) \<Longrightarrow>
    \<exists>k v. st_table els s k = None \<and> st_table els s' = (st_table els s)(k \<mapsto> v)"
proof (induction s arbitrary: s' key val)
  case (LogStore b)
  then obtain b' where "base_Put E key val b = (b', None)" "s' = LogStore b'"
    by (auto split: prod.splits)
  with base_store.put_ok [OF E, of "(key, val)" b b'] show ?case
    by (simp only: prod.case st_table_def st_base.simps)
next
  case (UpdatableStore b)
  then obtain b' where "upd_Put E now key val b = (b', None)" "s' = UpdatableStore b'"
    by (auto split: prod.splits)
  with upd_store.put_ok [OF E, of "(now, key, val)" b b'] show ?case
    by (simp only: prod.case st_table_def st_base.simps)
next
  case (SignatureStore b)
  then obtain b' where "sg_Put E key val b = (b', None)" "s' = SignatureStore b'"
    by (auto split: prod.splits)
  with sg_store.put_ok [OF E, of "(key, val)" b b'] show ?case
    by (simp only: prod.case st_table_def sg_table_def st_base.simps)
next
  case (UpdatableSignatureStore b)
  then obtain b' where "us_Put E now key val b = (b', None)" "s' = UpdatableSignatureStore b'"
    by (auto split: prod.splits)
  with us_store.put_ok [OF E, of "(now, key, val)" b b'] show ?case
    by (simp only: prod.case st_table_def sg_table_def st_base.simps)
next
  case (HashStore b)
  then obtain b' where "hs_Put E key val b = (b', None)" "s' = HashStore b'"
    by (auto split: prod.splits)
  with hs_store.put_ok [OF E, of "(key, val)" b b'] show ?case
    by (simp only: prod.case st_table_def hs_table_def st_base.simps)
next
  case (AccessStore b priv pub)
  from AccessStore.prems obtain b' where b': "st_Put E now key val b = (b', None)"
    and s': "s' = AccessStore b' priv pub"
    by (auto split: option.splits prod.splits)
  from AccessStore.IH [OF b'] show ?case by (simp add: s' st_table_def)
qed

lemma st_Put_err:
  assumes E: "env_ok E els"
  shows "st_Put E now key val s = (s', Some e) \<Longrightarrow> st_table els s' = st_table els s"
proof (induction s arbitrary: s' key val)
  case (LogStore b)
  then show ?case
    using base_Put_err [OF E, of key val b] by (auto simp: st_table_def split: prod.splits)
next
  case (UpdatableStore b)
  then show ?case
    using upd_store.put_err [OF E, of "(now, key, val)" b] by (auto simp: st_table_def split: prod.splits)
next
  case (SignatureStore b)
  then show ?case
    using sg_Put_err [OF E, of key val b] by (auto simp: st_table_def sg_table_def split: prod.splits)
next
  case (UpdatableSignatureStore b)
  then show ?case
    using us_store.put_err [OF E, of "(now, key, val)" b]
    by (auto simp: st_table_def sg_table_def split: prod.splits)
next
  case (HashStore b)
  then show ?case
    using hs_Put_err [OF E, of key val b] by (auto simp: st_table_def hs_table_def split: prod.splits)
next
  case (AccessStore b priv pub)
  from AccessStore.prems consider "s' = AccessStore b priv pub" |
      b' where "st_Put E now key val b = (b', Some e)" "s' = AccessStore b' priv pub"
    by (auto split: option.splits prod.splits)
  then show ?case
  proof cases
    case 1
    then show ?thesis by simp
  next
    case 2
    from AccessStore.IH [OF 2(1)] show ?thesis by (simp add: 2(2) st_table_def)
  qed
qed

interpretation st_store: append_only "env_ok E els" "st_table els" "\<lambda>(now, key, val). st_Put E now key val"
  for E els
proof unfold_locales
  fix a :: "gotime \<times> string \<times> bytes" and s s' :: "('a, 'b, 'c) store"
  assume "env_ok E els" "(case a of (now, key, val) \<Rightarrow> st_Put E now key val) s = (s', None)"
  then show "\<exists>k v. st_table els s k = None \<and> st_table els s' = (st_table els s)(k \<mapsto> v)"
    by (cases a) (simp only: prod.case, rule st_Put_ok)
next
  fix a :: "gotime \<times> string \<times> bytes" and s s' :: "('a, 'b, 'c) store" and e
  assume "env_ok E els" "(case a of (now, key, val) \<Rightarrow> st_Put E now key val) s = (s', Some e)"
  then show "st_table els s' = st_table els s"
    by (cases a) (simp only: prod.case, rule st_Put_err)
qed

section \<open>What the check looks for\<close>

text \<open>
  A record grants when the first component of its key that decodes to an access key names a key
  that verifies the value.
\<close>

definition carries_grant :: "('d, 'priv, 'pub) env \<Rightarrow> string \<Rightarrow> bytes \<Rightarrow> bool" where
  "carries_grant E key val \<longleftrightarrow>
     (case (acFilter_extractPubKey E key, c_unmarshal (pb_sig (lib_pb E)) val) of
        (Some pub, Inr sd) \<Rightarrow> k_verify (key_ops E) pub (contents (sd_value sd)) (contents (sd_sign sd)) = Inr True
      | _ \<Rightarrow> False)"

lemma acFilter_iff: "acFilter E e \<longleftrightarrow> carries_grant E (e_key e) (contents (e_value e))"
  by (auto simp: acFilter_def carries_grant_def split: option.splits sum.splits)

lemma ac_verify_eq:
  assumes Q: "query_lib_ok nk (lib_q E)"
    and acc: "st_accessFromKey b (trim_prefix key ''/'') = access" "access \<noteq> []"
    and ak: "accessKey E pub access = acKey" "acKey \<noteq> []"
    and rs: "st_acQuery E b acKey = Inr rs" "\<And>r. r \<in> set rs \<Longrightarrow> r_error r = None"
  shows "ac_verify E b pub key = Inr (\<exists>r \<in> set rs. carries_grant E (e_key r) (contents (e_value r)))"
proof -
  let ?l = "naiveFilter (lib_q E) rs (acFilter E)"
  have l: "?l = filter (\<lambda>r. acFilter E (entry_of r)) rs"
    unfolding query_lib_okD(1) [OF Q] by (rule filter_cong) (simp_all add: rs(2))
  have "results_rest (lib_q E) ?l = Inr (map entry_of ?l)"
    by (rule query_lib_okD(7) [OF Q]) (simp add: l rs(2))
  then have "ac_verify E b pub key = Inr (0 < length ?l)"
    using acc ak rs(1) by (simp add: ac_verify_def Let_def)
  also have "0 < length ?l \<longleftrightarrow> (\<exists>r \<in> set rs. carries_grant E (e_key r) (contents (e_value r)))"
    unfolding l length_greater_0_conv by (auto simp: filter_empty_conv acFilter_iff)
  finally show ?thesis .
qed

subsection \<open>Over a signature store\<close>

definition sg_grants :: "('d, 'priv, 'pub) env \<Rightarrow> (string \<rightharpoonup> bytes) \<Rightarrow> string \<Rightarrow> string \<Rightarrow> bool" where
  "sg_grants E m acKey k \<longleftrightarrow> (\<exists>v val. m k = Some v \<and> acKey \<in> set (key_parts k)
     \<and> sig_value E v = Inr val \<and> carries_grant E k (contents val))"

abbreviation exist_query :: "string \<Rightarrow> query" where
  "exist_query acKey \<equiv> empty_query\<lparr>q_filters := [KeyExistFilter acKey]\<rparr>"

lemma exist_query_results:
  assumes E: "env_ok E els" and run: "base_Query E s [exist_query acKey] = Inr rs"
  shows "r \<in> set rs \<Longrightarrow> r_error r = None"
    and "r \<in> set rs \<Longrightarrow> base_table els s (e_key r) = Some (contents (e_value r)) \<and> acKey \<in> set (key_parts (e_key r))"
    and "base_table els s k = Some v \<Longrightarrow> acKey \<in> set (key_parts k) \<Longrightarrow>
      \<exists>r \<in> set rs. e_key r = k \<and> contents (e_value r) = v"
proof -
  have ans: "answers (newKey (lib_ds E)) (exist_query acKey) (base_table els s) rs"
    using base_Query_answers [OF E run] by simp
  show "r_error r = None" if "r \<in> set rs"
    by (rule answers_sound(1) [OF ans _ _ that]) simp_all
  show "base_table els s (e_key r) = Some (contents (e_value r)) \<and> acKey \<in> set (key_parts (e_key r))"
    if "r \<in> set rs"
    using answers_sound(2,3) [OF ans _ _ that] exhibits_value [of "exist_query acKey" _ "entry_of r"]
    by (simp add: selects_def KeyExistFilter_iff)
  assume k: "base_table els s k = Some v" "acKey \<in> set (key_parts k)"
  from ans obtain es where full: "full_answer (newKey (lib_ds E)) (exist_query acKey) (base_table els s) es"
    and rs: "rs = map ok_result (window (exist_query acKey) es)"
    by (rule answersE) simp_all
  have "k \<in> e_key ` set es"
    using k by (intro full_answer_covers [OF full]) (auto simp: selects_def prefix_selects_def KeyExistFilter_iff)
  then obtain e where e: "e \<in> set es" "e_key e = k" by blast
  with exhibits_value [OF full_answerD(1) [OF full e(1)]] k(1) have "contents (e_value e) = v" by simp
  with e rs show "\<exists>r \<in> set rs. e_key r = k \<and> contents (e_value r) = v"
    by (intro bexI [of _ "ok_result e"]) simp_all
qed

lemma sg_acQuery_live:
  assumes "ds_live (lib_ds E) els"
  obtains rs where "base_Query E (sg_base s) [exist_query acKey] = Inr rs"
    "sg_acQuery E s acKey = Inr (decode_results (sig_value E) rs)"
proof -
  from ds_liveD(4) [OF assms] obtain rs where "base_Query E (sg_base s) [exist_query acKey] = Inr rs"
    by (auto simp: base_Query_def is_ok_iff)
  then show thesis by (intro that) (simp_all add: sg_acQuery_def sg_Query_def)
qed

lemma ac_verify_signature:
  assumes E: "env_ok E els" "ds_live (lib_ds E) els" "query_lib_ok nk (lib_q E)"
    and acc: "sg_accessFromKey (trim_prefix key ''/'') = access" "access \<noteq> []"
    and ak: "accessKey E pub access = acKey" "acKey \<noteq> []"
  shows "ac_verify E (SignatureStore s) pub key = Inr (\<exists>k. sg_grants E (sg_table els s) acKey k)"
proof -
  from E(2) obtain rs0 where rs0: "base_Query E (sg_base s) [exist_query acKey] = Inr rs0"
    and rs: "sg_acQuery E s acKey = Inr (decode_results (sig_value E) rs0)"
    by (rule sg_acQuery_live)
  note res = exist_query_results [OF E(1) rs0]
  have "ac_verify E (SignatureStore s) pub key = Inr (\<exists>r \<in> set (decode_results (sig_value E) rs0).
      carries_grant E (e_key r) (contents (e_value r)))"
    by (rule ac_verify_eq [OF E(3) _ acc(2) ak])
      (simp_all add: acc(1) rs decode_results_errors [OF res(1)])
  also have "(\<exists>r \<in> set (decode_results (sig_value E) rs0). carries_grant E (e_key r) (contents (e_value r)))
      \<longleftrightarrow> (\<exists>k. sg_grants E (sg_table els s) acKey k)"
  proof
    assume "\<exists>r \<in> set (decode_results (sig_value E) rs0). carries_grant E (e_key r) (contents (e_value r))"
    then obtain r v where r: "r \<in> set rs0" "sig_value E (contents (e_value r)) = Inr v"
      "carries_grant E (e_key r) (contents v)"
      by (auto simp: decode_results_set)
    with res(2) [OF r(1)] have "sg_grants E (sg_table els s) acKey (e_key r)"
      by (auto simp: sg_grants_def sg_table_def)
    then show "\<exists>k. sg_grants E (sg_table els s) acKey k" ..
  next
    assume "\<exists>k. sg_grants E (sg_table els s) acKey k"
    then obtain k v val where k: "sg_table els s k = Some v" "acKey \<in> set (key_parts k)"
      "sig_value E v = Inr val" "carries_grant E k (contents val)"
      by (auto simp: sg_grants_def)
    with res(3) [OF k(1) [unfolded sg_table_def] k(2)] obtain r where
      r: "r \<in> set rs0" "e_key r = k" "contents (e_value r) = v" by blast
    with k have "r\<lparr>e_value := val\<rparr> \<in> set (decode_results (sig_value E) rs0)"
      by (auto simp: decode_results_set)
    moreover have "carries_grant E (e_key (r\<lparr>e_value := val\<rparr>)) (contents (e_value (r\<lparr>e_value := val\<rparr>)))"
      using k(4) r(2) by simp
    ultimately show "\<exists>r \<in> set (decode_results (sig_value E) rs0).
        carries_grant E (e_key r) (contents (e_value r))" by (rule bexI [rotated])
  qed
  finally show ?thesis .
qed

subsection \<open>Over a hash store\<close>

definition hs_grants :: "('d, 'priv, 'pub) env \<Rightarrow> slice \<Rightarrow> (string \<rightharpoonup> bytes) \<Rightarrow> string \<Rightarrow> string \<Rightarrow> bool" where
  "hs_grants E salt m acKey k \<longleftrightarrow>
     (\<exists>v data. m k = Some v \<and> hd (key_parts k) = MakeHashKey E acKey salt
        \<and> c_unmarshal (pb_hash (lib_pb E)) v = Inr data
        \<and> carries_grant E (hd_baseHash data) (contents (hd_value data)))"

lemma MakeHashKey_parts: "key_parts (MakeHashKey E b salt) = [MakeHashKey E b salt]"
  using MakeHashKey_no_slash [of E b salt]
  by (cases "MakeHashKey E b salt") (auto simp: key_parts_def go_split_no_sep)

lemma MakeHashKey_not_star: "MakeHashKey E b salt \<noteq> ''*''"
  unfolding MakeHashKey_def Let_def by (rule b64_encode_hd_not_star)

lemma KeyMatch_hash: "KeyMatchFilter (MakeHashKey E b salt) e \<longleftrightarrow> hd (key_parts (e_key e)) = MakeHashKey E b salt"
proof -
  have "''*'' \<notin> set (key_parts (MakeHashKey E b salt))"
    using MakeHashKey_not_star [of E b salt] by (auto simp: MakeHashKey_parts)
  from KeyMatchFilter_no_wildcard [OF this, of e] show ?thesis
    by (cases "key_parts (e_key e)") (auto simp: MakeHashKey_parts)
qed

lemma decode_hash_results_set:
  "r' \<in> set (decode_hash_results E rs) \<longleftrightarrow>
     (\<exists>r \<in> set rs. \<exists>data. c_unmarshal (pb_hash (lib_pb E)) (contents (e_value r)) = Inr data
        \<and> r' = r\<lparr>e_key := hd_baseHash data, e_value := hd_value data\<rparr>)"
  by (induction rs) (auto split: sum.splits)

abbreviation match_query :: "string \<Rightarrow> query" where
  "match_query key \<equiv> empty_query\<lparr>q_filters := [KeyMatchFilter key]\<rparr>"

lemma match_query_results:
  assumes E: "env_ok E els" and run: "base_Query E s [match_query (MakeHashKey E a salt)] = Inr rs"
  shows "r \<in> set rs \<Longrightarrow> r_error r = None"
    and "r \<in> set rs \<Longrightarrow> base_table els s (e_key r) = Some (contents (e_value r))
      \<and> hd (key_parts (e_key r)) = MakeHashKey E a salt"
    and "base_table els s k = Some v \<Longrightarrow> hd (key_parts k) = MakeHashKey E a salt \<Longrightarrow>
      \<exists>r \<in> set rs. e_key r = k \<and> contents (e_value r) = v"
proof -
  let ?q = "match_query (MakeHashKey E a salt)"
  have ans: "answers (newKey (lib_ds E)) ?q (base_table els s) rs"
    using base_Query_answers [OF E run] by simp
  show "r_error r = None" if "r \<in> set rs"
    by (rule answers_sound(1) [OF ans _ _ that]) simp_all
  show "base_table els s (e_key r) = Some (contents (e_value r)) \<and> hd (key_parts (e_key r)) = MakeHashKey E a salt"
    if "r \<in> set rs"
    using answers_sound(2,3) [OF ans _ _ that] exhibits_value [of ?q _ "entry_of r"]
    by (simp add: selects_def KeyMatch_hash)
  assume k: "base_table els s k = Some v" "hd (key_parts k) = MakeHashKey E a salt"
  from ans obtain es where full: "full_answer (newKey (lib_ds E)) ?q (base_table els s) es"
    and rs: "rs = map ok_result (window ?q es)"
    by (rule answersE) simp_all
  have "k \<in> e_key ` set es"
    using k by (intro full_answer_covers [OF full]) (auto simp: selects_def prefix_selects_def KeyMatch_hash)
  then obtain e where e: "e \<in> set es" "e_key e = k" by blast
  with exhibits_value [OF full_answerD(1) [OF full e(1)]] k(1) have "contents (e_value e) = v" by simp
  with e rs show "\<exists>r \<in> set rs. e_key r = k \<and> contents (e_value r) = v"
    by (intro bexI [of _ "ok_result e"]) simp_all
qed

lemma ac_verify_hash:
  assumes E: "env_ok E els" "ds_live (lib_ds E) els" "query_lib_ok nk (lib_q E)"
    and key: "trim_prefix key ''/'' \<noteq> []"
    and ak: "accessKey E pub (trim_prefix key ''/'') = acKey" "acKey \<noteq> []"
  shows "ac_verify E (HashStore s) pub key = Inr (\<exists>k. hs_grants E (hs_salt s) (hs_table els s) acKey k)"
proof -
  from ds_liveD(4) [OF E(2)] obtain rs0 where
    rs0: "base_Query E (hs_base s) [match_query (MakeHashKey E acKey (hs_salt s))] = Inr rs0"
    by (auto simp: base_Query_def is_ok_iff)
  then have rs: "hs_acQuery E s acKey = Inr (decode_hash_results E rs0)"
    by (simp add: hs_acQuery_def)
  note res = match_query_results [OF E(1) rs0]
  have "ac_verify E (HashStore s) pub key =
      Inr (\<exists>r \<in> set (decode_hash_results E rs0). carries_grant E (e_key r) (contents (e_value r)))"
    by (rule ac_verify_eq [OF E(3) _ key ak])
      (auto simp: hs_accessFromKey_def rs decode_hash_results_set res(1))
  also have "(\<exists>r \<in> set (decode_hash_results E rs0). carries_grant E (e_key r) (contents (e_value r)))
      \<longleftrightarrow> (\<exists>k. hs_grants E (hs_salt s) (hs_table els s) acKey k)"
  proof
    assume "\<exists>r \<in> set (decode_hash_results E rs0). carries_grant E (e_key r) (contents (e_value r))"
    then obtain r data where r: "r \<in> set rs0"
      "c_unmarshal (pb_hash (lib_pb E)) (contents (e_value r)) = Inr data"
      "carries_grant E (hd_baseHash data) (contents (hd_value data))"
      by (auto simp: decode_hash_results_set)
    with res(2) [OF r(1)] have "hs_grants E (hs_salt s) (hs_table els s) acKey (e_key r)"
      by (auto simp: hs_grants_def hs_table_def)
    then show "\<exists>k. hs_grants E (hs_salt s) (hs_table els s) acKey k" ..
  next
    assume "\<exists>k. hs_grants E (hs_salt s) (hs_table els s) acKey k"
    then obtain k v data where k: "hs_table els s k = Some v" "hd (key_parts k) = MakeHashKey E acKey (hs_salt s)"
      "c_unmarshal (pb_hash (lib_pb E)) v = Inr data"
      "carries_grant E (hd_baseHash data) (contents (hd_value data))"
      by (auto simp: hs_grants_def)
    with res(3) [OF k(1) [unfolded hs_table_def] k(2)] obtain r where
      r: "r \<in> set rs0" "e_key r = k" "contents (e_value r) = v" by blast
    let ?r = "r\<lparr>e_key := hd_baseHash data, e_value := hd_value data\<rparr>"
    from r k have "?r \<in> set (decode_hash_results E rs0)"
      by (auto simp: decode_hash_results_set)
    moreover have "carries_grant E (e_key ?r) (contents (e_value ?r))" using k(4) by simp
    ultimately show "\<exists>r \<in> set (decode_hash_results E rs0). carries_grant E (e_key r) (contents (e_value r))"
      by (rule bexI [rotated])
  qed
  finally show ?thesis .
qed

subsection \<open>Access keys name the master key\<close>

lemma accessKey_Some:
  assumes "accessKey E pub access \<noteq> []"
  obtains sKey m where "sKey = PubKeyToStr (lib_id E) (crypto E) pub" "sKey \<noteq> []"
    "c_marshal (pb_access (lib_pb E)) \<lparr>ak_masterKey = sKey, ak_access = access\<rparr> = Inr m"
    "accessKey E pub access = b64_encode m"
  using assms by (auto simp: accessKey_def Let_def split: if_splits sum.splits)

lemma component_key_accessKey:
  assumes L: "libs_ok E" and ne: "accessKey E pub access \<noteq> []"
  obtains vk where "pub = Some vk" "component_key E (accessKey E pub access) = Some vk"
proof -
  from ne obtain sKey m where s: "sKey = PubKeyToStr (lib_id E) (crypto E) pub" "sKey \<noteq> []"
    and m: "c_marshal (pb_access (lib_pb E)) \<lparr>ak_masterKey = sKey, ak_access = access\<rparr> = Inr m"
    and ak: "accessKey E pub access = b64_encode m"
    by (rule accessKey_Some)
  from s StrToPubKey_PubKeyToStr [OF libs_okD(2) [OF L] libs_okD(3) [OF L], of pub] obtain vk where
    vk: "pub = Some vk" "StrToPubKey (lib_id E) (crypto E) sKey = Inr vk" by metis
  have "component_key E (accessKey E pub access) = Some vk"
    unfolding ak using protos_okD(2) [OF libs_okD(1) [OF L] m] vk(2) by (simp add: component_key_def)
  with vk(1) show thesis by (rule that)
qed

lemma accessKey_plain: "accessKey E pub access \<noteq> [] \<Longrightarrow> plain_component (accessKey E pub access)"
proof -
  assume ne: "accessKey E pub access \<noteq> []"
  then obtain m where "accessKey E pub access = b64_encode m" by (rule accessKey_Some)
  with ne b64_encode_hd_not_dot [of m] show ?thesis by (simp add: plain_component_def)
qed

lemma plain_parts: "plain_component p \<Longrightarrow> key_parts p = [p]"
  by (cases p) (auto simp: plain_component_def key_parts_def go_split_no_sep)

text \<open>The value \<open>Grant\<close> signs and the filter checks.\<close>

lemma carries_grant_signed:
  assumes L: "libs_ok E" and pair: "key_pair (key_ops E) sk vk"
    and first: "acFilter_extractPubKey E key = Some vk"
    and sign: "k_sign (key_ops E) sk val = Inr sign"
    and m: "c_marshal (pb_sig (lib_pb E)) \<lparr>sd_value = Some val, sd_sign = Some sign\<rparr> = Inr msd"
  shows "carries_grant E key msd"
  using protos_okD(4) [OF libs_okD(1) [OF L] m] pair sign first
  by (simp add: carries_grant_def key_pair_def)

lemma ac_Grant_ok:
  assumes "ac_Grant E now val access priv pub b = (b', None)"
  obtains sk sign msd where "priv = Some sk" "k_sign (key_ops E) sk val = Inr sign"
    "c_marshal (pb_sig (lib_pb E)) \<lparr>sd_value = Some val, sd_sign = Some sign\<rparr> = Inr msd"
    "accessKey E pub access \<noteq> []" "st_Put E now (accessKey E pub access) msd b = (b', None)"
  using assms by (auto simp: ac_Grant_def Let_def split: option.splits sum.splits if_splits)

lemma grant_value_nonempty:
  assumes L: "libs_ok E" and m: "c_marshal (pb_sig (lib_pb E)) \<lparr>sd_value = Some val, sd_sign = sg\<rparr> = Inr msd"
    and val: "val \<noteq> []"
  shows "msd \<noteq> []"
  using protos_okD(4,8) [OF libs_okD(1) [OF L]] m val by (force simp: zero_sig_def canon_sig_def canon_slice_def)

text \<open>A grant written into a signature store.\<close>

lemma Grant_signature_key:
  assumes E: "env_ok E els" "libs_ok E"
    and pair: "\<And>sk vk. priv = Some sk \<Longrightarrow> pub = Some vk \<Longrightarrow> key_pair (key_ops E) sk vk"
    and own: "component_key E (PubKeyToStr (lib_id E) (crypto E) (sg_pub s)) = None"
    and grant: "ac_Grant E now val access priv pub (SignatureStore s) = (b', None)"
    and val: "val \<noteq> []"
  obtains s' where "b' = SignatureStore s'" "sg_pub s' = sg_pub s"
    "sg_grants E (sg_table els s') (accessKey E pub access)
       (CHR ''/'' # PubKeyToStr (lib_id E) (crypto E) (sg_pub s) @ CHR ''/'' # accessKey E pub access)"
proof -
  let ?ak = "accessKey E pub access"
  from grant obtain sk sign msd where sk: "priv = Some sk" "k_sign (key_ops E) sk val = Inr sign"
    and m: "c_marshal (pb_sig (lib_pb E)) \<lparr>sd_value = Some val, sd_sign = Some sign\<rparr> = Inr msd"
    and ne: "?ak \<noteq> []" and put: "st_Put E now ?ak msd (SignatureStore s) = (b', None)"
    by (rule ac_Grant_ok)
  from put obtain s' where b': "b' = SignatureStore s'" and sput: "sg_Put E ?ak msd s = (s', None)"
    by (auto split: prod.splits)
  from sg_Put_ok [OF E(1) sput] obtain sKey rec where
    r: "signed_record E (sg_priv s) (sg_pub s) msd = Inr (sKey, rec)"
    and tab: "sg_table els s' = (sg_table els s)(newKey (lib_ds E) (sKey @ ''/'' @ ?ak) \<mapsto> rec)"
    and pub': "sg_pub s' = sg_pub s" .
  have plain: "plain_component sKey" by (rule signed_record_key [OF E(2) r])
  have sKey: "sKey = PubKeyToStr (lib_id E) (crypto E) (sg_pub s)"
    using r by (rule signed_record_Inr)
  let ?k = "CHR ''/'' # sKey @ CHR ''/'' # ?ak"
  have nk: "newKey (lib_ds E) (sKey @ ''/'' @ ?ak) = ?k"
    using signed_key [OF ds_okD(1) [OF env_okD(1) [OF E(1)]] plain plain_clean [OF accessKey_plain [OF ne]]]
    by simp
  from E(2) ne obtain vk where vk: "pub = Some vk" "component_key E ?ak = Some vk"
    by (rule component_key_accessKey)
  have parts: "key_parts ?k = [sKey, ?ak]"
    using plain accessKey_plain [OF ne] by (simp add: go_split_append go_split_no_sep plain_component_def)
  have "carries_grant E ?k msd"
    by (rule carries_grant_signed [OF E(2) pair [OF sk(1) vk(1)] _ sk(2) m])
      (simp only: acFilter_extractPubKey_def parts, simp add: own [folded sKey] vk(2))
  moreover have "sig_value E rec = Inr (Some msd)"
    using signed_record_value [OF E(2) r] grant_value_nonempty [OF E(2) m val] by simp
  moreover have "sg_table els s' ?k = Some rec" unfolding tab nk by simp
  ultimately have "sg_grants E (sg_table els s') ?ak ?k"
    unfolding sg_grants_def parts by auto
  with b' pub' show thesis unfolding sKey by (rule that)
qed

lemma Grant_signature:
  assumes "env_ok E els" "libs_ok E"
    and "\<And>sk vk. priv = Some sk \<Longrightarrow> pub = Some vk \<Longrightarrow> key_pair (key_ops E) sk vk"
    and "component_key E (PubKeyToStr (lib_id E) (crypto E) (sg_pub s)) = None"
    and "ac_Grant E now val access priv pub (SignatureStore s) = (b', None)" "val \<noteq> []"
  obtains s' k where "b' = SignatureStore s'" "sg_pub s' = sg_pub s"
    "sg_grants E (sg_table els s') (accessKey E pub access) k"
  by (rule Grant_signature_key [OF assms])

text \<open>A grant written into a hash store.\<close>

lemma Grant_hash_key:
  assumes E: "env_ok E els" "libs_ok E" "kdf_ok E"
    and pair: "\<And>sk vk. priv = Some sk \<Longrightarrow> pub = Some vk \<Longrightarrow> key_pair (key_ops E) sk vk"
    and grant: "ac_Grant E now val access priv pub (HashStore s) = (b', None)"
    and val: "val \<noteq> []"
  obtains s' where "b' = HashStore s'" "hs_salt s' = hs_salt s"
    "hs_grants E (hs_salt s) (hs_table els s') (accessKey E pub access)
       (CHR ''/'' # MakeHashKey E (accessKey E pub access) (hs_salt s))"
proof -
  let ?ak = "accessKey E pub access"
  from grant obtain sk sign msd where sk: "priv = Some sk" "k_sign (key_ops E) sk val = Inr sign"
    and m: "c_marshal (pb_sig (lib_pb E)) \<lparr>sd_value = Some val, sd_sign = Some sign\<rparr> = Inr msd"
    and ne: "?ak \<noteq> []" and put: "st_Put E now ?ak msd (HashStore s) = (b', None)"
    by (rule ac_Grant_ok)
  from put obtain s' where b': "b' = HashStore s'" and hput: "hs_Put E ?ak msd s = (s', None)"
    by (auto split: prod.splits)
  from hs_Put_ok [OF E(1) hput] obtain rec where
    rec: "c_marshal (pb_hash (lib_pb E)) \<lparr>hd_baseHash = ?ak, hd_salt = hs_salt s, hd_value = Some msd\<rparr> = Inr rec"
    and tab: "hs_table els s' = (hs_table els s)(newKey (lib_ds E) (MakeHashKey E ?ak (hs_salt s)) \<mapsto> rec)"
    and salt: "hs_salt s' = hs_salt s" .
  let ?k = "CHR ''/'' # MakeHashKey E ?ak (hs_salt s)"
  have nk: "newKey (lib_ds E) (MakeHashKey E ?ak (hs_salt s)) = ?k"
    by (rule newKey_hash [OF ds_okD(1) [OF env_okD(1) [OF E(1)]] E(3)])
  from E(2) ne obtain vk where vk: "pub = Some vk" "component_key E ?ak = Some vk"
    by (rule component_key_accessKey)
  have "carries_grant E ?ak msd"
    by (rule carries_grant_signed [OF E(2) pair [OF sk(1) vk(1)] _ sk(2) m])
      (simp add: acFilter_extractPubKey_def plain_parts [OF accessKey_plain [OF ne]] vk(2))
  with protos_okD(3) [OF libs_okD(1) [OF E(2)] rec] tab nk
  have "hs_grants E (hs_salt s) (hs_table els s') ?ak ?k"
    by (simp add: hs_grants_def go_split_no_sep)
  with b' salt show thesis by (rule that)
qed

lemma Grant_hash:
  assumes "env_ok E els" "libs_ok E" "kdf_ok E"
    and "\<And>sk vk. priv = Some sk \<Longrightarrow> pub = Some vk \<Longrightarrow> key_pair (key_ops E) sk vk"
    and "ac_Grant E now val access priv pub (HashStore s) = (b', None)" "val \<noteq> []"
  obtains s' k where "b' = HashStore s'" "hs_salt s' = hs_salt s"
    "hs_grants E (hs_salt s) (hs_table els s') (accessKey E pub access) k"
  by (rule Grant_hash_key [OF assms])

section \<open>What a passed check shows\<close>

text \<open>
  Over a hash store whose records are consistent, except those under the keys \<open>U\<close>, the check is sound:
  the record found carries a signature of the master key itself, unless it is one of the exceptions or
  shows a collision of the hash, another base string with the hash of the access key.
\<close>

lemma hash_check_sound:
  assumes L: "libs_ok E" and ne: "accessKey E (Some vk) access \<noteq> []"
    and cons: "\<And>k v. m k = Some v \<Longrightarrow> k \<notin> U \<Longrightarrow> hash_consistent E k v"
    and found: "hs_grants E salt m (accessKey E (Some vk) access) k"
  obtains v data where "m k = Some v" "hd (key_parts k) = MakeHashKey E (accessKey E (Some vk) access) salt"
    "c_unmarshal (pb_hash (lib_pb E)) v = Inr data"
    "k \<in> U
     \<or> hd_baseHash data \<noteq> accessKey E (Some vk) access
       \<and> MakeHashKey E (hd_baseHash data) (hd_salt data) = MakeHashKey E (accessKey E (Some vk) access) salt
     \<or> hd_baseHash data = accessKey E (Some vk) access
       \<and> (\<exists>sd. c_unmarshal (pb_sig (lib_pb E)) (contents (hd_value data)) = Inr sd
           \<and> k_verify (key_ops E) vk (contents (sd_value sd)) (contents (sd_sign sd)) = Inr True)"
proof -
  let ?ak = "accessKey E (Some vk) access"
  from found obtain v data where v: "m k = Some v" "hd (key_parts k) = MakeHashKey E ?ak salt"
    "c_unmarshal (pb_hash (lib_pb E)) v = Inr data"
    and c: "carries_grant E (hd_baseHash data) (contents (hd_value data))"
    by (auto simp: hs_grants_def)
  have hash: "MakeHashKey E (hd_baseHash data) (hd_salt data) = MakeHashKey E ?ak salt" if "k \<notin> U"
  proof -
    from cons [OF v(1) that] v(3) have "trim_prefix k ''/'' = MakeHashKey E (hd_baseHash data) (hd_salt data)"
      by (simp add: hash_consistent_def)
    with v(2) show ?thesis by (simp add: key_parts_def go_split_no_sep)
  qed
  from L ne have comp: "component_key E ?ak = Some vk"
    by (rule component_key_accessKey) simp
  have sig: "\<exists>sd. c_unmarshal (pb_sig (lib_pb E)) (contents (hd_value data)) = Inr sd
      \<and> k_verify (key_ops E) vk (contents (sd_value sd)) (contents (sd_sign sd)) = Inr True"
    if base: "hd_baseHash data = ?ak"
    using c by (auto simp: carries_grant_def base acFilter_extractPubKey_def plain_parts [OF accessKey_plain [OF ne]] comp
        split: sum.splits)
  from hash sig have "k \<in> U
     \<or> hd_baseHash data \<noteq> ?ak \<and> MakeHashKey E (hd_baseHash data) (hd_salt data) = MakeHashKey E ?ak salt
     \<or> hd_baseHash data = ?ak \<and> (\<exists>sd. c_unmarshal (pb_sig (lib_pb E)) (contents (hd_value data)) = Inr sd
           \<and> k_verify (key_ops E) vk (contents (sd_value sd)) (contents (sd_sign sd)) = Inr True)" by blast
  with v show thesis by (rule that)
qed

text \<open>
  Over a signature store it is not: the filter takes the master key from the first component that
  decodes to an access key, so a writer who signs with a key of his own and puts an access key of
  his own before the master's grants himself. His record is an ordinary signed record.
\<close>

lemma self_grant_record:
  assumes E: "env_ok E els" "libs_ok E" and pair: "key_pair (key_ops E) sk vk"
    and mine: "sg_priv s = Some sk" "sg_pub s = Some vk"
    and own: "component_key E (PubKeyToStr (lib_id E) (crypto E) (Some vk)) = None"
    and evil: "accessKey E (Some vk) access' \<noteq> []" and ak: "accessKey E pub access \<noteq> []"
    and sign: "k_sign (key_ops E) sk val = Inr sign" "val \<noteq> []"
    and m: "c_marshal (pb_sig (lib_pb E)) \<lparr>sd_value = Some val, sd_sign = Some sign\<rparr> = Inr msd"
    and put: "sg_Put E (accessKey E (Some vk) access' @ ''/'' @ accessKey E pub access) msd s = (s', None)"
  obtains k where "sg_grants E (sg_table els s') (accessKey E pub access) k"
proof -
  let ?evil = "accessKey E (Some vk) access'" and ?ak = "accessKey E pub access"
  let ?key = "?evil @ CHR ''/'' # ?ak"
  from sg_Put_ok [OF E(1) put] obtain sKey rec where
    r: "signed_record E (sg_priv s) (sg_pub s) msd = Inr (sKey, rec)"
    and tab: "sg_table els s' = (sg_table els s)(newKey (lib_ds E) (sKey @ ''/'' @ ?evil @ ''/'' @ ?ak) \<mapsto> rec)" .
  have plain: "plain_component sKey" by (rule signed_record_key [OF E(2) r])
  have sKey: "sKey = PubKeyToStr (lib_id E) (crypto E) (Some vk)"
    using r unfolding mine by (rule signed_record_Inr)
  have clean: "clean_path ?key"
    using accessKey_plain [OF evil] accessKey_plain [OF ak] by (simp add: clean_path_append plain_clean)
  let ?k = "CHR ''/'' # sKey @ CHR ''/'' # ?key"
  have nk: "newKey (lib_ds E) (sKey @ ''/'' @ ?evil @ ''/'' @ ?ak) = ?k"
    using signed_key [OF ds_okD(1) [OF env_okD(1) [OF E(1)]] plain clean] by simp
  from E(2) evil have vk: "component_key E ?evil = Some vk"
    by (rule component_key_accessKey) simp
  have parts: "key_parts ?k = [sKey, ?evil, ?ak]"
    using plain accessKey_plain [OF evil] accessKey_plain [OF ak]
    by (simp add: go_split_append go_split_no_sep plain_component_def)
  have "carries_grant E ?k msd"
    by (rule carries_grant_signed [OF E(2) pair _ sign(1) m])
      (simp only: acFilter_extractPubKey_def parts, simp add: own [folded sKey] vk)
  moreover have "sig_value E rec = Inr (Some msd)"
    using signed_record_value [OF E(2) r] grant_value_nonempty [OF E(2) m sign(2)] by simp
  moreover have "sg_table els s' ?k = Some rec" unfolding tab nk by simp
  ultimately have "sg_grants E (sg_table els s') ?ak ?k"
    unfolding sg_grants_def parts by auto
  then show thesis by (rule that)
qed

subsection \<open>Over an updatable signature store\<close>

lemma us_acQuery_newest:
  assumes E: "env_ok E els" and run: "us_acQuery E s acKey = Inr rs"
  shows "r \<in> set rs \<Longrightarrow> r_error r = None"
    and "r \<in> set rs \<Longrightarrow> \<exists>v. sg_table els s (e_key r) = Some v \<and> acKey \<in> set (key_parts (e_key r))
      \<and> sig_value E v = Inr (e_value r)"
proof -
  from run obtain rs0 where rs0: "upd_Query E (sg_base s) [exist_query acKey] = Inr rs0"
    and rs: "rs = decode_results (sig_value E) rs0"
    by (auto simp: us_acQuery_def us_Query_def us_baseQuery_def split: sum.splits)
  note new = upd_Query_newest [OF E key_query_exist(1) rs0]
  show "r_error r = None" if "r \<in> set rs"
    using decode_results_errors [OF new(4)] that unfolding rs by blast
  assume "r \<in> set rs"
  then obtain r0 v where r0: "r0 \<in> set rs0" "sig_value E (contents (e_value r0)) = Inr v" "r = r0\<lparr>e_value := v\<rparr>"
    unfolding rs decode_results_set by blast
  from new(2) [OF r0(1)] have "base_table els (sg_base s) (e_key r0) = Some (contents (e_value r0))"
    and "acKey \<in> set (key_parts (e_key r0))"
    by (simp_all add: newest_def)
  with r0 show "\<exists>v. sg_table els s (e_key r) = Some v \<and> acKey \<in> set (key_parts (e_key r))
      \<and> sig_value E v = Inr (e_value r)"
    by (simp add: sg_table_def)
qed

text \<open>A passed check has found a record that grants.\<close>

lemma ac_verify_updatable:
  assumes E: "env_ok E els" "query_lib_ok nk (lib_q E)"
    and ok: "ac_verify E (UpdatableSignatureStore s) pub key = Inr True"
  obtains k where
    "sg_grants E (sg_table els s) (accessKey E pub (us_accessFromKey (trim_prefix key ''/''))) k"
proof -
  let ?access = "us_accessFromKey (trim_prefix key ''/'')"
  from ok obtain rs where acc: "?access \<noteq> []" "accessKey E pub ?access \<noteq> []"
    and rs: "us_acQuery E s (accessKey E pub ?access) = Inr rs"
    by (auto simp: ac_verify_def Let_def split: if_splits sum.splits)
  note new = us_acQuery_newest [OF E(1) rs]
  have "ac_verify E (UpdatableSignatureStore s) pub key =
      Inr (\<exists>r \<in> set rs. carries_grant E (e_key r) (contents (e_value r)))"
    by (rule ac_verify_eq [OF E(2) _ acc(1) refl acc(2)]) (simp_all add: rs new(1))
  with ok obtain r where r: "r \<in> set rs" "carries_grant E (e_key r) (contents (e_value r))" by auto
  with new(2) [OF r(1)] have "sg_grants E (sg_table els s) (accessKey E pub ?access) (e_key r)"
    by (auto simp: sg_grants_def)
  then show thesis by (rule that)
qed

text \<open>A grant that is the newest record of its category passes the check.\<close>

lemma updatable_grant_found:
  assumes E: "env_ok E els" "ds_live (lib_ds E) els" "query_lib_ok nk (lib_q E)"
    and acc: "us_accessFromKey (trim_prefix key ''/'') = access" "access \<noteq> []"
    and ak: "accessKey E pub access = acKey" "acKey \<noteq> []"
    and g: "sg_grants E (sg_table els s) acKey k" "has_category k" "category_of k \<noteq> []"
    and t: "key_time (local_zone E) k = Inr t"
    and older: "\<And>k' t'. k' \<in> dom (sg_table els s) \<Longrightarrow> has_category k' \<Longrightarrow> category_of k' = category_of k \<Longrightarrow>
      k' \<noteq> k \<Longrightarrow> key_time (local_zone E) k' = Inr t' \<Longrightarrow> instant_of t' < instant_of t"
  shows "ac_verify E (UpdatableSignatureStore s) pub key = Inr True"
proof -
  from us_Query_live [OF E(2)] obtain rs where rs: "us_Query E s [exist_query acKey] = Inr rs" .
  from g(1) obtain v val where v: "sg_table els s k = Some v" "acKey \<in> set (key_parts k)"
    "sig_value E v = Inr val" "carries_grant E k (contents val)"
    by (auto simp: sg_grants_def)
  have "\<exists>r \<in> set rs. e_key r = k \<and> e_value r = val"
    by (rule us_Query_delivers [OF E(1) key_query_exist(1) rs v(1) _ g(2,3) v(3) t older])
      (simp_all add: v(2))
  with v(4) have "\<exists>r \<in> set rs. carries_grant E (e_key r) (contents (e_value r))" by auto
  moreover from rs have acq: "us_acQuery E s acKey = Inr rs" by (simp add: us_acQuery_def)
  have "ac_verify E (UpdatableSignatureStore s) pub key =
      Inr (\<exists>r \<in> set rs. carries_grant E (e_key r) (contents (e_value r)))"
    by (rule ac_verify_eq [OF E(3) _ acc(2) ak])
      (simp_all add: acc(1) acq us_acQuery_newest(1) [OF E(1) acq])
  ultimately show ?thesis by simp
qed

section \<open>The guards\<close>

text \<open>A write or a read that an access store lets through has passed the check.\<close>

lemma ac_Put_guarded:
  assumes "st_Put E now key val (AccessStore b priv pub) = (s', None)"
  obtains b' where "ac_Verify E b pub (st_putKey E b key) = None" "st_Put E now key val b = (b', None)"
    "s' = AccessStore b' priv pub"
  using assms by (auto split: option.splits prod.splits)

lemma ac_Put_denied:
  "ac_Verify E b pub (st_putKey E b key) = Some err \<Longrightarrow>
     st_Put E now key val (AccessStore b priv pub) = (AccessStore b priv pub, Some err)"
  by simp

lemma ac_gate_cases:
  "ac_gate E b pub key = None \<longleftrightarrow>
     ac_Verify E b pub key = None \<or> is_hash_store b \<and> ac_Verify E b pub (st_putKey E b key) = None"
  by (auto simp: ac_gate_def split: option.splits)

lemma ac_Query_guarded:
  assumes Q: "query_lib_ok nk (lib_q E)" and run: "st_Query E (AccessStore b priv pub) qs = Inr rs"
    and r: "r \<in> set rs" "r_error r = None"
  obtains rs0 where "st_Query E b [] = Inr rs0" "r \<in> set rs0" "ac_Verify E b pub (e_key r) = None"
proof -
  from run obtain rs0 where rs0: "st_Query E b [] = Inr rs0"
    and rs: "rs = naiveQueryApply (lib_q E)
      ((query_arg qs)\<lparr>q_filters := q_filters (query_arg qs) @ [acVerifyFilter E b pub]\<rparr>) rs0"
    by (auto simp: Let_def split: sum.splits)
  from query_lib_okD(2,3) [OF Q] r have "r \<in> set rs0" "selects nk
      ((query_arg qs)\<lparr>q_filters := q_filters (query_arg qs) @ [acVerifyFilter E b pub]\<rparr>) (entry_of r)"
    unfolding rs by blast+
  then show thesis by (intro that [OF rs0]) (simp_all add: selects_def acVerifyFilter_def)
qed

section \<open>New access stores\<close>

lemma getAccessOpts_pair:
  "getAccessOpts E rnd opts = ((priv, pub), opts') \<Longrightarrow>
     (case opts of [] \<Rightarrow> (priv, pub) = gen_pair E rnd
      | o0 # _ \<Rightarrow> (if so_Pub o0 = None then (priv, pub) = gen_pair E rnd
                   else priv = so_Priv o0 \<and> pub = so_Pub o0))"
  by (auto simp: getAccessOpts_def Let_def split: list.splits if_splits prod.splits)

lemma ac_Grant_table:
  assumes E: "env_ok E els"
  shows "st_table els b \<subseteq>\<^sub>m st_table els (fst (ac_Grant E now val access priv pub b))"
proof -
  have "st_table els b \<subseteq>\<^sub>m st_table els (fst (st_Put E now key v b))" for key v
    using st_store.put_extends [OF E, of b "(now, key, v)"] by simp
  then show ?thesis
    by (auto simp: ac_Grant_def Let_def split: option.splits sum.splits)
qed

text \<open>Two stores of the same implementation, with the same keys; no put changes that.\<close>

fun same_kind :: "('d, 'priv, 'pub) store \<Rightarrow> ('d, 'priv, 'pub) store \<Rightarrow> bool" where
  "same_kind (LogStore _) (LogStore _) = True"
| "same_kind (UpdatableStore _) (UpdatableStore _) = True"
| "same_kind (SignatureStore s) (SignatureStore s') = (sg_pub s = sg_pub s' \<and> sg_priv s = sg_priv s')"
| "same_kind (UpdatableSignatureStore s) (UpdatableSignatureStore s') =
     (sg_pub s = sg_pub s' \<and> sg_priv s = sg_priv s')"
| "same_kind (HashStore s) (HashStore s') = (hs_salt s = hs_salt s')"
| "same_kind (AccessStore b priv pub) (AccessStore b' priv' pub') =
     (same_kind b b' \<and> priv = priv' \<and> pub = pub')"
| "same_kind _ _ = False"

lemma same_kind_refl [simp]: "same_kind s s"
  by (induction s) simp_all

lemma same_kind_trans: "same_kind s t \<Longrightarrow> same_kind t u \<Longrightarrow> same_kind s u"
proof (induction s t arbitrary: u rule: same_kind.induct)
  case (6 b priv pub b' priv' pub')
  then show ?case by (cases u) auto
qed (auto elim: same_kind.elims)

lemma same_kind_map [simp]: "same_kind s (st_map f s)"
  by (induction s) simp_all

lemma st_Put_kind: "st_Put E now key val s = (s', err) \<Longrightarrow> same_kind s s'"
  by (induction s arbitrary: s' key val err)
    (auto simp: sg_Put_def us_Put_def hs_Put_def Let_def split: prod.splits sum.splits option.splits)

lemma st_Put_closed: "st_Put E now key val s = (s', err) \<Longrightarrow> bs_closed (st_base s') = bs_closed (st_base s)
    \<and> bs_name (st_base s') = bs_name (st_base s) \<and> bs_timeLimit (st_base s') = bs_timeLimit (st_base s)
    \<and> bs_inTime (st_base s') = bs_inTime (st_base s)"
proof -
  have base: "base_Put E key val b = (b', err) \<Longrightarrow> bs_closed b' = bs_closed b \<and> bs_name b' = bs_name b
      \<and> bs_timeLimit b' = bs_timeLimit b \<and> bs_inTime b' = bs_inTime b" for key val err and b b' :: "'a base_store"
    by (auto simp: base_Put_def Let_def split: sum.splits bool.splits prod.splits)
  show "st_Put E now key val s = (s', err) \<Longrightarrow> ?thesis"
    by (induction s arbitrary: s' key val err)
      (auto simp: sg_Put_def us_Put_def upd_Put_def hs_Put_def Let_def dest: base
        split: prod.splits sum.splits option.splits)
qed

lemma ac_Grant_kind: "ac_Grant E now val access priv pub b = (b', err) \<Longrightarrow> same_kind b b'"
  by (auto simp: ac_Grant_def Let_def dest: st_Put_kind split: option.splits sum.splits if_splits)

lemma sg_grants_mono: "m \<subseteq>\<^sub>m m' \<Longrightarrow> sg_grants E m ak k \<Longrightarrow> sg_grants E m' ak k"
  by (fastforce simp: sg_grants_def map_le_def dom_def)

lemma hs_grants_mono: "m \<subseteq>\<^sub>m m' \<Longrightarrow> hs_grants E salt m ak k \<Longrightarrow> hs_grants E salt m' ak k"
  by (fastforce simp: hs_grants_def map_le_def dom_def)

text \<open>A grant is found as long as its own record stays.\<close>

lemma grants_kept:
  "m' k = m k \<Longrightarrow> sg_grants E m ak k \<Longrightarrow> sg_grants E m' ak k"
  "m' k = m k \<Longrightarrow> hs_grants E salt m ak k \<Longrightarrow> hs_grants E salt m' ak k"
  by (simp_all add: sg_grants_def hs_grants_def)

lemma grants_stored:
  "sg_grants E m ak k \<Longrightarrow> \<exists>v. m k = Some v"
  "hs_grants E salt m ak k \<Longrightarrow> \<exists>v. m k = Some v"
  by (auto simp: sg_grants_def hs_grants_def)

lemma grant_all_kind: "grant_all E priv pub as b = (b', None) \<Longrightarrow> same_kind b b'"
proof (induction as arbitrary: b)
  case (Cons a as)
  obtain access now val where a: "a = (access, now, val)" by (cases a)
  with Cons.prems obtain b1 where g: "ac_Grant E now val access priv pub b = (b1, None)"
    and rest: "grant_all E priv pub as b1 = (b', None)"
    by (auto split: prod.splits option.splits)
  from ac_Grant_kind [OF g] Cons.IH [OF rest] show ?case by (rule same_kind_trans)
qed simp

lemma grant_all_key:
  "grant_all E priv pub as b = (b', None) \<Longrightarrow> (access, now, val) \<in> set as \<Longrightarrow> accessKey E pub access \<noteq> []"
proof (induction as arbitrary: b)
  case (Cons a as)
  obtain access1 now1 val1 where a: "a = (access1, now1, val1)" by (cases a)
  with Cons.prems(1) obtain b1 where g: "ac_Grant E now1 val1 access1 priv pub b = (b1, None)"
    and rest: "grant_all E priv pub as b1 = (b', None)"
    by (auto split: prod.splits option.splits)
  from Cons.IH [OF rest] Cons.prems(2) a ac_Grant_ok [OF g] show ?case by auto
qed simp

lemma grant_all_table:
  assumes E: "env_ok E els"
  shows "grant_all E priv pub as b = (b', None) \<Longrightarrow> st_table els b \<subseteq>\<^sub>m st_table els b'"
proof (induction as arbitrary: b)
  case (Cons a as)
  obtain access now val where a: "a = (access, now, val)" by (cases a)
  with Cons.prems obtain b1 where g: "ac_Grant E now val access priv pub b = (b1, None)"
    and rest: "grant_all E priv pub as b1 = (b', None)"
    by (auto split: prod.splits option.splits)
  from ac_Grant_table [OF E, of b now val access priv pub] g Cons.IH [OF rest] show ?case
    by (simp add: map_le_trans)
qed simp

text \<open>\<open>NewAccessStore\<close> over a signature store: every access it was given is granted.\<close>

lemma grant_all_signature:
  assumes E: "env_ok E els" "libs_ok E"
    and pair: "\<And>sk vk. priv = Some sk \<Longrightarrow> pub = Some vk \<Longrightarrow> key_pair (key_ops E) sk vk"
    and own: "component_key E (PubKeyToStr (lib_id E) (crypto E) (sg_pub s)) = None"
    and run: "grant_all E priv pub as (SignatureStore s) = (b', None)"
    and vals: "\<And>access now val. (access, now, val) \<in> set as \<Longrightarrow> val \<noteq> []"
  shows "\<exists>s'. b' = SignatureStore s' \<and> sg_pub s' = sg_pub s \<and>
    (\<forall>(access, now, val) \<in> set as. sg_grants E (sg_table els s') (accessKey E pub access)
       (CHR ''/'' # PubKeyToStr (lib_id E) (crypto E) (sg_pub s) @ CHR ''/'' # accessKey E pub access))"
  using own run vals
proof (induction as arbitrary: s)
  case (Cons a as)
  obtain access now val where a: "a = (access, now, val)" by (cases a)
  with Cons.prems(2) obtain b1 where g: "ac_Grant E now val access priv pub (SignatureStore s) = (b1, None)"
    and rest: "grant_all E priv pub as b1 = (b', None)"
    by (auto split: prod.splits option.splits)
  have "val \<noteq> []" by (rule Cons.prems(3) [of access now]) (simp add: a)
  with E pair Cons.prems(1) g obtain s1 where s1: "b1 = SignatureStore s1" "sg_pub s1 = sg_pub s"
    and k: "sg_grants E (sg_table els s1) (accessKey E pub access)
      (CHR ''/'' # PubKeyToStr (lib_id E) (crypto E) (sg_pub s) @ CHR ''/'' # accessKey E pub access)"
    by (rule Grant_signature_key)
  from Cons.IH [of s1] Cons.prems(1,3) rest s1 obtain s' where s': "b' = SignatureStore s'" "sg_pub s' = sg_pub s"
    and all: "\<forall>(access, now, val) \<in> set as. sg_grants E (sg_table els s') (accessKey E pub access)
      (CHR ''/'' # PubKeyToStr (lib_id E) (crypto E) (sg_pub s) @ CHR ''/'' # accessKey E pub access)"
    by force
  from grant_all_table [OF E(1) rest] have "sg_table els s1 \<subseteq>\<^sub>m sg_table els s'"
    by (simp add: s1(1) s'(1) st_table_def sg_table_def)
  from sg_grants_mono [OF this k] all a s' show ?case by auto
qed fastforce

lemma grant_all_hash_key:
  assumes E: "env_ok E els" "libs_ok E" "kdf_ok E"
    and pair: "\<And>sk vk. priv = Some sk \<Longrightarrow> pub = Some vk \<Longrightarrow> key_pair (key_ops E) sk vk"
    and run: "grant_all E priv pub as (HashStore s) = (b', None)"
    and vals: "\<And>access now val. (access, now, val) \<in> set as \<Longrightarrow> val \<noteq> []"
  shows "\<exists>s'. b' = HashStore s' \<and> hs_salt s' = hs_salt s \<and>
    (\<forall>(access, now, val) \<in> set as. hs_grants E (hs_salt s) (hs_table els s') (accessKey E pub access)
       (CHR ''/'' # MakeHashKey E (accessKey E pub access) (hs_salt s)))"
  using run vals
proof (induction as arbitrary: s)
  case (Cons a as)
  obtain access now val where a: "a = (access, now, val)" by (cases a)
  with Cons.prems(1) obtain b1 where g: "ac_Grant E now val access priv pub (HashStore s) = (b1, None)"
    and rest: "grant_all E priv pub as b1 = (b', None)"
    by (auto split: prod.splits option.splits)
  have "val \<noteq> []" by (rule Cons.prems(2) [of access now]) (simp add: a)
  with E pair g obtain s1 where s1: "b1 = HashStore s1" "hs_salt s1 = hs_salt s"
    and k: "hs_grants E (hs_salt s) (hs_table els s1) (accessKey E pub access)
      (CHR ''/'' # MakeHashKey E (accessKey E pub access) (hs_salt s))"
    by (rule Grant_hash_key)
  from Cons.IH [of s1] Cons.prems(2) rest s1 obtain s' where s': "b' = HashStore s'" "hs_salt s' = hs_salt s"
    and all: "\<forall>(access, now, val) \<in> set as. hs_grants E (hs_salt s) (hs_table els s') (accessKey E pub access)
      (CHR ''/'' # MakeHashKey E (accessKey E pub access) (hs_salt s))"
    by force
  from grant_all_table [OF E(1) rest] have "hs_table els s1 \<subseteq>\<^sub>m hs_table els s'"
    by (simp add: s1(1) s'(1) st_table_def hs_table_def)
  from hs_grants_mono [OF this k] all a s' show ?case by auto
qed fastforce

lemma grant_all_hash:
  assumes "env_ok E els" "libs_ok E" "kdf_ok E"
    and "\<And>sk vk. priv = Some sk \<Longrightarrow> pub = Some vk \<Longrightarrow> key_pair (key_ops E) sk vk"
    and "grant_all E priv pub as (HashStore s) = (b', None)"
    and "\<And>access now val. (access, now, val) \<in> set as \<Longrightarrow> val \<noteq> []"
  shows "\<exists>s'. b' = HashStore s' \<and> hs_salt s' = hs_salt s \<and>
    (\<forall>(access, now, val) \<in> set as. \<exists>k. hs_grants E (hs_salt s) (hs_table els s') (accessKey E pub access) k)"
  using grant_all_hash_key [OF assms] by fast

lemma NewAccessStore_ok:
  assumes "NewAccessStore E rnd st accesses opts = (b, Inr ac)"
  obtains priv pub opts' where "getAccessOpts E rnd opts = ((priv, pub), opts')" "is_access_base st"
    "grant_all E priv pub accesses st = (b, None)" "ac = AccessStore b None pub"
  using assms by (auto simp: NewAccessStore_def split: if_splits prod.splits option.splits)

section \<open>Addresses of access stores\<close>

lemma st_Address_access:
  assumes P: "protos_ok (lib_pb E)" "protos_total (lib_pb E)"
    and base: "parseAddress E (st_Address E b) = Inr (name, salt, pid0, lim)"
    and names: "ascii name" "ascii (PubKeyToStr (lib_id E) (crypto E) pub)"
    and lim: "time_marshal lim = Inr mt"
  obtains lim' where
    "parseAddress E (st_Address E (AccessStore b priv pub)) =
       Inr (name, canon_slice salt, PubKeyToStr (lib_id E) (crypto E) pub, lim')"
    "instant_of lim' = instant_of lim"
proof -
  have "st_Address E (AccessStore b priv pub) =
      MakeAddress E name (PubKeyToStr (lib_id E) (crypto E) pub) salt [lim]"
    by (simp add: base Let_def)
  with parse_MakeAddress_instant [OF P names lim, of salt] that show thesis by metis
qed

text \<open>A loaded access store checks against the key in the address, whatever key pair it is given.\<close>

lemma loadAccessStore_pub:
  assumes L: "libs_ok E" and pub: "PubKeyToStr (lib_id E) (crypto E) pub \<noteq> []"
    and base: "is_access_base b"
  obtains priv opts' where
    "loadAccessStore E rnd b (PubKeyToStr (lib_id E) (crypto E) pub) opts = (Inr (AccessStore b priv pub), opts')"
proof -
  from StrToPubKey_PubKeyToStr [OF libs_okD(2) [OF L] libs_okD(3) [OF L] pub] obtain vk where
    vk: "pub = Some vk" "StrToPubKey (lib_id E) (crypto E) (PubKeyToStr (lib_id E) (crypto E) pub) = Inr vk" .
  obtain priv p opts' where o: "getAccessOpts E rnd opts = ((priv, p), opts')"
    by (metis prod.exhaust)
  from vk o base show thesis by (intro that [of priv opts']) (simp add: loadAccessStore_def)
qed

end
