(* ===== verification/Setup.thy ===== *)
theory Setup
  imports Access
begin

text \<open>
  crdt/setup.go: how a store joins the network (\<open>setupStore\<close>, with \<open>initCRDT\<close> of
  crdt/crdtverse.go around it), and the pubsub topic validator that decides which messages of other
  peers reach the CRDT.

  The messages of go-ds-crdt, the DAG service and the badger datastore are libraries: the record
  \<open>dag_lib\<close> is a parameter. \<open>crdt_delta\<close> and \<open>crdt_bcast\<close> are the fields of their messages that
  the source reads.
\<close>

section \<open>Messages to deltas\<close>

record crdt_delta =
  dl_elements :: "(string \<times> bytes) list"
  dl_tombstones :: "string list"

record crdt_bcast =
  bc_unknown :: bytes
  bc_heads :: "bytes list"

record ('c, 'n) dag_lib =
  unmarshalBroadcast :: "bytes \<Rightarrow> crdt_bcast res"
  cidCast :: "bytes \<Rightarrow> 'c res"
  dagGet :: "'c \<Rightarrow> 'n res"
  protoNodeData :: "'n \<Rightarrow> bytes option"
  unmarshalDelta :: "bytes \<Rightarrow> crdt_delta res"

definition err_invalid_msg :: goerror where "err_invalid_msg = ErrNew ''invalid msg''"

fun castHeads :: "('c, 'n) dag_lib \<Rightarrow> bytes list \<Rightarrow> 'c list" where
  "castHeads G [] = []"
| "castHeads G (head # heads) =
     (case cidCast G head of Inl _ \<Rightarrow> castHeads G heads | Inr c \<Rightarrow> c # castHeads G heads)"

definition msgToCRDTHeads :: "('c, 'n) dag_lib \<Rightarrow> bytes \<Rightarrow> 'c list res" where
  "msgToCRDTHeads G msg =
     (case unmarshalBroadcast G msg of
        Inl err \<Rightarrow> Inl err
      | Inr bcastData \<Rightarrow>
          if 0 < length (bc_unknown bcastData)
          then (case cidCast G (bc_unknown bcastData) of Inl err \<Rightarrow> Inl err | Inr c \<Rightarrow> Inr [c])
          else let bcastHeads = castHeads G (bc_heads bcastData)
               in if length bcastHeads = 0 then Inl err_invalid_msg else Inr bcastHeads)"

fun headDeltas :: "('c, 'n) dag_lib \<Rightarrow> 'c list \<Rightarrow> crdt_delta list" where
  "headDeltas G [] = []"
| "headDeltas G (c # cs) =
     (case dagGet G c of
        Inl _ \<Rightarrow> headDeltas G cs
      | Inr nd \<Rightarrow>
          (case protoNodeData G nd of
             None \<Rightarrow> headDeltas G cs
           | Some b \<Rightarrow>
               (case unmarshalDelta G b of
                  Inl _ \<Rightarrow> headDeltas G cs
                | Inr d \<Rightarrow> d # headDeltas G cs)))"

definition msgToDeltas :: "('c, 'n) dag_lib \<Rightarrow> bytes \<Rightarrow> crdt_delta list res" where
  "msgToDeltas G msg =
     (case msgToCRDTHeads G msg of Inl err \<Rightarrow> Inl err | Inr heads \<Rightarrow> Inr (headDeltas G heads))"

section \<open>The topic validator\<close>

text \<open>\<open>has\<close> is the lookup of the badger datastore under the CRDT.\<close>

definition vkey :: "'d datastore \<Rightarrow> string \<Rightarrow> string \<Rightarrow> string" where
  "vkey D ns key = childString D (childString D (childString D (childString D ns ''s'') ''k'') key) ''v''"

definition validate ::
  "'d datastore \<Rightarrow> (string \<Rightarrow> bool res) \<Rightarrow> string \<Rightarrow> (string \<Rightarrow> bytes \<Rightarrow> bool) \<Rightarrow> string \<Rightarrow> bytes \<Rightarrow> bool" where
  "validate D has ns v key val =
     (if \<not> v key val then False
      else case has (vkey D ns key) of Inl err \<Rightarrow> True | Inr exist \<Rightarrow> \<not> exist)"

fun checkDeltas ::
  "'d datastore \<Rightarrow> (string \<Rightarrow> bool res) \<Rightarrow> string \<Rightarrow> (string \<Rightarrow> bytes \<Rightarrow> bool) \<Rightarrow> crdt_delta list \<Rightarrow> bool" where
  "checkDeltas D has ns v [] = True"
| "checkDeltas D has ns v (delta # deltas) =
     (if \<not> list_all (\<lambda>(key, val). validate D has ns v key val) (dl_elements delta) then False
      else if 0 < length (dl_tombstones delta) then False
      else checkDeltas D has ns v deltas)"

definition validatorFunc ::
  "string \<Rightarrow> (string \<Rightarrow> bytes \<Rightarrow> bool) \<Rightarrow> 'd datastore \<Rightarrow> (string \<Rightarrow> bool res) \<Rightarrow> string \<Rightarrow> ('c, 'n) dag_lib \<Rightarrow>
    string \<Rightarrow> bytes \<Rightarrow> bool" where
  "validatorFunc hid v D has ns G pid msg =
     (if hid = pid then True
      else case msgToDeltas G msg of
        Inl err \<Rightarrow> False
      | Inr deltas \<Rightarrow> checkDeltas D has ns v deltas)"

lemma validate_iff: "validate D has ns v key val \<longleftrightarrow> v key val \<and> has (vkey D ns key) \<noteq> Inr True"
  by (auto simp: validate_def split: sum.splits)

text \<open>The records a list of deltas carries.\<close>

definition delta_records :: "crdt_delta list \<Rightarrow> (string \<times> bytes) list" where
  "delta_records deltas = concat (map dl_elements deltas)"

lemma checkDeltas_iff:
  "checkDeltas D has ns v deltas \<longleftrightarrow>
     (\<forall>(key, val) \<in> set (delta_records deltas). validate D has ns v key val)
     \<and> (\<forall>delta \<in> set deltas. dl_tombstones delta = [])"
  by (induction deltas) (auto simp: delta_records_def list_all_iff)

lemma own_messages: "validatorFunc hid v D has ns G hid msg"
  by (simp add: validatorFunc_def)

lemma foreign_messages:
  "pid \<noteq> hid \<Longrightarrow> validatorFunc hid v D has ns G pid msg \<longleftrightarrow>
     (\<exists>deltas. msgToDeltas G msg = Inr deltas
        \<and> (\<forall>(key, val) \<in> set (delta_records deltas). v key val \<and> has (vkey D ns key) \<noteq> Inr True)
        \<and> (\<forall>delta \<in> set deltas. dl_tombstones delta = []))"
  by (auto simp: validatorFunc_def checkDeltas_iff validate_iff split: sum.splits)

text \<open>Heads that cannot be fetched or read contribute no delta, so nothing of them is checked.\<close>

definition unreadable :: "('c, 'n) dag_lib \<Rightarrow> 'c \<Rightarrow> bool" where
  "unreadable G c \<longleftrightarrow>
     (case dagGet G c of
        Inl _ \<Rightarrow> True
      | Inr nd \<Rightarrow> (case protoNodeData G nd of None \<Rightarrow> True | Some b \<Rightarrow> \<not> is_ok (unmarshalDelta G b)))"

lemma headDeltas_unreadable: "list_all (unreadable G) cs \<Longrightarrow> headDeltas G cs = []"
  by (induction cs) (auto simp: unreadable_def split: sum.splits option.splits)

lemma unreadable_accepted:
  assumes "msgToCRDTHeads G msg = Inr heads" "list_all (unreadable G) heads"
  shows "validatorFunc hid v D has ns G pid msg"
  using assms by (simp add: validatorFunc_def msgToDeltas_def headDeltas_unreadable)

text \<open>Only the nodes of the heads are looked at, not the nodes they link to.\<close>

lemma headDeltas_cong:
  "(\<And>c. c \<in> set cs \<Longrightarrow> get c = dagGet G c) \<Longrightarrow> headDeltas (G\<lparr>dagGet := get\<rparr>) cs = headDeltas G cs"
  by (induction cs) (auto split: sum.split option.split)

lemma castHeads_get: "castHeads (G\<lparr>dagGet := get\<rparr>) hs = castHeads G hs"
  by (induction hs) (auto split: sum.split)

lemma msgToCRDTHeads_get: "msgToCRDTHeads (G\<lparr>dagGet := get\<rparr>) msg = msgToCRDTHeads G msg"
  by (cases "unmarshalBroadcast G msg") (simp_all add: msgToCRDTHeads_def castHeads_get Let_def)

lemma verdict_heads_only:
  assumes "msgToCRDTHeads G msg = Inr heads" "\<And>c. c \<in> set heads \<Longrightarrow> get c = dagGet G c"
  shows "validatorFunc hid v D has ns (G\<lparr>dagGet := get\<rparr>) pid msg = validatorFunc hid v D has ns G pid msg"
  using assms by (simp add: validatorFunc_def msgToDeltas_def msgToCRDTHeads_get headDeltas_cong)

section \<open>The validators of the stores\<close>

text \<open>
  Every store passes the validator of its kind to \<open>setupStore\<close>; the interface \<open>validator\<close> gives
  them a common consequence: once the time window is over, no record of another peer gets in.
\<close>

context validator
begin

lemma closed_window:
  assumes "\<not> inTime s" "pid \<noteq> hid" "validatorFunc hid (validate s) D has ns G pid msg"
  obtains deltas where "msgToDeltas G msg = Inr deltas" "delta_records deltas = []"
proof -
  from assms(2,3) obtain deltas where d: "msgToDeltas G msg = Inr deltas"
    and all: "\<forall>(key, val) \<in> set (delta_records deltas). validate s key val \<and> has (vkey D ns key) \<noteq> Inr True"
    unfolding foreign_messages [OF assms(2)] by blast
  from all have "list_all (\<lambda>(key, val). validate s key val) (delta_records deltas)"
    by (auto simp: list_all_iff)
  with closed_rejects_all [OF assms(1)] have "delta_records deltas = []" by blast
  with d show thesis by (rule that)
qed

end

text \<open>The validator each constructor of crdt makes, for the base store it makes.\<close>

datatype mode = MLog | MUpdatable | MSignature | MUpdatableSignature | MHash

primrec modeValidator ::
  "('d, 'priv, 'pub) env \<Rightarrow> gotime \<Rightarrow> mode \<Rightarrow> 'd base_store \<Rightarrow> string \<Rightarrow> bytes \<Rightarrow> bool" where
  "modeValidator E now MLog = base_Validate"
| "modeValidator E now MUpdatable = newUpdatableValidator E now"
| "modeValidator E now MSignature = newSignatureValidator E"
| "modeValidator E now MUpdatableSignature = newUpdatableSignatureValidator E now"
| "modeValidator E now MHash = newHashValidator E"

interpretation mode_val: validator "modeValidator E now m" base_isInTime for E now m
proof unfold_locales
  fix s key val
  assume "modeValidator E now m s key val"
  then show "base_isInTime s"
    by (cases m) (auto dest: base_val.validate_inTime updatable_val.validate_inTime
        signature_val.validate_inTime updatable_signature_val.validate_inTime hash_val.validate_inTime)
qed

section \<open>Joining the network\<close>

text \<open>
  What the library calls of one run of \<open>initCRDT\<close> and \<open>setupStore\<close> return, in their order. The
  calls are made only for their effect outside, so their outcome is what the code sees of them.
\<close>

record 'd setup_run =
  run_hGenerator :: "goerror option"
  run_mkdirAll :: "goerror option"
  run_newDHT :: "goerror option"
  run_newBadger :: "goerror option"
  run_newIpfs :: "goerror option"
  run_newGossip :: "goerror option"
  run_register :: "goerror option"
  run_newBroadcaster :: "goerror option"
  run_crdtNew :: "'d res"
  run_bootstrap :: "goerror option"

text \<open>The resources the run has opened come first in the result, and stay open.\<close>

definition setupStore :: "'d setup_run \<Rightarrow> resource list \<times> 'd res" where
  "setupStore R =
     (case run_newDHT R of
        Some err \<Rightarrow> ([], Inl err)
      | None \<Rightarrow>
     (case run_newBadger R of
        Some err \<Rightarrow> ([RDHT], Inl err)
      | None \<Rightarrow>
     (case run_newIpfs R of
        Some err \<Rightarrow> ([RDHT, RBadger], Inl err)
      | None \<Rightarrow>
     (case run_newGossip R of
        Some err \<Rightarrow> ([RDHT, RBadger], Inl err)
      | None \<Rightarrow>
     (case run_register R of
        Some err \<Rightarrow> ([RDHT, RBadger], Inl err)
      | None \<Rightarrow>
     (case run_newBroadcaster R of
        Some err \<Rightarrow> ([RDHT, RBadger], Inl err)
      | None \<Rightarrow>
     (case run_crdtNew R of
        Inl err \<Rightarrow> ([RDHT, RBadger], Inl err)
      | Inr dt \<Rightarrow>
     (case run_bootstrap R of
        Some err \<Rightarrow> ([RDHT, RBadger, RDatastore], Inl err)
      | None \<Rightarrow> ([RDHT, RBadger, RDatastore], Inr dt)))))))))"

definition initCRDT :: "bool \<Rightarrow> string \<Rightarrow> 'd setup_run \<Rightarrow> resource list \<times> 'd base_store res" where
  "initCRDT save name R =
     (case run_hGenerator R of
        Some err \<Rightarrow> ([], Inl err)
      | None \<Rightarrow>
     (case run_mkdirAll R of
        Some err \<Rightarrow> ([RHost], Inl err)
      | None \<Rightarrow>
     (case setupStore R of
        (opened, Inl err) \<Rightarrow> (RHost # opened, Inl err)
      | (opened, Inr dt) \<Rightarrow>
          (RHost # opened,
           Inr \<lparr>bs_name = name, bs_timeLimit = zero_time, bs_inTime = True, bs_dt = dt, bs_ctxDone = False,
                bs_closed = [], bs_save = save, bs_dirRemoved = False, bs_watch = False, bs_syncer = False\<rparr>))))"

lemma setupStore_ok:
  assumes "setupStore R = (opened, Inr dt)"
  shows "opened = [RDHT, RBadger, RDatastore]" "run_crdtNew R = Inr dt"
    "run_register R = None" "run_bootstrap R = None"
  using assms unfolding setupStore_def by (auto split: option.splits sum.splits)

text \<open>A store that was set up holds four resources, which are the ones \<open>Cancel\<close> closes.\<close>

lemma initCRDT_ok:
  assumes "initCRDT save name R = (opened, Inr s)"
  shows "opened = [RHost, RDHT, RBadger, RDatastore]" "bs_name s = name" "bs_inTime s"
    "bs_closed s = []" "\<not> bs_ctxDone s" "bs_save s = save" "run_register R = None"
  using assms setupStore_ok [of R]
  by (auto simp: initCRDT_def split: option.splits prod.splits sum.splits)

lemma Cancel_releases:
  assumes "initCRDT save name R = (opened, Inr s)"
  shows "set (bs_closed (base_Cancel E s)) = set opened"
  using initCRDT_ok(1,4) [OF assms] by (auto simp: base_Cancel_def)

text \<open>A run that fails closes nothing of what it opened.\<close>

lemma initCRDT_leak:
  assumes "run_hGenerator R = None" "initCRDT save name R = (opened, Inl err)"
  shows "RHost \<in> set opened"
  using assms by (auto simp: initCRDT_def split: option.splits prod.splits sum.splits)

lemma initCRDT_badger_leak:
  assumes "run_hGenerator R = None" "run_mkdirAll R = None" "run_newDHT R = None" "run_newBadger R = None"
    "initCRDT save name R = (opened, Inl err)"
  shows "RBadger \<in> set opened"
  using assms
  by (auto simp: initCRDT_def setupStore_def split: option.splits prod.splits sum.splits)

end
