(* ===== verification/Replica.thy ===== *)
theory Replica
  imports Setup
begin

text \<open>
  One peer's copy of a store over its life: local \<open>Put\<close>s, messages of other peers that pass the
  topic validator of crdt/setup.go and are merged by go-ds-crdt, and the end of the time window. This is
  the case in which a merge brings in nothing that the validator has not checked; the lemmas show that
  every record of the copy then satisfies what the store's validator checks, and that no step changes or
  removes a record. Theory OpenRuns drops the restriction.

  The merge is the library's, so it is only constrained: \<open>merged\<close> says that a record after the
  merge was there before or comes from the merged deltas, and that keys the deltas do not name are
  left alone. A message's heads are taken to be readable when it is merged (what the validator does
  with unreadable heads is in theory Setup), the merge to involve their deltas only, the keys of the deltas
  to be in the normal form go-ds-crdt writes them in, and the keys of puts to be clean. Theory DagSync
  shows that merges in causal order are of this kind, and what the others can do; the last section here
  shows what happens with keys in other forms: the validator reads the key as it is written, the library
  cleans it.
\<close>

definition merged :: "(string \<times> bytes) list \<Rightarrow> (string \<rightharpoonup> bytes) \<Rightarrow> (string \<rightharpoonup> bytes) \<Rightarrow> bool" where
  "merged recs m m' \<longleftrightarrow> (\<forall>k v. m' k = Some v \<longrightarrow> m k = Some v \<or> (k, v) \<in> set recs)
     \<and> (\<forall>k. k \<notin> fst ` set recs \<longrightarrow> m' k = m k)"

lemma mergedD:
  assumes "merged recs m m'"
  shows "m' k = Some v \<Longrightarrow> m k = Some v \<or> (k, v) \<in> set recs"
    and "k \<notin> fst ` set recs \<Longrightarrow> m' k = m k"
  using assms unfolding merged_def by blast+

primrec store_mode :: "('d, 'priv, 'pub) store \<Rightarrow> mode" where
  "store_mode (LogStore _) = MLog"
| "store_mode (UpdatableStore _) = MUpdatable"
| "store_mode (SignatureStore _) = MSignature"
| "store_mode (UpdatableSignatureStore _) = MUpdatableSignature"
| "store_mode (HashStore _) = MHash"
| "store_mode (AccessStore b _ _) = store_mode b"

definition with_data :: "'d \<Rightarrow> ('d, 'priv, 'pub) store \<Rightarrow> ('d, 'priv, 'pub) store" where
  "with_data d = st_map (\<lambda>b. b\<lparr>bs_dt := d\<rparr>)"

definition end_window :: "('d, 'priv, 'pub) store \<Rightarrow> ('d, 'priv, 'pub) store" where
  "end_window = st_map (\<lambda>b. b\<lparr>bs_inTime := False\<rparr>)"

text \<open>
  \<open>has\<close> is badger's lookup in a state of the datastore. The validator of a message is the one the
  store's constructor registered, so it reads the base store as it is when the message comes.
\<close>

definition accepts ::
  "('d, 'priv, 'pub) env \<Rightarrow> ('d \<Rightarrow> string \<Rightarrow> bool res) \<Rightarrow> string \<Rightarrow> gotime \<Rightarrow> ('d, 'priv, 'pub) store \<Rightarrow>
    ('c, 'n) dag_lib \<Rightarrow> string \<Rightarrow> bytes \<Rightarrow> bool" where
  "accepts E has hid now s G pid msg =
     validatorFunc hid (modeValidator E now (store_mode s) (st_base s)) (lib_ds E)
       (has (bs_dt (st_base s))) (newKey (lib_ds E) (bs_name (st_base s))) G pid msg"

inductive replica_step ::
  "('d, 'priv, 'pub) env \<Rightarrow> ('d \<Rightarrow> (string \<rightharpoonup> bytes)) \<Rightarrow> ('d \<Rightarrow> string \<Rightarrow> bool res) \<Rightarrow> string \<Rightarrow>
    ('c, 'n) dag_lib \<Rightarrow> ('d, 'priv, 'pub) store \<Rightarrow> ('d, 'priv, 'pub) store \<Rightarrow> bool"
  for E els has hid G where
  step_put: "clean_path key \<Longrightarrow> wf_time now \<Longrightarrow> st_Put E now key val s = (s', err) \<Longrightarrow>
     replica_step E els has hid G s s'"
| step_merge: "pid \<noteq> hid \<Longrightarrow> accepts E has hid now s G pid msg \<Longrightarrow>
     msgToCRDTHeads G msg = Inr heads \<Longrightarrow> list_all (\<lambda>c. \<not> unreadable G c) heads \<Longrightarrow>
     list_all (\<lambda>(k, v). newKey (lib_ds E) k = k) (delta_records (headDeltas G heads)) \<Longrightarrow>
     merged (delta_records (headDeltas G heads)) (st_table els s) (els d) \<Longrightarrow>
     replica_step E els has hid G s (with_data d s)"
| step_window: "replica_step E els has hid G s (end_window s)"

inductive_cases replica_stepE: "replica_step E els has hid G s s'"

lemma replica_step_cases [consumes 1, case_names put merge window]:
  assumes "replica_step E els has hid G s s'"
  obtains key now val err where "clean_path key" "wf_time now" "st_Put E now key val s = (s', err)"
  | pid now msg heads d where "s' = with_data d s" "pid \<noteq> hid" "accepts E has hid now s G pid msg"
      "msgToCRDTHeads G msg = Inr heads"
      "list_all (\<lambda>(k, v). newKey (lib_ds E) k = k) (delta_records (headDeltas G heads))"
      "merged (delta_records (headDeltas G heads)) (st_table els s) (els d)"
  | "s' = end_window s"
  using assms by (rule replica_stepE) blast+

section \<open>What a record of a store satisfies\<close>

primrec good_record :: "('d, 'priv, 'pub) env \<Rightarrow> mode \<Rightarrow> string \<Rightarrow> bytes \<Rightarrow> bool" where
  "good_record E MLog k v = True"
| "good_record E MUpdatable k v = is_ok (key_time (local_zone E) k)"
| "good_record E MSignature k v = authentic E k v"
| "good_record E MUpdatableSignature k v = (authentic E k v \<and> is_ok (key_time (local_zone E) k))"
| "good_record E MHash k v = hash_consistent E k v"

definition good_store :: "('d, 'priv, 'pub) env \<Rightarrow> ('d \<Rightarrow> (string \<rightharpoonup> bytes)) \<Rightarrow> ('d, 'priv, 'pub) store \<Rightarrow> bool" where
  "good_store E els s \<longleftrightarrow> (\<forall>k v. st_table els s k = Some v \<longrightarrow> good_record E (store_mode s) k v)"

lemma good_storeD: "good_store E els s \<Longrightarrow> st_table els s k = Some v \<Longrightarrow> good_record E (store_mode s) k v"
  by (simp add: good_store_def)

lemma validated_good: "modeValidator E now m s k v \<Longrightarrow> good_record E m k v"
  by (cases m)
    (auto simp: newUpdatableValidator_def updatable_Validate_iff newSignatureValidator_def signature_Validate_iff
      newUpdatableSignatureValidator_iff newHashValidator_def hash_Validate_iff)

text \<open>The key pair a store signs with is one.\<close>

primrec own_pair :: "('d, 'priv, 'pub) env \<Rightarrow> ('d, 'priv, 'pub) store \<Rightarrow> bool" where
  "own_pair E (LogStore _) = True"
| "own_pair E (UpdatableStore _) = True"
| "own_pair E (SignatureStore s) = signed_ok E (sg_priv s) (sg_pub s)"
| "own_pair E (UpdatableSignatureStore s) = signed_ok E (sg_priv s) (sg_pub s)"
| "own_pair E (HashStore _) = True"
| "own_pair E (AccessStore b _ _) = own_pair E b"

lemma same_kind_mode: "same_kind s s' \<Longrightarrow> store_mode s' = store_mode s"
  by (induction s s' rule: same_kind.induct) simp_all

lemma same_kind_pair: "same_kind s s' \<Longrightarrow> own_pair E s' = own_pair E s"
  by (induction s s' rule: same_kind.induct) simp_all

lemma with_data_simps [simp]:
  "store_mode (with_data d s) = store_mode s" "own_pair E (with_data d s) = own_pair E s"
  "st_table els (with_data d s) = els d" "bs_inTime (st_base (with_data d s)) = bs_inTime (st_base s)"
  by (induction s) (simp_all add: with_data_def st_table_def base_table_def)

lemma end_window_simps [simp]:
  "store_mode (end_window s) = store_mode s" "own_pair E (end_window s) = own_pair E s"
  "st_table els (end_window s) = st_table els s" "\<not> bs_inTime (st_base (end_window s))"
  by (induction s) (simp_all add: end_window_def st_table_def base_table_def)

text \<open>What the libraries are relied on for.\<close>

definition replica_ok :: "('d, 'priv, 'pub) env \<Rightarrow> ('d \<Rightarrow> (string \<rightharpoonup> bytes)) \<Rightarrow> bool" where
  "replica_ok E els \<longleftrightarrow> env_ok E els \<and> libs_ok E \<and> kdf_ok E"

lemma replica_okD [lib_laws]:
  "replica_ok E els \<Longrightarrow> env_ok E els" "replica_ok E els \<Longrightarrow> libs_ok E" "replica_ok E els \<Longrightarrow> kdf_ok E"
  by (simp_all add: replica_ok_def)

section \<open>A local put adds a good record\<close>

lemma st_Put_good:
  assumes E: "replica_ok E els" and key: "clean_path key" and now: "wf_time now"
  shows "own_pair E s \<Longrightarrow> st_Put E now key val s = (s', None) \<Longrightarrow>
    \<exists>k v. st_table els s k = None \<and> st_table els s' = (st_table els s)(k \<mapsto> v)
      \<and> good_record E (store_mode s) k v"
proof (induction s arbitrary: s')
  case (LogStore b)
  from st_Put_ok [OF replica_okD(1) [OF E] LogStore.prems(2)] show ?case
    by (simp only: store_mode.simps good_record.simps simp_thms)
next
  case (UpdatableStore b)
  from UpdatableStore.prems obtain b' where "upd_Put E now key val b = (b', None)" "s' = UpdatableStore b'"
    by (auto split: prod.splits)
  with base_Put_ok(1,2) [OF replica_okD(1) [OF E], of "key @ ''/'' @ time_key now" val b b']
    stamped_key [OF ds_okD(1) [OF env_okD(1) [OF replica_okD(1) [OF E]]] key, of now]
    key_time_stamped [OF now, of "local_zone E" key]
  show ?case by (auto simp: upd_Put_eq st_table_def)
next
  case (SignatureStore b)
  from SignatureStore.prems obtain b' where put: "sg_Put E key val b = (b', None)" and s': "s' = SignatureStore b'"
    by (auto split: prod.splits)
  from sg_Put_ok [OF replica_okD(1) [OF E] put] obtain sKey msd where
    r: "signed_record E (sg_priv b) (sg_pub b) val = Inr (sKey, msd)"
    and new: "sg_table els b (newKey (lib_ds E) (sKey @ ''/'' @ key)) = None"
    and tab: "sg_table els b' = (sg_table els b)(newKey (lib_ds E) (sKey @ ''/'' @ key) \<mapsto> msd)" .
  have nk: "newKey (lib_ds E) (sKey @ ''/'' @ key) = CHR ''/'' # sKey @ CHR ''/'' # key"
    using signed_key [OF ds_okD(1) [OF env_okD(1) [OF replica_okD(1) [OF E]]]
        signed_record_key [OF replica_okD(2) [OF E] r] key] by simp
  have "authentic E (CHR ''/'' # sKey @ CHR ''/'' # key) msd"
    using signed_record_authentic [OF replica_okD(2) [OF E] _ r] SignatureStore.prems(1) by simp
  with new tab nk show ?case
    by (intro exI [of _ "newKey (lib_ds E) (sKey @ ''/'' @ key)"] exI [of _ msd])
      (simp add: s' st_table_def sg_table_def)
next
  case (UpdatableSignatureStore b)
  from UpdatableSignatureStore.prems obtain b' where put: "us_Put E now key val b = (b', None)"
    and s': "s' = UpdatableSignatureStore b'" by (auto split: prod.splits)
  from us_Put_record [OF replica_okD(1,2) [OF E] key put] obtain sKey msd where
    r: "signed_record E (sg_priv b) (sg_pub b) val = Inr (sKey, msd)"
    and tab: "sg_table els b' =
      (sg_table els b)(CHR ''/'' # (sKey @ CHR ''/'' # key) @ CHR ''/'' # time_key now \<mapsto> msd)" .
  let ?k = "CHR ''/'' # (sKey @ CHR ''/'' # key) @ CHR ''/'' # time_key now"
  have good: "good_record E MUpdatableSignature ?k msd"
    using signed_record_authentic [OF replica_okD(2) [OF E] _ r, of "key @ CHR ''/'' # time_key now"]
      UpdatableSignatureStore.prems(1) key_time_stamped [OF now, of "local_zone E" "sKey @ CHR ''/'' # key"]
    by simp
  from st_Put_ok [OF replica_okD(1) [OF E] UpdatableSignatureStore.prems(2)] obtain k v where
    kv: "st_table els (UpdatableSignatureStore b) k = None"
    "st_table els s' = (st_table els (UpdatableSignatureStore b))(k \<mapsto> v)" by blast
  have "k = ?k \<and> v = msd"
  proof -
    have "(sg_table els b)(?k \<mapsto> msd) = (sg_table els b)(k \<mapsto> v)" and "sg_table els b k = None"
      using kv tab by (simp_all add: s' st_table_def sg_table_def)
    then show ?thesis by (metis fun_upd_apply option.distinct(1) option.inject)
  qed
  with kv good show ?case by auto
next
  case (HashStore b)
  from HashStore.prems obtain b' where put: "hs_Put E key val b = (b', None)" and s': "s' = HashStore b'"
    by (auto split: prod.splits)
  note E1 = replica_okD(1) [OF E]
  from hs_Put_consistent [OF E1 libs_okD(1) [OF replica_okD(2) [OF E]] replica_okD(3) [OF E] put]
  obtain m where tab: "hs_table els b' = (hs_table els b)(CHR ''/'' # MakeHashKey E key (hs_salt b) \<mapsto> m)"
    and cons: "hash_consistent E (CHR ''/'' # MakeHashKey E key (hs_salt b)) m" .
  have "hs_table els b (newKey (lib_ds E) (MakeHashKey E key (hs_salt b))) = None"
    using E1 put by (rule hs_Put_ok)
  then have "hs_table els b (CHR ''/'' # MakeHashKey E key (hs_salt b)) = None"
    using newKey_hash [OF ds_okD(1) [OF env_okD(1) [OF E1]] replica_okD(3) [OF E]] by simp
  with tab cons show ?case
    by (intro exI [of _ "CHR ''/'' # MakeHashKey E key (hs_salt b)"] exI [of _ m])
      (simp add: s' st_table_def hs_table_def)
next
  case (AccessStore b priv pub)
  from AccessStore.prems(2) obtain b' where b': "st_Put E now key val b = (b', None)"
    and s': "s' = AccessStore b' priv pub"
    by (auto split: option.splits prod.splits)
  from AccessStore.IH [OF _ b'] AccessStore.prems(1) show ?case by (simp add: s' st_table_def)
qed

section \<open>Runs\<close>

inductive replica_run ::
  "('d, 'priv, 'pub) env \<Rightarrow> ('d \<Rightarrow> (string \<rightharpoonup> bytes)) \<Rightarrow> ('d \<Rightarrow> string \<Rightarrow> bool res) \<Rightarrow> string \<Rightarrow>
    ('d, 'priv, 'pub) store \<Rightarrow> ('c, 'n) dag_lib list \<Rightarrow> ('d, 'priv, 'pub) store \<Rightarrow> bool"
  for E els has hid s0 where
  run_nil: "replica_run E els has hid s0 [] s0"
| run_snoc: "replica_run E els has hid s0 Gs s \<Longrightarrow> replica_step E els has hid G s s' \<Longrightarrow>
     replica_run E els has hid s0 (Gs @ [G]) s'"

text \<open>Badger holds the value of every key of the store named \<open>nm\<close>, where \<open>validate\<close> looks.\<close>

definition has_exact ::
  "('d, 'priv, 'pub) env \<Rightarrow> ('d \<Rightarrow> (string \<rightharpoonup> bytes)) \<Rightarrow> ('d \<Rightarrow> string \<Rightarrow> bool res) \<Rightarrow> string \<Rightarrow> bool" where
  "has_exact E els has nm \<longleftrightarrow> (\<forall>d k. newKey (lib_ds E) k = k \<longrightarrow>
     has d (vkey (lib_ds E) (newKey (lib_ds E) nm) k) = Inr (els d k \<noteq> None))"

text \<open>A message that passes the validator brings good records under keys that are not there.\<close>

lemma accepted_records:
  assumes "pid \<noteq> hid" "accepts E has hid now s G pid msg" "msgToCRDTHeads G msg = Inr heads"
    and "(k, v) \<in> set (delta_records (headDeltas G heads))"
  shows "modeValidator E now (store_mode s) (st_base s) k v"
    and "has (bs_dt (st_base s)) (vkey (lib_ds E) (newKey (lib_ds E) (bs_name (st_base s))) k) \<noteq> Inr True"
  using assms(2-4) unfolding accepts_def foreign_messages [OF assms(1)] msgToDeltas_def by auto

lemma merge_good:
  assumes "pid \<noteq> hid" "accepts E has hid now s G pid msg" "msgToCRDTHeads G msg = Inr heads"
    and "merged (delta_records (headDeltas G heads)) (st_table els s) (els d)" "good_store E els s"
  shows "good_store E els (with_data d s)"
  unfolding good_store_def with_data_simps
proof (intro allI impI)
  fix k v assume "els d k = Some v"
  with assms(4) consider "st_table els s k = Some v" | "(k, v) \<in> set (delta_records (headDeltas G heads))"
    unfolding merged_def by blast
  then show "good_record E (store_mode s) k v"
  proof cases
    case 1
    with assms(5) show ?thesis by (rule good_storeD)
  next
    case 2
    from validated_good [OF accepted_records(1) [OF assms(1-3) 2]] show ?thesis .
  qed
qed

lemma merge_extends:
  assumes "has_exact E els has (bs_name (st_base s))"
    and "pid \<noteq> hid" "accepts E has hid now s G pid msg" "msgToCRDTHeads G msg = Inr heads"
    and "list_all (\<lambda>(k, v). newKey (lib_ds E) k = k) (delta_records (headDeltas G heads))"
    and "merged (delta_records (headDeltas G heads)) (st_table els s) (els d)"
  shows "st_table els s \<subseteq>\<^sub>m els d"
  unfolding map_le_def
proof
  fix k assume k: "k \<in> dom (st_table els s)"
  have "k \<notin> fst ` set (delta_records (headDeltas G heads))"
  proof
    assume "k \<in> fst ` set (delta_records (headDeltas G heads))"
    then obtain v where v: "(k, v) \<in> set (delta_records (headDeltas G heads))" by auto
    with assms(5) have "newKey (lib_ds E) k = k" by (auto simp: list_all_iff)
    with accepted_records(2) [OF assms(2-4) v] assms(1) k show False
      by (simp add: has_exact_def st_table_def base_table_def domIff)
  qed
  with assms(6) show "st_table els s k = els d k" by (simp add: mergedD(2))
qed

lemma step_good:
  assumes E: "replica_ok E els" and s: "own_pair E s" "good_store E els s"
    and step: "replica_step E els has hid G s s'"
  shows "good_store E els s' \<and> own_pair E s' \<and> store_mode s' = store_mode s"
  using step
proof (cases rule: replica_step_cases)
  case (put key now val err)
  note kind = st_Put_kind [OF put(3)]
  have "good_store E els s'"
  proof (cases err)
    case None
    from st_Put_good [OF E put(1,2) s(1) put(3) [unfolded None]] obtain k v where
      kv: "st_table els s' = (st_table els s)(k \<mapsto> v)" "good_record E (store_mode s) k v" by blast
    with s(2) show ?thesis by (simp add: good_store_def same_kind_mode [OF kind])
  next
    case (Some e)
    from st_Put_err [OF replica_okD(1) [OF E] put(3) [unfolded Some]] s(2) show ?thesis
      by (simp add: good_store_def same_kind_mode [OF kind])
  qed
  then show ?thesis using s(1) by (simp add: same_kind_mode [OF kind] same_kind_pair [OF kind])
next
  case (merge pid now msg heads d)
  from merge_good [OF merge(2-4,6) s(2)] s(1) show ?thesis by (simp add: merge(1))
next
  case window
  with s show ?thesis by (simp add: good_store_def)
qed

lemma step_name: "replica_step E els has hid G s s' \<Longrightarrow> bs_name (st_base s') = bs_name (st_base s)"
  by (cases rule: replica_step_cases, assumption)
    (auto simp: with_data_def end_window_def dest: st_Put_closed)

lemma step_extends:
  assumes E: "replica_ok E els" and has: "has_exact E els has (bs_name (st_base s))"
    and step: "replica_step E els has hid G s s'"
  shows "st_table els s \<subseteq>\<^sub>m st_table els s'"
  using step
proof (cases rule: replica_step_cases)
  case (put key now val err)
  with st_store.put_extends [OF replica_okD(1) [OF E], of s "(now, key, val)"] show ?thesis by simp
next
  case (merge pid now msg heads d)
  from merge_extends [OF has merge(2-6)] show ?thesis by (simp add: merge(1))
next
  case window
  then show ?thesis by simp
qed

lemma run_good:
  assumes E: "replica_ok E els" and s: "own_pair E s0" "good_store E els s0"
  shows "replica_run E els has hid s0 Gs s \<Longrightarrow>
    good_store E els s \<and> own_pair E s \<and> store_mode s = store_mode s0"
proof (induction rule: replica_run.induct)
  case run_nil
  from s show ?case by simp
next
  case (run_snoc Gs s G s')
  from step_good [OF E _ _ run_snoc.hyps(2)] run_snoc.IH show ?case by simp
qed

lemma run_name: "replica_run E els has hid s0 Gs s \<Longrightarrow> bs_name (st_base s) = bs_name (st_base s0)"
  by (induction rule: replica_run.induct) (auto dest: step_name)

text \<open>A copy stays the kind of store it is, with its keys.\<close>

lemma step_kind: "replica_step E els has hid G s s' \<Longrightarrow> same_kind s s'"
  by (erule replica_step_cases) (auto simp: with_data_def end_window_def dest: st_Put_kind)

lemma run_kind: "replica_run E els has hid s0 Gs s \<Longrightarrow> same_kind s0 s"
  by (induction rule: replica_run.induct) (auto intro: same_kind_trans dest: step_kind)

lemma run_grows:
  assumes E: "replica_ok E els" and has: "has_exact E els has (bs_name (st_base s0))"
  shows "replica_run E els has hid s0 Gs s \<Longrightarrow> st_table els s0 \<subseteq>\<^sub>m st_table els s"
proof (induction rule: replica_run.induct)
  case run_nil
  show ?case by simp
next
  case (run_snoc Gs s G s')
  have "has_exact E els has (bs_name (st_base s))" using has run_name [OF run_snoc.hyps(1)] by simp
  from map_le_trans [OF run_snoc.IH step_extends [OF E this run_snoc.hyps(2)]] show ?case .
qed

text \<open>Once the window is over, a merge changes nothing: only the peer's own puts do.\<close>

lemma closed_merge:
  assumes "\<not> bs_inTime (st_base s)" "pid \<noteq> hid" "accepts E has hid now s G pid msg"
    and "msgToCRDTHeads G msg = Inr heads"
    and "merged (delta_records (headDeltas G heads)) (st_table els s) (els d)"
  shows "els d = st_table els s"
proof -
  have "\<not> base_isInTime (st_base s)" using assms(1) by (simp add: base_isInTime_def)
  from mode_val.closed_window [OF this assms(2) assms(3) [unfolded accepts_def]] obtain deltas where
    "msgToDeltas G msg = Inr deltas" "delta_records deltas = []" .
  then have "delta_records (headDeltas G heads) = []"
    using assms(4) by (simp add: msgToDeltas_def)
  with mergedD(2) [OF assms(5)] have "els d k = st_table els s k" for k by simp
  then show ?thesis by (rule ext)
qed

section \<open>Keys that are not in normal form\<close>

text \<open>
  The validators split the key an element carries, while go-ds-crdt stores the element under the
  cleaned key, as \<open>validate\<close> itself does for its lookup. \<open>key_dots\<close> is the cleaning that is needed: a
  component followed by two dots disappears.
\<close>

definition key_dots :: "(string \<Rightarrow> string) \<Rightarrow> bool" where
  "key_dots nk \<longleftrightarrow> (\<forall>a b. plain_component a \<longrightarrow> clean_path b \<longrightarrow>
     nk (CHR ''/'' # a @ ''/../'' @ b) = CHR ''/'' # b)"

definition dotted :: "string \<Rightarrow> string \<Rightarrow> string" where
  "dotted a b = CHR ''/'' # a @ ''/../'' @ b"

text \<open>A record of one writer, accepted under a key that is stored as another writer's.\<close>

lemma dotted_accepted:
  assumes E: "libs_ok E" "key_dots (newKey (lib_ds E))" and pair: "signed_ok E priv pub"
    and r: "signed_record E priv pub val = Inr (sKey, msd)"
    and path: "clean_path path" and peer: "bs_inTime peer"
  shows "newSignatureValidator E peer (dotted sKey path) msd"
    and "newKey (lib_ds E) (dotted sKey path) = CHR ''/'' # path"
proof -
  have "authentic E (CHR ''/'' # sKey @ CHR ''/'' # (''../'' @ path)) msd"
    by (rule signed_record_authentic [OF E(1) pair r])
  then show "newSignatureValidator E peer (dotted sKey path) msd"
    using peer by (simp add: dotted_def newSignatureValidator_def signature_Validate_iff base_Validate_def
        base_isInTime_def)
  show "newKey (lib_ds E) (dotted sKey path) = CHR ''/'' # path"
    using E(2) signed_record_key [OF E(1) r] path by (simp add: key_dots_def dotted_def)
qed

text \<open>
  Once it is merged under the stored key, a reader who asks for the other writer's value gets it.
\<close>

lemma dotted_read:
  assumes E: "key_ok (newKey (lib_ds E))" "ds_live (lib_ds E) els" "libs_ok E"
    and r: "signed_record E priv pub val = Inr (sKey, msd)" and val: "val \<noteq> []"
    and path: "clean_path path" and tab: "sg_table els s (CHR ''/'' # path) = Some msd"
  shows "sg_Get E s path = Inr (Some val)"
  by (rule stored_read [OF E(2,3) r val]) (use tab key_okD(1) [OF E(1) path] in simp)

text \<open>
  The owner's own put can name such a key. It succeeds, the record is stored outside the writer's part, and
  no peer accepts it when the key starts with no key string.
\<close>

lemma dotted_put_refused:
  assumes E: "env_ok E els" and put: "sg_Put E key val s = (s', None)"
    and nk: "newKey (lib_ds E) (sg_putKey E s key) = CHR ''/'' # path"
    and str: "StrToPubKey (lib_id E) (crypto E) (hd (key_parts (CHR ''/'' # path))) = Inl err"
  shows "\<exists>msd. sg_table els s' = (sg_table els s)(CHR ''/'' # path \<mapsto> msd)
    \<and> (\<forall>peer. \<not> newSignatureValidator E peer (CHR ''/'' # path) msd)"
proof -
  from sg_Put_ok [OF E put] obtain sKey msd where
    r: "signed_record E (sg_priv s) (sg_pub s) val = Inr (sKey, msd)"
    and tab: "sg_table els s' = (sg_table els s)(newKey (lib_ds E) (sKey @ ''/'' @ key) \<mapsto> msd)" .
  have "sg_putKey E s key = sKey @ ''/'' @ key"
    using r by (auto elim!: signed_record_Inr simp: sg_putKey_def Let_def)
  with tab nk have "sg_table els s' = (sg_table els s)(CHR ''/'' # path \<mapsto> msd)" by simp
  moreover have "\<not> authentic E (CHR ''/'' # path) msd"
    using str unfolding authentic_def by simp
  ultimately show ?thesis
    by (auto simp: newSignatureValidator_def signature_Validate_iff)
qed

end
