(* ===== verification/Verse.thy ===== *)
theory Verse
  imports Replica
begin

text \<open>
  Opening stores: the constructors of crdt/log.go, updatable.go, signature.go,
  updatable_signature.go and hash.go, and \<open>NewStore\<close> of crdt/crdtverse.go, which makes a new store
  from a name or loads one from an address, retrying while the directory is locked or nothing has
  been synchronised.

  What an attempt meets (the outcome of the library calls, the clock, the random bytes) and what
  the ticker of \<open>loadCheck\<close> finds are arguments. Stores the run opened and does not return are
  listed in \<open>w_lost\<close>, with the state they were left in, and the resources of failed set-ups in
  \<open>w_open\<close>.
\<close>

section \<open>Constructors\<close>

record 'd attempt =
  at_run :: "'d setup_run"
  at_now :: gotime
  at_rnd :: bytes

type_synonym ('d, 'priv, 'pub) opened =
  "resource list \<times> ('d, 'priv, 'pub) store res \<times> ('priv, 'pub) store_opts list"

definition getLogOpts :: "('priv, 'pub) store_opts list \<Rightarrow> gotime" where
  "getLogOpts opts = (case opts of [] \<Rightarrow> zero_time | o0 # _ \<Rightarrow> so_TimeLimit o0)"

definition with_limit :: "gotime \<Rightarrow> gotime \<Rightarrow> 'd base_store \<Rightarrow> 'd base_store" where
  "with_limit now lim st = base_setTimeLimit now (st\<lparr>bs_timeLimit := lim\<rparr>)"

definition NewLogStore ::
  "bool \<Rightarrow> string \<Rightarrow> 'd attempt \<Rightarrow> ('priv, 'pub) store_opts list \<Rightarrow> ('d, 'priv, 'pub) opened" where
  "NewLogStore save name A opts =
     (case initCRDT save name (at_run A) of
        (opened, Inl err) \<Rightarrow> (opened, Inl err, opts)
      | (opened, Inr st) \<Rightarrow>
          (let lim = getLogOpts opts in (opened, Inr (LogStore (with_limit (at_now A) lim st)), opts)))"

definition NewUpdatableStore ::
  "bool \<Rightarrow> string \<Rightarrow> 'd attempt \<Rightarrow> ('priv, 'pub) store_opts list \<Rightarrow> ('d, 'priv, 'pub) opened" where
  "NewUpdatableStore save name A opts =
     (case initCRDT save name (at_run A) of
        (opened, Inl err) \<Rightarrow> (opened, Inl err, opts)
      | (opened, Inr st) \<Rightarrow>
          (let lim = getLogOpts opts
           in (opened, Inr (UpdatableStore (with_limit (at_now A) lim st)), opts)))"

definition NewSignatureStore ::
  "('d, 'priv, 'pub) env \<Rightarrow> bool \<Rightarrow> string \<Rightarrow> 'd attempt \<Rightarrow> ('priv, 'pub) store_opts list \<Rightarrow>
    ('d, 'priv, 'pub) opened" where
  "NewSignatureStore E save name A opts =
     (case initCRDT save name (at_run A) of
        (opened, Inl err) \<Rightarrow> (opened, Inl err, opts)
      | (opened, Inr st) \<Rightarrow>
          (let ((priv, pub, lim), opts) = getSignatureOpts E (at_rnd A) opts
           in (opened, Inr (SignatureStore \<lparr>sg_base = with_limit (at_now A) lim st, sg_priv = priv, sg_pub = pub\<rparr>),
               opts)))"

definition NewUpdatableSignatureStore ::
  "('d, 'priv, 'pub) env \<Rightarrow> bool \<Rightarrow> string \<Rightarrow> 'd attempt \<Rightarrow> ('priv, 'pub) store_opts list \<Rightarrow>
    ('d, 'priv, 'pub) opened" where
  "NewUpdatableSignatureStore E save name A opts =
     (case initCRDT save name (at_run A) of
        (opened, Inl err) \<Rightarrow> (opened, Inl err, opts)
      | (opened, Inr st) \<Rightarrow>
          (let ((priv, pub, lim), opts) = getUpdatableSignatureOpts E (at_rnd A) opts
           in (opened,
               Inr (UpdatableSignatureStore \<lparr>sg_base = with_limit (at_now A) lim st, sg_priv = priv, sg_pub = pub\<rparr>),
               opts)))"

definition NewHashStore ::
  "bool \<Rightarrow> string \<Rightarrow> 'd attempt \<Rightarrow> ('priv, 'pub) store_opts list \<Rightarrow> ('d, 'priv, 'pub) opened" where
  "NewHashStore save name A opts =
     (case initCRDT save name (at_run A) of
        (opened, Inl err) \<Rightarrow> (opened, Inl err, opts)
      | (opened, Inr st) \<Rightarrow>
          (let ((salt, lim), opts) = getHashOpts (at_rnd A) opts
           in (opened, Inr (HashStore \<lparr>hs_base = with_limit (at_now A) lim st, hs_salt = salt\<rparr>), opts)))"

definition selectNewStore ::
  "('d, 'priv, 'pub) env \<Rightarrow> bool \<Rightarrow> string \<Rightarrow> string \<Rightarrow> 'd attempt \<Rightarrow> ('priv, 'pub) store_opts list \<Rightarrow>
    ('d, 'priv, 'pub) opened" where
  "selectNewStore E save name md A opts =
     (if md = ''updatable'' then NewUpdatableStore save name A opts
      else if md = ''signature'' then NewSignatureStore E save name A opts
      else if md = ''updatableSignature'' then NewUpdatableSignatureStore E save name A opts
      else if md = ''hash'' then NewHashStore save name A opts
      else NewLogStore save name A opts)"

section \<open>New stores and loaded stores\<close>

record ('d, 'priv, 'pub) world =
  w_open :: "resource list"
  w_lost :: "('d, 'priv, 'pub) store list"

definition clean_world :: "('d, 'priv, 'pub) world" where
  "clean_world = \<lparr>w_open = [], w_lost = []\<rparr>"

definition lose :: "('d, 'priv, 'pub) store \<Rightarrow> ('d, 'priv, 'pub) world \<Rightarrow> ('d, 'priv, 'pub) world" where
  "lose s w = w\<lparr>w_lost := w_lost w @ [s]\<rparr>"

definition leave_open :: "resource list \<Rightarrow> ('d, 'priv, 'pub) world \<Rightarrow> ('d, 'priv, 'pub) world" where
  "leave_open rs w = w\<lparr>w_open := w_open w @ rs\<rparr>"

type_synonym ('d, 'priv, 'pub) result_pair = "('d, 'priv, 'pub) store option \<times> goerror option"

definition newStore ::
  "('d, 'priv, 'pub) env \<Rightarrow> bool \<Rightarrow> string \<Rightarrow> string \<Rightarrow> 'd attempt \<Rightarrow> ('priv, 'pub) store_opts \<Rightarrow>
    ('d, 'priv, 'pub) world \<times> ('d, 'priv, 'pub) result_pair \<times> ('priv, 'pub) store_opts" where
  "newStore E save name md A opt =
     (case selectNewStore E save name md A [opt] of
        (opened, Inl err, opts) \<Rightarrow> (leave_open opened clean_world, (None, Some err), hd opts)
      | (opened, Inr s, opts) \<Rightarrow>
          (case st_initPut E (at_now A) s of
             (s, Some err) \<Rightarrow> (lose (st_Close E s) clean_world, (None, Some err), hd opts)
           | (s, None) \<Rightarrow> (clean_world, (Some s, None), hd opts)))"

text \<open>
  What the loop of \<open>loadCheck\<close> sees: at a tick, the data that has arrived and whether the time
  window has ended meanwhile; or the end of its thirty seconds. \<open>None\<close>: the events given do not
  decide.
\<close>

datatype 'd load_event = Tick 'd bool | Expired

definition err_sync_timeout :: goerror where
  "err_sync_timeout = ErrNew ''load error: sync timeout (store)''"

definition arrive :: "'d \<Rightarrow> bool \<Rightarrow> ('d, 'priv, 'pub) store \<Rightarrow> ('d, 'priv, 'pub) store" where
  "arrive d over s = (let s = with_data d s in if over then end_window s else s)"

fun verse_loadCheck ::
  "('d, 'priv, 'pub) env \<Rightarrow> 'd load_event list \<Rightarrow> ('d, 'priv, 'pub) store \<Rightarrow>
    (('d, 'priv, 'pub) store \<times> goerror option) option" where
  "verse_loadCheck E [] s = None"
| "verse_loadCheck E (Expired # evs) s = Some (st_Cancel E s, Some err_sync_timeout)"
| "verse_loadCheck E (Tick d over # evs) s =
     (case st_Sync E (arrive d over s) of
        (s, Some err) \<Rightarrow> Some (st_Close E s, Some err)
      | (s, None) \<Rightarrow> if st_loadCheck E s then Some (s, None) else verse_loadCheck E evs s)"

definition dirLock :: string where "dirLock = ''Cannot acquire directory lock on''"
definition timeout_msg :: string where "timeout_msg = ''load error: sync timeout''"
definition err_load_failed :: goerror where "err_load_failed = ErrNew ''load failed''"

text \<open>The loop of \<open>loadStore\<close>; the inner \<open>None\<close> is falling out of it.\<close>

fun loadTries ::
  "('d, 'priv, 'pub) env \<Rightarrow> bool \<Rightarrow> string \<Rightarrow> string \<Rightarrow> ('d attempt \<times> 'd load_event list) list \<Rightarrow>
    ('d, 'priv, 'pub) world \<Rightarrow> ('priv, 'pub) store_opts \<Rightarrow>
    (('d, 'priv, 'pub) world \<times> ('d, 'priv, 'pub) result_pair option \<times> ('priv, 'pub) store_opts) option" where
  "loadTries E save name md [] w opt = Some (w, None, opt)"
| "loadTries E save name md ((A, evs) # tries) w opt =
     (case selectNewStore E save name md A [opt] of
        (opened, Inl err, opts) \<Rightarrow>
          if has_prefix (err_text err) dirLock
          then loadTries E save name md tries (leave_open opened w) (hd opts)
          else Some (leave_open opened w, Some (None, Some err), hd opts)
      | (opened, Inr s, opts) \<Rightarrow>
          (case verse_loadCheck E evs s of
             None \<Rightarrow> None
           | Some (s, Some err) \<Rightarrow>
               if has_prefix (err_text err) timeout_msg
               then loadTries E save name md tries (lose s w) (hd opts)
               else Some (lose s w, Some (None, Some err), hd opts)
           | Some (s, None) \<Rightarrow> Some (w, Some (Some s, None), hd opts)))"

text \<open>\<open>tries i\<close> is what turn \<open>i\<close> of the loop meets; there are three turns.\<close>

definition N_load :: nat where "N_load = 3"

definition loadStore ::
  "('d, 'priv, 'pub) env \<Rightarrow> bool \<Rightarrow> string \<Rightarrow> string \<Rightarrow> (nat \<Rightarrow> 'd attempt \<times> 'd load_event list) \<Rightarrow>
    'd attempt \<Rightarrow> ('priv, 'pub) store_opts \<Rightarrow>
    (('d, 'priv, 'pub) world \<times> ('d, 'priv, 'pub) result_pair \<times> ('priv, 'pub) store_opts) option" where
  "loadStore E save name md tries A opt =
     (case loadTries E save name md (map tries [0..<N_load]) clean_world opt of
        None \<Rightarrow> None
      | Some (w, Some r, opt) \<Rightarrow> Some (w, r, opt)
      | Some (w, None, opt) \<Rightarrow>
          (case selectNewStore E save name md A [opt] of
             (opened, Inl err, opts) \<Rightarrow> Some (leave_open opened w, (None, Some err), hd opts)
           | (opened, Inr s, opts) \<Rightarrow>
               (case st_initPut E (at_now A) s of
                  (s, Some err) \<Rightarrow> Some (lose (st_Close E s) w, (None, Some err), hd opts)
                | (s, None) \<Rightarrow> Some (w, (Some s, Some err_load_failed), hd opts))))"

text \<open>
  \<open>NewStore\<close>: \<open>err\<close> and \<open>s\<close> are overwritten when the address names a master key, and a store is
  only returned when \<open>err\<close> is nil at the end. \<open>rnd\<close> is what \<open>loadAccessStore\<close> may draw.
\<close>

definition finishStore ::
  "('d, 'priv, 'pub) env \<Rightarrow> bytes \<Rightarrow> string \<Rightarrow>
    ('d, 'priv, 'pub) world \<times> ('d, 'priv, 'pub) result_pair \<times> ('priv, 'pub) store_opts \<Rightarrow>
    ('d, 'priv, 'pub) world \<times> ('d, 'priv, 'pub) result_pair" where
  "finishStore E rnd pid r =
     (case r of
        (w, (None, err), opt) \<Rightarrow> (w, (None, err))
      | (w, (Some s, err), opt) \<Rightarrow>
          (let (s', err) =
             (if pid \<noteq> []
              then case loadAccessStore E rnd s pid [opt] of
                  (Inl err, _) \<Rightarrow> (s, Some err) | (Inr ac, _) \<Rightarrow> (ac, None)
              else (s, err))
           in case err of
             Some e \<Rightarrow> (lose s' w, (None, Some e))
           | None \<Rightarrow> (w, (Some (st_autoSync E s'), None))))"

definition NewStore ::
  "('d, 'priv, 'pub) env \<Rightarrow> bool \<Rightarrow> string \<Rightarrow> string \<Rightarrow> (nat \<Rightarrow> 'd attempt \<times> 'd load_event list) \<Rightarrow>
    'd attempt \<Rightarrow> bytes \<Rightarrow> ('priv, 'pub) store_opts list \<Rightarrow>
    (('d, 'priv, 'pub) world \<times> ('d, 'priv, 'pub) result_pair) option" where
  "NewStore E save name md tries A rnd opts =
     (let opt = (case opts of [] \<Rightarrow> empty_opts | o0 # _ \<Rightarrow> o0)
      in case parseAddress E name of
        Inl _ \<Rightarrow> Some (finishStore E rnd [] (newStore E save name md A opt))
      | Inr (stName, salt, pid, lim) \<Rightarrow>
          (case loadStore E save stName md tries A (opt\<lparr>so_Salt := salt, so_TimeLimit := lim\<rparr>) of
             None \<Rightarrow> None
           | Some r \<Rightarrow> Some (finishStore E rnd pid r)))"

section \<open>Opening returns\<close>

lemma loadCheck_returns: "Expired \<in> set evs \<Longrightarrow> verse_loadCheck E evs s \<noteq> None"
proof (induction evs arbitrary: s)
  case (Cons ev evs)
  then show ?case by (cases ev) (auto split: prod.splits option.splits)
qed simp

lemma loadTries_returns:
  "(\<And>A evs. (A, evs) \<in> set tries \<Longrightarrow> Expired \<in> set evs) \<Longrightarrow> loadTries E save name md tries w opt \<noteq> None"
proof (induction tries arbitrary: w opt)
  case (Cons trial tries)
  obtain A evs where [simp]: "trial = (A, evs)" by (cases trial)
  have ev: "Expired \<in> set evs" using Cons.prems [of A evs] by simp
  have IH: "loadTries E save name md tries w opt \<noteq> None" for w opt
    by (rule Cons.IH) (use Cons.prems in auto)
  show ?case
    using IH loadCheck_returns [OF ev, of E]
    by (simp del: not_None_eq split: prod.split sum.split option.split)
qed simp

lemma loadStore_returns:
  assumes "\<And>i. Expired \<in> set (snd (tries i))"
  shows "loadStore E save name md tries A opt \<noteq> None"
proof -
  have "loadTries E save name md (map tries [0..<N_load]) clean_world opt \<noteq> None"
  proof (rule loadTries_returns)
    fix A evs
    assume "(A, evs) \<in> set (map tries [0..<N_load])"
    then obtain i where "tries i = (A, evs)" by (metis ex_map_conv)
    with assms [of i] show "Expired \<in> set evs" by simp
  qed
  then obtain w r opt' where lt: "loadTries E save name md (map tries [0..<N_load]) clean_world opt = Some (w, r, opt')"
    by (metis option.exhaust prod.exhaust)
  show ?thesis
    unfolding loadStore_def lt by (cases r) (simp_all split: prod.split sum.split option.split)
qed

text \<open>At most four stores are opened.\<close>

lemma loadTries_lost:
  "loadTries E save name md tries w opt = Some (w', r, opt') \<Longrightarrow>
     length (w_lost w') \<le> length (w_lost w) + length tries"
proof (induction tries arbitrary: w opt)
  case (Cons trial tries)
  obtain A evs where [simp]: "trial = (A, evs)" by (cases trial)
  from Cons.prems Cons.IH show ?case
    by (auto simp: leave_open_def lose_def split: prod.splits sum.splits option.splits if_splits dest!: Cons.IH)
qed simp

lemma loadStore_lost:
  assumes "loadStore E save name md tries A opt = Some (w, (so, eo), opt')"
  shows "length (w_lost w) \<le> (if so = None then 4 else 3)"
proof -
  from assms obtain w1 r opt1 where
    lt: "loadTries E save name md (map tries [0..<N_load]) clean_world opt = Some (w1, r, opt1)"
    by (auto simp: loadStore_def split: option.splits prod.splits)
  from loadTries_lost [OF lt] have w1: "length (w_lost w1) \<le> 3"
    by (simp add: N_load_def clean_world_def)
  show ?thesis
  proof (cases r)
    case (Some p)
    with assms lt have "w = w1" by (simp add: loadStore_def)
    with w1 show ?thesis by simp
  next
    case None
    with assms lt w1 show ?thesis
      by (auto simp: loadStore_def lose_def leave_open_def split: prod.splits sum.splits option.splits)
  qed
qed

section \<open>Exactly one of store and error is nil\<close>

lemma finishStore_one:
  assumes "finishStore E rnd pid r = (w, so, eo)" "fst (fst (snd r)) \<noteq> None \<or> snd (fst (snd r)) \<noteq> None"
  shows "so = None \<longleftrightarrow> eo \<noteq> None"
  using assms
  by (auto simp: finishStore_def Let_def split: prod.splits option.splits if_splits sum.splits)

lemma newStore_some:
  "newStore E save name md A opt = (w, (so, eo), opt') \<Longrightarrow> so = None \<longleftrightarrow> eo \<noteq> None"
  by (auto simp: newStore_def split: prod.splits option.splits sum.splits)

lemma loadTries_some:
  "loadTries E save name md tries w opt = Some (w', Some (so, eo), opt') \<Longrightarrow> so = None \<longleftrightarrow> eo \<noteq> None"
proof (induction tries arbitrary: w opt)
  case (Cons trial tries)
  obtain A evs where [simp]: "trial = (A, evs)" by (cases trial)
  from Cons.prems Cons.IH show ?case
    by (auto split: prod.splits sum.splits option.splits if_splits)
qed simp

lemma loadStore_some:
  assumes "loadStore E save name md tries A opt = Some (w, (so, eo), opt')"
  shows "so \<noteq> None \<or> eo \<noteq> None"
proof (cases "loadTries E save name md (map tries [0..<N_load]) clean_world opt")
  case None
  with assms show ?thesis by (simp add: loadStore_def)
next
  case (Some x)
  obtain w1 r opt1 where x: "x = (w1, r, opt1)" by (cases x)
  show ?thesis
  proof (cases r)
    case None
    with assms Some x show ?thesis
      by (auto simp: loadStore_def split: prod.splits sum.splits option.splits)
  next
    case (Some p)
    with assms \<open>loadTries E save name md (map tries [0..<N_load]) clean_world opt = Some x\<close> x loadTries_some [of E save name md "map tries [0..<N_load]" clean_world opt w so eo opt']
    show ?thesis by (cases eo) (auto simp: loadStore_def)
  qed
qed

lemma NewStore_cases:
  assumes "NewStore E save name md tries A rnd opts = Some (w, so, eo)"
  obtains (new) err opt where "parseAddress E name = Inl err"
      "finishStore E rnd [] (newStore E save name md A opt) = (w, so, eo)"
  | (load) stName salt pid lim opt r where "parseAddress E name = Inr (stName, salt, pid, lim)"
      "so_Salt opt = salt" "so_TimeLimit opt = lim"
      "loadStore E save stName md tries A opt = Some r" "finishStore E rnd pid r = (w, so, eo)"
proof (cases "parseAddress E name")
  case (Inl err)
  with assms new show thesis by (auto simp: NewStore_def Let_def)
next
  case (Inr a)
  obtain stName salt pid lim where a: "a = (stName, salt, pid, lim)" by (cases a)
  let ?opt = "(case opts of [] \<Rightarrow> empty_opts | o0 # _ \<Rightarrow> o0)\<lparr>so_Salt := salt, so_TimeLimit := lim\<rparr>"
  from assms Inr a obtain r where r: "loadStore E save stName md tries A ?opt = Some r"
    "finishStore E rnd pid r = (w, so, eo)"
    by (auto simp: NewStore_def Let_def split: option.splits)
  show thesis by (rule load [OF Inr [unfolded a] _ _ r]) simp_all
qed

lemma NewStore_one:
  assumes "NewStore E save name md tries A rnd opts = Some (w, so, eo)"
  shows "so = None \<longleftrightarrow> eo \<noteq> None"
  using assms
proof (cases rule: NewStore_cases)
  case (new err opt)
  obtain w0 s0 e0 o0 where n: "newStore E save name md A opt = (w0, (s0, e0), o0)"
    by (metis prod.exhaust)
  from finishStore_one [OF new(2)] newStore_some [OF n] show ?thesis by (auto simp: n)
next
  case (load stName salt pid lim opt r)
  obtain w0 s0 e0 o0 where r: "r = (w0, (s0, e0), o0)" by (metis prod.exhaust)
  from finishStore_one [OF load(5)] loadStore_some [OF load(4) [unfolded r]] show ?thesis by (simp add: r)
qed

lemma finishStore_lost:
  "finishStore E rnd pid (w0, (s0, e0), opt) = (w, so, eo) \<Longrightarrow>
     length (w_lost w) \<le> length (w_lost w0) + (if s0 = None then 0 else 1)"
  by (cases s0) (auto simp: finishStore_def lose_def Let_def split: prod.splits option.splits if_splits sum.splits)

lemma NewStore_lost:
  assumes "NewStore E save name md tries A rnd opts = Some (w, so, eo)"
  shows "length (w_lost w) \<le> 4"
  using assms
proof (cases rule: NewStore_cases)
  case (new err opt)
  obtain w0 s0 e0 o0 where n: "newStore E save name md A opt = (w0, (s0, e0), o0)"
    by (metis prod.exhaust)
  then have "length (w_lost w0) \<le> 1"
    by (auto simp: newStore_def lose_def leave_open_def clean_world_def split: prod.splits sum.splits option.splits)
  with finishStore_lost [OF new(2) [unfolded n]] show ?thesis by (auto split: if_splits)
next
  case (load stName salt pid lim opt r)
  obtain w0 s0 e0 o0 where r: "r = (w0, (s0, e0), o0)" by (metis prod.exhaust)
  from loadStore_lost [OF load(4) [unfolded r]] finishStore_lost [OF load(5) [unfolded r]]
  show ?thesis by (auto split: if_splits)
qed

lemma NewStore_returns:
  assumes "\<And>i. Expired \<in> set (snd (tries i))"
  obtains w so eo where "NewStore E save name md tries A rnd opts = Some (w, so, eo)"
proof -
  have ls: "loadStore E save nm md tries A opt \<noteq> None" for nm opt
    by (rule loadStore_returns) (rule assms)
  have "NewStore E save name md tries A rnd opts \<noteq> None"
    using ls
    by (simp add: NewStore_def Let_def del: not_None_eq split: sum.split prod.split option.split)
  with that show thesis by (metis option.exhaust prod.exhaust)
qed

section \<open>What is left when loading fails\<close>

text \<open>
  When all tries timed out, \<open>loadStore\<close> returns a store and the error \<open>load failed\<close>. Without a
  master key in the address \<open>NewStore\<close> then drops the store: it is neither returned nor closed.
  With one it drops the error.
\<close>

lemma load_failed_dropped:
  assumes "parseAddress E name = Inr (stName, salt, [], lim)"
    and "loadStore E save stName md tries A
      ((case opts of [] \<Rightarrow> empty_opts | o0 # _ \<Rightarrow> o0)\<lparr>so_Salt := salt, so_TimeLimit := lim\<rparr>) =
        Some (w, (Some s, Some err), opt')"
  shows "NewStore E save name md tries A rnd opts = Some (lose s w, (None, Some err))"
  using assms by (simp add: NewStore_def finishStore_def Let_def)

lemma load_failed_masked:
  assumes "parseAddress E name = Inr (stName, salt, pid, lim)" "pid \<noteq> []"
    and "loadStore E save stName md tries A
      ((case opts of [] \<Rightarrow> empty_opts | o0 # _ \<Rightarrow> o0)\<lparr>so_Salt := salt, so_TimeLimit := lim\<rparr>) =
        Some (w, (Some s, Some err), opt')"
    and "loadAccessStore E rnd s pid [opt'] = (Inr ac, opts')"
  shows "NewStore E save name md tries A rnd opts = Some (w, (Some (st_autoSync E ac), None))"
  using assms by (simp add: NewStore_def finishStore_def Let_def)

section \<open>A loaded store has the address it was loaded from\<close>

text \<open>Same implementation, keys, name and time limit, hence the same address.\<close>

definition same_face :: "('d, 'priv, 'pub) store \<Rightarrow> ('d, 'priv, 'pub) store \<Rightarrow> bool" where
  "same_face s s' \<longleftrightarrow> same_kind s s' \<and> bs_name (st_base s') = bs_name (st_base s)
     \<and> bs_timeLimit (st_base s') = bs_timeLimit (st_base s)"

lemma same_face_refl [simp]: "same_face s s"
  by (simp add: same_face_def)

lemma same_face_trans: "same_face s t \<Longrightarrow> same_face t u \<Longrightarrow> same_face s u"
  unfolding same_face_def using same_kind_trans by auto

lemma same_face_map:
  "(\<And>b. bs_name (f b) = bs_name b \<and> bs_timeLimit (f b) = bs_timeLimit b) \<Longrightarrow> same_face s (st_map f s)"
  by (simp add: same_face_def)

lemma same_face_address: "same_face s s' \<Longrightarrow> st_Address E s' = st_Address E s"
proof -
  have "same_kind s s' \<Longrightarrow> bs_name (st_base s') = bs_name (st_base s) \<Longrightarrow>
      bs_timeLimit (st_base s') = bs_timeLimit (st_base s) \<Longrightarrow> st_Address E s' = st_Address E s"
    by (induction s s' rule: same_kind.induct) (simp_all add: base_Address_def hs_Address_def)
  then show "same_face s s' \<Longrightarrow> ?thesis" by (simp add: same_face_def)
qed

lemma put_face: "st_Put E now key val s = (s', err) \<Longrightarrow> same_face s s'"
  using st_Put_kind st_Put_closed by (simp add: same_face_def) blast

lemma sync_face: "same_face s (fst (st_Sync E s))"
  unfolding st_Sync_def fst_conv
  by (rule same_face_map) (simp add: base_Sync_def split_beta Let_def)

lemma autoSync_face: "same_face s (st_autoSync E s)"
  unfolding st_autoSync_def
  by (rule same_face_map) (simp add: base_autoSync_def split: prod.split option.split)

lemma arrive_face: "same_face s (arrive d over s)"
proof -
  have "same_face s (with_data d s)" unfolding with_data_def by (rule same_face_map) simp
  moreover have "same_face t (end_window t)" for t :: "('a, 'b, 'c) store"
    unfolding end_window_def by (rule same_face_map) simp
  ultimately show ?thesis by (auto simp: arrive_def Let_def intro: same_face_trans)
qed

lemma loadCheck_face: "verse_loadCheck E evs s = Some (s', None) \<Longrightarrow> same_face s s'"
proof (induction evs arbitrary: s)
  case (Cons ev evs)
  show ?case
  proof (cases ev)
    case (Tick d over)
    from Cons.prems Tick obtain s1 where s1: "st_Sync E (arrive d over s) = (s1, None)"
      and rest: "(if st_loadCheck E s1 then Some (s1, None) else verse_loadCheck E evs s1) = Some (s', None)"
      by (auto split: prod.splits option.splits)
    have "same_face s s1"
      using same_face_trans [OF arrive_face [of s d over] sync_face [of _ E]] by (simp add: s1)
    moreover have "same_face s1 s'"
      using rest Cons.IH [of s1] by (auto split: if_splits)
    ultimately show ?thesis by (rule same_face_trans)
  next
    case Expired
    with Cons.prems show ?thesis by simp
  qed
qed simp

lemma put_same:
  "st_Put E now key val s = (s', err) \<Longrightarrow>
     same_face s s' \<and> bs_closed (st_base s') = bs_closed (st_base s)"
  using put_face [of E now key val s s' err] st_Put_closed [of E now key val s s' err] by simp

lemma initPut_same:
  "st_initPut E now s = (s', err) \<Longrightarrow>
     same_face s s' \<and> bs_closed (st_base s') = bs_closed (st_base s)"
proof (induction s arbitrary: s' err)
  case (LogStore b)
  then show ?case using put_same [of E now "bs_name b" "bytes_of_string (bs_name b)" "LogStore b"]
    by (simp add: base_initPut_def)
next
  case (UpdatableStore b)
  then show ?case using put_same [of E now "bs_name b" "bytes_of_string (bs_name b)" "UpdatableStore b"]
    by (simp add: upd_initPut_def)
next
  case (SignatureStore b)
  then show ?case
    using put_same [of E now "bs_name (sg_base b)" "bytes_of_string (bs_name (sg_base b))" "SignatureStore b"]
    by (simp add: sg_initPut_def sg_Put_def)
next
  case (UpdatableSignatureStore b)
  then show ?case
    using put_same [of E now "bs_name (sg_base b)" "bytes_of_string (bs_name (sg_base b))"
        "UpdatableSignatureStore b"]
    by (simp add: us_initPut_def us_Put_def)
next
  case (HashStore b)
  then show ?case
    using put_same [of E now "bs_name (hs_base b)" "bytes_of_string (bs_name (hs_base b))" "HashStore b"]
    by (simp add: hs_initPut_def hs_Put_def Let_def)
next
  case (AccessStore b priv pub)
  then show ?case by (auto simp: same_face_def split: prod.splits)
qed

lemma initPut_face: "st_initPut E now s = (s', err) \<Longrightarrow> same_face s s'"
  by (simp add: initPut_same)

lemma initPut_closed: "st_initPut E now s = (s', err) \<Longrightarrow> bs_closed (st_base s') = bs_closed (st_base s)"
  by (simp add: initPut_same)

text \<open>The mode a constructor was selected by.\<close>

definition mode_of :: "string \<Rightarrow> mode" where
  "mode_of md =
     (if md = ''updatable'' then MUpdatable else if md = ''signature'' then MSignature
      else if md = ''updatableSignature'' then MUpdatableSignature else if md = ''hash'' then MHash else MLog)"

definition salt_of :: "('d, 'priv, 'pub) store \<Rightarrow> slice" where
  "salt_of s = (case s of HashStore h \<Rightarrow> hs_salt h | _ \<Rightarrow> None)"

lemma with_limit_fields [simp]:
  "bs_name (with_limit now lim st) = bs_name st" "bs_timeLimit (with_limit now lim st) = lim"
  "bs_closed (with_limit now lim st) = bs_closed st" "bs_ctxDone (with_limit now lim st) = bs_ctxDone st"
  by (simp_all add: with_limit_def base_setTimeLimit_def)

definition fresh_store :: "string \<Rightarrow> string \<Rightarrow> ('priv, 'pub) store_opts \<Rightarrow> ('d, 'priv, 'pub) store \<Rightarrow> bool" where
  "fresh_store md name opt s \<longleftrightarrow> store_mode s = mode_of md \<and> bs_name (st_base s) = name
     \<and> bs_timeLimit (st_base s) = so_TimeLimit opt \<and> bs_closed (st_base s) = []
     \<and> (\<nexists>b priv pub. s = AccessStore b priv pub)
     \<and> (mode_of md = MHash \<longrightarrow> so_Salt opt \<noteq> None \<longrightarrow> salt_of s = so_Salt opt)"

lemma constructor_cases:
  assumes "selectNewStore E save name md A [opt] = (opened, Inr s, opts)"
  obtains st where "initCRDT save name (at_run A) = (opened, Inr st)"
    "bs_closed (st_base s) = bs_closed st" "bs_name (st_base s) = bs_name st"
    "bs_timeLimit (st_base s) = so_TimeLimit opt" "store_mode s = mode_of md"
    "\<nexists>b priv pub. s = AccessStore b priv pub"
    "mode_of md = MHash \<longrightarrow> so_Salt opt \<noteq> None \<longrightarrow> salt_of s = so_Salt opt"
    "opts \<noteq> []" "so_Salt opt \<noteq> None \<longrightarrow> so_Salt (hd opts) = so_Salt opt"
    "so_TimeLimit (hd opts) = so_TimeLimit opt"
proof (cases "initCRDT save name (at_run A)")
  case (Pair o' r)
  show thesis
  proof (cases r)
    case (Inl e)
    with assms Pair show thesis
      by (simp add: selectNewStore_def NewLogStore_def NewUpdatableStore_def NewSignatureStore_def
          NewUpdatableSignatureStore_def NewHashStore_def split: if_splits)
  next
    case (Inr st)
    note run = Pair [unfolded Inr]
    consider "md = ''updatable''" | "md = ''signature''" | "md = ''updatableSignature''" | "md = ''hash''"
      | "md \<noteq> ''updatable''" "md \<noteq> ''signature''" "md \<noteq> ''updatableSignature''" "md \<noteq> ''hash''"
      by blast
    then show thesis
    proof cases
      case 1
      with assms run show thesis
        by (intro that [of st])
          (auto simp: selectNewStore_def NewUpdatableStore_def getLogOpts_def mode_of_def Let_def)
    next
      case 2
      with assms run show thesis
        by (intro that [of st])
          (auto simp: selectNewStore_def NewSignatureStore_def getSignatureOpts_def mode_of_def Let_def
            split: prod.splits)
    next
      case 3
      with assms run show thesis
        by (intro that [of st])
          (auto simp: selectNewStore_def NewUpdatableSignatureStore_def getUpdatableSignatureOpts_def
            mode_of_def Let_def split: prod.splits)
    next
      case 4
      with assms run show thesis
        by (intro that [of st])
          (auto simp: selectNewStore_def NewHashStore_def getHashOpts_def mode_of_def salt_of_def Let_def)
    next
      case 5
      with assms run show thesis
        by (intro that [of st])
          (auto simp: selectNewStore_def NewLogStore_def getLogOpts_def mode_of_def Let_def)
    qed
  qed
qed

lemma selectNewStore_ok:
  assumes "selectNewStore E save name md A [opt] = (opened, Inr s, opts)"
  shows "fresh_store md name opt s" "opts \<noteq> []" "so_Salt opt \<noteq> None \<Longrightarrow> so_Salt (hd opts) = so_Salt opt"
    "so_TimeLimit (hd opts) = so_TimeLimit opt"
proof -
  from assms obtain st where st: "initCRDT save name (at_run A) = (opened, Inr st)"
    and s: "bs_closed (st_base s) = bs_closed st" "bs_name (st_base s) = bs_name st"
    "bs_timeLimit (st_base s) = so_TimeLimit opt" "store_mode s = mode_of md"
    "\<nexists>b priv pub. s = AccessStore b priv pub"
    "mode_of md = MHash \<longrightarrow> so_Salt opt \<noteq> None \<longrightarrow> salt_of s = so_Salt opt"
    and o: "opts \<noteq> []" "so_Salt opt \<noteq> None \<longrightarrow> so_Salt (hd opts) = so_Salt opt"
    "so_TimeLimit (hd opts) = so_TimeLimit opt"
    by (rule constructor_cases)
  from initCRDT_ok(2,4) [OF st] s show "fresh_store md name opt s" by (simp add: fresh_store_def)
  from o show "opts \<noteq> []" "so_Salt opt \<noteq> None \<Longrightarrow> so_Salt (hd opts) = so_Salt opt"
    "so_TimeLimit (hd opts) = so_TimeLimit opt" by simp_all
qed

lemma loadTries_store:
  assumes "loadTries E save name md tries w opt = Some (w', Some (Some s, eo), opt')"
    and "mode_of md = MHash \<Longrightarrow> so_Salt opt \<noteq> None"
  obtains s0 opt0 where "fresh_store md name opt0 s0" "same_face s0 s"
    "so_TimeLimit opt0 = so_TimeLimit opt" "mode_of md = MHash \<Longrightarrow> so_Salt opt0 = so_Salt opt"
  using assms
proof (induction tries arbitrary: w opt thesis)
  case (Cons trial tries)
  obtain A evs where trial: "trial = (A, evs)" by (cases trial)
  obtain opened r opts where sel: "selectNewStore E save name md A [opt] = (opened, r, opts)"
    by (metis prod.exhaust)
  show ?case
  proof (cases r)
    case (Inl err)
    have "hd opts = opt"
      using sel [unfolded Inl] unfolding selectNewStore_def NewLogStore_def NewUpdatableStore_def
        NewSignatureStore_def NewUpdatableSignatureStore_def NewHashStore_def
      by (auto simp: Let_def split: if_splits prod.splits sum.splits)
    with Cons.prems(2) sel Inl trial
    have "loadTries E save name md tries (leave_open opened w) opt = Some (w', Some (Some s, eo), opt')"
      by (simp split: if_splits)
    from Cons.IH [OF Cons.prems(1) this Cons.prems(3)] show ?thesis .
  next
    case (Inr s1)
    note ok = selectNewStore_ok [OF sel [unfolded Inr]]
    obtain s2 eo2 where lc: "verse_loadCheck E evs s1 = Some (s2, eo2)"
      using Cons.prems(2) sel Inr trial by (auto split: option.splits prod.splits)
    show ?thesis
    proof (cases eo2)
      case None
      with Cons.prems(2) sel Inr trial lc have "s2 = s" by simp
      with loadCheck_face [OF lc [unfolded None]] ok(1) show ?thesis
        by (intro Cons.prems(1)) simp_all
    next
      case (Some err)
      with Cons.prems(2) sel Inr trial lc
      have rest: "loadTries E save name md tries (lose s2 w) (hd opts) = Some (w', Some (Some s, eo), opt')"
        by (simp split: if_splits)
      have "mode_of md = MHash \<Longrightarrow> so_Salt (hd opts) \<noteq> None"
        using Cons.prems(3) ok(3) by simp
      from Cons.IH [OF _ rest this] obtain s0 opt0 where "fresh_store md name opt0 s0" "same_face s0 s"
        "so_TimeLimit opt0 = so_TimeLimit (hd opts)" "mode_of md = MHash \<Longrightarrow> so_Salt opt0 = so_Salt (hd opts)"
        by metis
      with ok(3,4) Cons.prems(3) show ?thesis by (intro Cons.prems(1) [of opt0 s0]) simp_all
    qed
  qed
qed simp

lemma loadTries_opts:
  assumes "loadTries E save name md tries w opt = Some (w', r, opt')"
  shows "so_TimeLimit opt' = so_TimeLimit opt" "so_Salt opt \<noteq> None \<Longrightarrow> so_Salt opt' = so_Salt opt"
proof -
  have "so_TimeLimit opt' = so_TimeLimit opt \<and> (so_Salt opt \<noteq> None \<longrightarrow> so_Salt opt' = so_Salt opt)"
    using assms
  proof (induction tries arbitrary: w opt)
    case (Cons trial tries)
    obtain A evs where trial: "trial = (A, evs)" by (cases trial)
    obtain opened q opts where sel: "selectNewStore E save name md A [opt] = (opened, q, opts)"
      by (metis prod.exhaust)
    have opts: "so_TimeLimit (hd opts) = so_TimeLimit opt \<and> (so_Salt opt \<noteq> None \<longrightarrow> so_Salt (hd opts) = so_Salt opt)"
    proof (cases q)
      case (Inl err)
      have "hd opts = opt"
        using sel [unfolded Inl] unfolding selectNewStore_def NewLogStore_def NewUpdatableStore_def
          NewSignatureStore_def NewUpdatableSignatureStore_def NewHashStore_def
        by (auto simp: Let_def split: if_splits prod.splits sum.splits)
      then show ?thesis by simp
    next
      case (Inr s)
      from selectNewStore_ok [OF sel [unfolded Inr]] show ?thesis by simp
    qed
    have IH: "so_TimeLimit opt' = so_TimeLimit opt \<and> (so_Salt opt \<noteq> None \<longrightarrow> so_Salt opt' = so_Salt opt)"
      if "loadTries E save name md tries w1 (hd opts) = Some (w', r, opt')" for w1
      using Cons.IH [OF that] opts by simp
    from Cons.prems sel trial opts IH show ?case
      by (auto split: sum.splits option.splits prod.splits if_splits)
  qed simp
  then show "so_TimeLimit opt' = so_TimeLimit opt" "so_Salt opt \<noteq> None \<Longrightarrow> so_Salt opt' = so_Salt opt"
    by simp_all
qed

lemma loadStore_store:
  assumes run: "loadStore E save name md tries A opt = Some (w, (Some s, eo), opt')"
    and salt: "mode_of md = MHash \<Longrightarrow> so_Salt opt \<noteq> None"
  obtains s0 opt0 where "fresh_store md name opt0 s0" "same_face s0 s"
    "so_TimeLimit opt0 = so_TimeLimit opt" "mode_of md = MHash \<Longrightarrow> so_Salt opt0 = so_Salt opt"
proof -
  from run obtain w1 r opt1 where
    lt: "loadTries E save name md (map tries [0..<N_load]) clean_world opt = Some (w1, r, opt1)"
    by (auto simp: loadStore_def split: option.splits prod.splits)
  show thesis
  proof (cases r)
    case (Some p)
    with run lt have "p = (Some s, eo)" by (simp add: loadStore_def)
    with lt Some salt that show thesis by (metis loadTries_store)
  next
    case None
    note o = loadTries_opts [OF lt]
    from run lt None obtain opened s1 opts where sel: "selectNewStore E save name md A [opt1] = (opened, Inr s1, opts)"
      and put: "st_initPut E (at_now A) s1 = (s, None)"
      by (auto simp: loadStore_def split: prod.splits sum.splits option.splits)
    from selectNewStore_ok(1) [OF sel] initPut_face [OF put] o salt show thesis
      by (intro that [of opt1 s1]) simp_all
  qed
qed

lemma same_face_salt: "same_face s s' \<Longrightarrow> salt_of s' = salt_of s"
  by (cases s; cases s') (simp_all add: same_face_def salt_of_def)

lemma fresh_address:
  assumes "fresh_store md name opt s" "mode_of md = MHash \<Longrightarrow> so_Salt opt \<noteq> None"
  shows "st_Address E s =
    MakeAddress E name [] (if mode_of md = MHash then so_Salt opt else None) [so_TimeLimit opt]"
  using assms
  by (cases s) (auto simp: fresh_store_def base_Address_def hs_Address_def salt_of_def)

lemma fresh_not_access: "fresh_store md name opt s \<Longrightarrow> same_face s s' \<Longrightarrow> s' \<noteq> AccessStore b priv pub"
  by (cases s) (auto simp: fresh_store_def same_face_def)

lemma finishStore_plain:
  assumes "finishStore E rnd [] r = (w, Some s, None)"
  obtains w' s1 opt where "r = (w', (Some s1, None), opt)" "s = st_autoSync E s1"
  using assms
  by (auto simp: finishStore_def Let_def split: prod.splits option.splits)

lemma finishStore_access:
  assumes "finishStore E rnd pid r = (w, Some s, None)" "pid \<noteq> []"
  obtains w' s1 e opt priv vk where "r = (w', (Some s1, e), opt)"
    "StrToPubKey (lib_id E) (crypto E) pid = Inr vk" "s = st_autoSync E (AccessStore s1 priv (Some vk))"
  using assms
  by (auto simp: finishStore_def loadAccessStore_def Let_def split: prod.splits option.splits sum.splits if_splits)

text \<open>Loading by the address of a store that is no access store.\<close>

lemma NewStore_plain_address:
  assumes addr: "parseAddress E name = Inr (stName, salt, [], lim)"
    and salt: "mode_of md = MHash \<Longrightarrow> salt \<noteq> None"
    and run: "NewStore E save name md tries A rnd opts = Some (w, Some s, None)"
  shows "store_mode s = mode_of md"
    and "st_Address E s = MakeAddress E stName [] (if mode_of md = MHash then salt else None) [lim]"
    and "mode_of md = MHash \<Longrightarrow> salt_of s = salt" and "s \<noteq> AccessStore b priv pub"
proof -
  from run have "store_mode s = mode_of md \<and> (mode_of md = MHash \<longrightarrow> salt_of s = salt) \<and>
      (\<forall>b priv pub. s \<noteq> AccessStore b priv pub) \<and> st_Address E s = MakeAddress E stName [] (if mode_of md = MHash then salt else None) [lim]"
  proof (cases rule: NewStore_cases)
    case (new err opt)
    with addr show ?thesis by simp
  next
    case (load stName' salt' pid' lim' opt r)
    from load(1) addr have eq: "stName' = stName" "salt' = salt" "pid' = []" "lim' = lim" by simp_all
    from load(5) [unfolded eq] obtain w' s1 opt' where r: "r = (w', (Some s1, None), opt')"
      and s: "s = st_autoSync E s1" by (rule finishStore_plain)
    have ne: "mode_of md = MHash \<Longrightarrow> so_Salt opt \<noteq> None" using salt load(2) eq by simp
    obtain s0 opt0 where s0: "fresh_store md stName opt0 s0" "same_face s0 s1"
      "so_TimeLimit opt0 = so_TimeLimit opt" "mode_of md = MHash \<Longrightarrow> so_Salt opt0 = so_Salt opt"
      using loadStore_store [OF load(4) [unfolded r eq] ne] by metis
    have face: "same_face s0 s"
      unfolding s by (rule same_face_trans [OF s0(2) autoSync_face])
    then have "store_mode s = store_mode s0" by (simp add: same_face_def same_kind_mode)
    with s0(1) have "store_mode s = mode_of md" by (simp add: fresh_store_def)
    moreover have "st_Address E s = st_Address E s0" by (rule same_face_address [OF face])
    moreover have "mode_of md = MHash \<Longrightarrow> salt_of s = salt"
      using same_face_salt [OF face] s0(1,4) ne load(2) eq by (auto simp: fresh_store_def)
    ultimately show ?thesis
      using fresh_address [OF s0(1), of E] s0(3,4) load(2,3) eq ne fresh_not_access [OF s0(1) face] by auto
  qed
  then show "store_mode s = mode_of md"
    "st_Address E s = MakeAddress E stName [] (if mode_of md = MHash then salt else None) [lim]"
    "mode_of md = MHash \<Longrightarrow> salt_of s = salt" "s \<noteq> AccessStore b priv pub"
    by simp_all
qed

text \<open>Loading by the address of an access store: the store loaded checks against the same key.\<close>

lemma NewStore_access_store:
  assumes L: "libs_ok E" and addr: "parseAddress E name = Inr (stName, salt, pid, lim)"
    and pid: "pid = PubKeyToStr (lib_id E) (crypto E) pub" "pid \<noteq> []"
    and salt: "mode_of md = MHash \<Longrightarrow> salt \<noteq> None"
    and run: "NewStore E save name md tries A rnd opts = Some (w, Some s, None)"
  obtains b priv where "s = AccessStore b priv pub" "store_mode s = mode_of md"
    "st_Address E b = MakeAddress E stName [] (if mode_of md = MHash then salt else None) [lim]"
    "mode_of md = MHash \<Longrightarrow> salt_of b = salt" "\<nexists>b' p q. b = AccessStore b' p q"
  using run
proof (cases rule: NewStore_cases)
  case (new err opt)
  with addr show ?thesis by simp
next
  case (load stName' salt' pid' lim' opt r)
  from load(1) addr have eq: "stName' = stName" "salt' = salt" "pid' = pid" "lim' = lim" by simp_all
  from load(5) [unfolded eq] pid(2) obtain w' s1 e opt' priv vk where r: "r = (w', (Some s1, e), opt')"
    and vk: "StrToPubKey (lib_id E) (crypto E) pid = Inr vk"
    and s: "s = st_autoSync E (AccessStore s1 priv (Some vk))" by (rule finishStore_access)
  have pub: "pub = Some vk"
    using StrToPubKey_PubKeyToStr [OF libs_okD(2) [OF L] libs_okD(3) [OF L]] pid vk by (metis sum.inject(2))
  have ne: "mode_of md = MHash \<Longrightarrow> so_Salt opt \<noteq> None" using salt load(2) eq by simp
  obtain s0 opt0 where s0: "fresh_store md stName opt0 s0" "same_face s0 s1"
    "so_TimeLimit opt0 = so_TimeLimit opt" "mode_of md = MHash \<Longrightarrow> so_Salt opt0 = so_Salt opt"
    using loadStore_store [OF load(4) [unfolded r eq] ne] by metis
  let ?b = "st_autoSync E s1"
  have face: "same_face s0 ?b" by (rule same_face_trans [OF s0(2) autoSync_face])
  have "s = AccessStore ?b priv pub" by (simp add: s pub st_autoSync_def)
  moreover have "store_mode ?b = mode_of md"
    using same_kind_mode [of s0 ?b] face s0(1) by (simp add: same_face_def fresh_store_def)
  moreover have "st_Address E ?b = MakeAddress E stName [] (if mode_of md = MHash then salt else None) [lim]"
    using same_face_address [OF face, of E] fresh_address [OF s0(1), of E] s0(3,4) load(2,3) eq ne by auto
  moreover have "mode_of md = MHash \<Longrightarrow> salt_of ?b = salt"
    using same_face_salt [OF face] s0(1,4) ne load(2) eq by (auto simp: fresh_store_def)
  moreover have "\<nexists>b' p q. ?b = AccessStore b' p q" using fresh_not_access [OF s0(1) face] by simp
  ultimately show thesis by (intro that) simp_all
qed

lemma reload_plain:
  assumes P: "protos_ok (lib_pb E)" "protos_total (lib_pb E)" and names: "ascii nm"
    and lim: "wf_time lim" "t_loc lim = UTC" "no_mono lim"
    and salt: "salt = (if mode_of md = MHash then Some sb else None)" "sb \<noteq> []"
    and run: "NewStore E save (MakeAddress E nm [] salt [lim]) md tries A rnd opts = Some (w, Some s, None)"
  shows "st_Address E s = MakeAddress E nm [] salt [lim]"
proof -
  have "parseAddress E (MakeAddress E nm [] salt [lim]) = Inr (nm, salt, [], lim)"
    using parse_MakeAddress_UTC [OF P names _ lim(1,2), of "[]" salt] salt lim(3)
    by (simp add: ascii_def strip_mono_id canon_slice_def)
  from NewStore_plain_address(2) [OF this _ run] salt(1) show ?thesis by (cases "mode_of md = MHash") simp_all
qed

lemma reload_access:
  assumes P: "protos_ok (lib_pb E)" "protos_total (lib_pb E)" "libs_ok E" and names: "ascii nm" "ascii pid"
    and lim: "wf_time lim" "t_loc lim = UTC" "no_mono lim"
    and pid: "pid = PubKeyToStr (lib_id E) (crypto E) pub" "pid \<noteq> []"
    and salt: "salt = (if mode_of md = MHash then Some sb else None)" "sb \<noteq> []"
    and run: "NewStore E save (MakeAddress E nm pid salt [lim]) md tries A rnd opts = Some (w, Some s, None)"
  shows "st_Address E s = MakeAddress E nm pid salt [lim]"
proof -
  have parse: "parseAddress E (MakeAddress E nm p salt [lim]) = Inr (nm, salt, p, lim)" if "ascii p" for p
    using parse_MakeAddress_UTC [OF P(1,2) names(1) that lim(1,2), of salt] salt lim(3)
    by (simp add: strip_mono_id canon_slice_def)
  obtain b priv where s: "s = AccessStore b priv pub"
    and b: "st_Address E b = MakeAddress E nm [] (if mode_of md = MHash then salt else None) [lim]"
    using NewStore_access_store [OF P(3) parse [OF names(2)] pid _ run] salt(1) by (metis option.distinct(1))
  have "st_Address E b = MakeAddress E nm [] salt [lim]"
    using b salt(1) by (cases "mode_of md = MHash") simp_all
  with parse [of "[]"] show ?thesis by (simp add: s pid(1) ascii_def Let_def)
qed

section \<open>What an unsuccessful run leaves behind\<close>

text \<open>
  Every store that \<open>loadTries\<close> gives up has been cancelled, so its four resources are closed.
\<close>

definition cancelled :: "('d, 'priv, 'pub) store \<Rightarrow> bool" where
  "cancelled s \<longleftrightarrow> bs_ctxDone (st_base s) \<and> {RDatastore, RBadger, RDHT, RHost} \<subseteq> set (bs_closed (st_base s))"

lemma cancelled_Cancel [simp]: "cancelled (st_Cancel E s)" "cancelled (st_Close E s)"
  by (simp_all add: cancelled_def st_Cancel_def st_Close_def base_Close_def base_Cancel_def Let_def)

lemma loadCheck_error_cancelled: "verse_loadCheck E evs s = Some (s', Some err) \<Longrightarrow> cancelled s'"
proof (induction evs arbitrary: s)
  case (Cons ev evs)
  then show ?case by (cases ev) (auto split: prod.splits option.splits if_splits)
qed simp

lemma loadTries_cancelled:
  "loadTries E save name md tries w opt = Some (w', r, opt') \<Longrightarrow> list_all cancelled (w_lost w) \<Longrightarrow>
     list_all cancelled (w_lost w')"
proof (induction tries arbitrary: w opt)
  case (Cons trial tries)
  obtain A evs where trial: "trial = (A, evs)" by (cases trial)
  obtain opened q opts where sel: "selectNewStore E save name md A [opt] = (opened, q, opts)"
    by (metis prod.exhaust)
  show ?case
  proof (cases q)
    case (Inl err)
    with Cons.prems sel trial Cons.IH [of "leave_open opened w" "hd opts"] show ?thesis
      by (auto simp: leave_open_def split: if_splits)
  next
    case (Inr s)
    with Cons.prems(1) sel trial obtain s1 e1 where lc: "verse_loadCheck E evs s = Some (s1, e1)"
      by (auto split: option.splits prod.splits)
    show ?thesis
    proof (cases e1)
      case None
      with Cons.prems sel trial Inr lc show ?thesis by simp
    next
      case (Some err)
      from loadCheck_error_cancelled [OF lc [unfolded Some]] Cons.prems(2)
      have "list_all cancelled (w_lost (lose s1 w))" by (simp add: lose_def)
      with Cons.prems(1) sel trial Inr lc Some Cons.IH [of "lose s1 w" "hd opts"] show ?thesis
        by (auto split: if_splits)
    qed
  qed
qed simp

text \<open>The store of a failed load is the exception: nothing has closed it.\<close>

lemma load_failed_open:
  assumes run: "loadStore E save name md tries A opt = Some (w, (Some s, Some err), opt')"
  shows "err = err_load_failed" "bs_closed (st_base s) = []"
proof -
  from run obtain w1 r opt1 where
    lt: "loadTries E save name md (map tries [0..<N_load]) clean_world opt = Some (w1, r, opt1)"
    by (auto simp: loadStore_def split: option.splits prod.splits)
  have "r = None"
  proof (rule ccontr)
    assume "r \<noteq> None"
    with run lt have "r = Some (Some s, Some err)" by (auto simp: loadStore_def)
    with loadTries_some lt show False by blast
  qed
  with run lt obtain opened s1 opts where sel: "selectNewStore E save name md A [opt1] = (opened, Inr s1, opts)"
    and put: "st_initPut E (at_now A) s1 = (s, None)" and "err = err_load_failed"
    by (auto simp: loadStore_def split: prod.splits sum.splits option.splits)
  then show "err = err_load_failed" by simp
  have "bs_closed (st_base s1) = []"
    using selectNewStore_ok(1) [OF sel] by (simp add: fresh_store_def)
  moreover have "bs_closed (st_base s) = bs_closed (st_base s1)"
    using put by (rule initPut_closed)
  ultimately show "bs_closed (st_base s) = []" by simp
qed

end
