(* ===== verification/Util.thy ===== *)
theory Util
  imports Base64 Messages Crypto
begin

text \<open>
  util.go: addresses of peers, as values and as strings. An \<open>AddrInfo\<close> is written as the base64 of a
  protobuf message whose \<open>ID\<close> is the printed peer ID and whose \<open>Addrs\<close> are the multiaddresses in
  binary. The multiaddress library and the codecs are parameters.
\<close>

section \<open>Peer addresses\<close>

text \<open>A \<open>peer.ID\<close> is a byte string; the empty one is the zero value.\<close>

record 'ma addr_info =
  ai_ID :: bytes
  ai_Addrs :: "'ma list"

definition zero_addr_info :: "'ma addr_info" where
  "zero_addr_info = \<lparr>ai_ID = [], ai_Addrs = []\<rparr>"

record pb_addr_info =
  pa_ID :: string
  pa_Addrs :: "bytes list"

record 'ma util_lib =
  ma_bytes :: "'ma \<Rightarrow> bytes"
  ma_new :: "bytes \<Rightarrow> 'ma res"
  ul_id :: id_lib
  pb_info :: "pb_addr_info codec"
  pb_infos :: "pb_addr_info list codec"

definition AddrInfo :: "bytes \<Rightarrow> 'ma list \<Rightarrow> 'ma addr_info" where
  "AddrInfo pid maddrs = \<lparr>ai_ID = pid, ai_Addrs = maddrs\<rparr>"

definition RandBytes :: "(nat \<Rightarrow> bytes) \<Rightarrow> nat \<Rightarrow> bytes" where
  "RandBytes rnd bSize = rnd bSize"

definition RandString :: "(nat \<Rightarrow> bytes) \<Rightarrow> nat \<Rightarrow> string" where
  "RandString rnd bSize = b64_encode (rnd bSize)"

fun sliceToMap :: "'ma addr_info list \<Rightarrow> (bytes \<rightharpoonup> 'ma addr_info) \<Rightarrow> (bytes \<rightharpoonup> 'ma addr_info)" where
  "sliceToMap [] m = m"
| "sliceToMap (e # es) m = sliceToMap es (m(ai_ID e \<mapsto> e))"

definition AddrInfoSliceToMap :: "'ma addr_info list \<Rightarrow> (bytes \<rightharpoonup> 'ma addr_info)" where
  "AddrInfoSliceToMap slc = sliceToMap slc Map.empty"

definition peerToPb :: "'ma util_lib \<Rightarrow> 'ma addr_info \<Rightarrow> pb_addr_info" where
  "peerToPb U ai = \<lparr>pa_ID = pid_pretty (ul_id U) (ai_ID ai), pa_Addrs = map (ma_bytes U) (ai_Addrs ai)\<rparr>"

fun newMultiaddrs :: "'ma util_lib \<Rightarrow> bytes list \<Rightarrow> 'ma list res" where
  "newMultiaddrs U [] = Inr []"
| "newMultiaddrs U (m # ms) =
     (case ma_new U m of
        Inl err \<Rightarrow> Inl err
      | Inr addr \<Rightarrow>
          (case newMultiaddrs U ms of Inl err \<Rightarrow> Inl err | Inr addrs \<Rightarrow> Inr (addr # addrs)))"

text \<open>On an error the zero \<open>AddrInfo\<close> is returned with it, which \<open>AddrInfoFromString\<close> passes on.\<close>

definition pbToPeer :: "'ma util_lib \<Rightarrow> pb_addr_info \<Rightarrow> 'ma addr_info \<times> goerror option" where
  "pbToPeer U mai =
     (case pid_decode (ul_id U) (pa_ID mai) of
        Inl err \<Rightarrow> (zero_addr_info, Some err)
      | Inr pid \<Rightarrow>
          (case newMultiaddrs U (pa_Addrs mai) of
             Inl err \<Rightarrow> (zero_addr_info, Some err)
           | Inr addrs \<Rightarrow> (\<lparr>ai_ID = pid, ai_Addrs = addrs\<rparr>, None)))"

definition AddrInfoToString :: "'ma util_lib \<Rightarrow> 'ma addr_info \<Rightarrow> string" where
  "AddrInfoToString U ai =
     (case c_marshal (pb_info U) (peerToPb U ai) of Inl _ \<Rightarrow> [] | Inr m \<Rightarrow> b64_encode m)"

definition AddrInfoFromString :: "'ma util_lib \<Rightarrow> string \<Rightarrow> 'ma addr_info" where
  "AddrInfoFromString U aiStr =
     (case b64_decode aiStr of
        Inl _ \<Rightarrow> zero_addr_info
      | Inr m \<Rightarrow>
          (case c_unmarshal (pb_info U) m of
             Inl _ \<Rightarrow> zero_addr_info
           | Inr mai \<Rightarrow> fst (pbToPeer U mai)))"

definition AddrInfosToString :: "'ma util_lib \<Rightarrow> 'ma addr_info list \<Rightarrow> string" where
  "AddrInfosToString U ais =
     (case c_marshal (pb_infos U) (map (peerToPb U) ais) of Inl _ \<Rightarrow> [] | Inr m \<Rightarrow> b64_encode m)"

fun pbsToPeers :: "'ma util_lib \<Rightarrow> pb_addr_info list \<Rightarrow> 'ma addr_info list" where
  "pbsToPeers U [] = []"
| "pbsToPeers U (mai # mais) =
     (case pbToPeer U mai of
        (_, Some err) \<Rightarrow> pbsToPeers U mais
      | (ai, None) \<Rightarrow> ai # pbsToPeers U mais)"

definition AddrInfosFromString :: "'ma util_lib \<Rightarrow> string \<Rightarrow> 'ma addr_info list" where
  "AddrInfosFromString U sais =
     (case b64_decode sais of
        Inl _ \<Rightarrow> []
      | Inr m \<Rightarrow>
          (case c_unmarshal (pb_infos U) m of Inl _ \<Rightarrow> [] | Inr mais \<Rightarrow> pbsToPeers U mais))"

section \<open>What the code relies on\<close>

text \<open>
  A multiaddress is what its bytes parse to; a valid peer ID is what its printed form decodes to.
\<close>

definition util_ok :: "(bytes \<Rightarrow> bool) \<Rightarrow> 'ma util_lib \<Rightarrow> bool" where
  "util_ok valid U \<longleftrightarrow>
     (\<forall>a. ma_new U (ma_bytes U a) = Inr a)
     \<and> (\<forall>i. valid i \<longrightarrow> pid_decode (ul_id U) (pid_pretty (ul_id U) i) = Inr i)
     \<and> codec_ok \<lparr>pa_ID = [], pa_Addrs = []\<rparr> (\<lambda>m. m) (pb_info U) \<and> codec_ok [] (\<lambda>m. m) (pb_infos U)"

lemma util_okD [lib_laws]:
  assumes "util_ok valid U"
  shows "ma_new U (ma_bytes U a) = Inr a"
    and "valid i \<Longrightarrow> pid_decode (ul_id U) (pid_pretty (ul_id U) i) = Inr i"
    and "c_marshal (pb_info U) x = Inr b \<Longrightarrow> c_unmarshal (pb_info U) b = Inr x"
    and "c_marshal (pb_infos U) xs = Inr b \<Longrightarrow> c_unmarshal (pb_infos U) b = Inr xs"
  using assms by (auto simp: util_ok_def codec_ok_def)

section \<open>Round trips\<close>

lemma newMultiaddrs_bytes: "util_ok valid U \<Longrightarrow> newMultiaddrs U (map (ma_bytes U) as) = Inr as"
  by (induction as) (simp_all add: util_okD)

lemma pbToPeer_peerToPb: "util_ok valid U \<Longrightarrow> valid (ai_ID ai) \<Longrightarrow> pbToPeer U (peerToPb U ai) = (ai, None)"
  by (simp add: pbToPeer_def peerToPb_def util_okD newMultiaddrs_bytes)

lemma AddrInfo_roundtrip:
  assumes "util_ok valid U" "valid (ai_ID ai)" "AddrInfoToString U ai \<noteq> []"
  shows "AddrInfoFromString U (AddrInfoToString U ai) = ai"
proof -
  from assms(3) obtain m where m: "c_marshal (pb_info U) (peerToPb U ai) = Inr m"
    by (auto simp: AddrInfoToString_def split: sum.splits)
  with util_okD(3) [OF assms(1) m] pbToPeer_peerToPb [OF assms(1,2)] show ?thesis
    by (simp add: AddrInfoFromString_def AddrInfoToString_def)
qed

lemma pbsToPeers_peerToPb:
  "util_ok valid U \<Longrightarrow> (\<And>ai. ai \<in> set ais \<Longrightarrow> valid (ai_ID ai)) \<Longrightarrow>
     pbsToPeers U (map (peerToPb U) ais) = ais"
  by (induction ais) (simp_all add: pbToPeer_peerToPb)

lemma AddrInfos_roundtrip:
  assumes "util_ok valid U" "\<And>ai. ai \<in> set ais \<Longrightarrow> valid (ai_ID ai)" "AddrInfosToString U ais \<noteq> []"
  shows "AddrInfosFromString U (AddrInfosToString U ais) = ais"
proof -
  from assms(3) obtain m where m: "c_marshal (pb_infos U) (map (peerToPb U) ais) = Inr m"
    by (auto simp: AddrInfosToString_def split: sum.splits)
  with util_okD(4) [OF assms(1) m] pbsToPeers_peerToPb [OF assms(1,2)] show ?thesis
    by (simp add: AddrInfosFromString_def AddrInfosToString_def)
qed

text \<open>A list with unreadable peers keeps the readable ones, in order.\<close>

lemma pbsToPeers_filter:
  "pbsToPeers U mais = map (fst \<circ> pbToPeer U) (filter (\<lambda>mai. snd (pbToPeer U mai) = None) mais)"
  by (induction mais) (auto split: prod.splits option.splits)

text \<open>The map of a slice holds the last entry of every ID.\<close>

lemma sliceToMap_lookup:
  "sliceToMap es m i = (case filter (\<lambda>e. ai_ID e = i) es of [] \<Rightarrow> m i | es' \<Rightarrow> Some (last es'))"
  by (induction es arbitrary: m) (auto split: list.splits)

lemma AddrInfoSliceToMap_lookup:
  "AddrInfoSliceToMap es i = (case filter (\<lambda>e. ai_ID e = i) es of [] \<Rightarrow> None | es' \<Rightarrow> Some (last es'))"
  by (simp add: AddrInfoSliceToMap_def sliceToMap_lookup)

lemma AddrInfoSliceToMap_Some: "AddrInfoSliceToMap es i = Some e \<Longrightarrow> e \<in> set es \<and> ai_ID e = i"
proof -
  let ?f = "filter (\<lambda>e. ai_ID e = i) es"
  assume a: "AddrInfoSliceToMap es i = Some e"
  then have ne: "?f \<noteq> []" and e: "e = last ?f"
    by (auto simp: AddrInfoSliceToMap_lookup split: list.splits)
  have "e \<in> set ?f" unfolding e by (rule last_in_set [OF ne])
  then show ?thesis by simp
qed

lemma AddrInfoSliceToMap_None: "AddrInfoSliceToMap es i = None \<longleftrightarrow> filter (\<lambda>e. ai_ID e = i) es = []"
  unfolding AddrInfoSliceToMap_lookup by (simp split: list.split)

lemma AddrInfoSliceToMap_dom: "dom (AddrInfoSliceToMap es) = ai_ID ` set es"
proof (rule set_eqI)
  fix i show "i \<in> dom (AddrInfoSliceToMap es) \<longleftrightarrow> i \<in> ai_ID ` set es"
    unfolding domIff AddrInfoSliceToMap_None filter_empty_conv by blast
qed

end
