(* ===== verification/Bstore.thy ===== *)
theory Bstore
  imports Verse Util
begin

text \<open>
  bstore/bootstrapstore.go: the public store of bootstrap addresses. It is an updatable signature
  store at a fixed address; \<open>Put\<close> records the bootstrap address of a store under a hash of the
  store's address, and \<open>Get\<close> collects the addresses every writer has recorded.
\<close>

definition bStoreName :: "('d, 'priv, 'pub) env \<Rightarrow> string" where
  "bStoreName E =
     (let name = ''bootstrap store''; salt = ''{storeAddress: boottrap AddrInfo}'';
          hash = argonIDKey E (bytes_of_string name) (bytes_of_string salt) 1 (64 * 1024) 4 32
      in b64_encode hash)"

definition stAddrToKey :: "('d, 'priv, 'pub) env \<Rightarrow> string \<Rightarrow> string" where
  "stAddrToKey E stAddr =
     (let hash = argonIDKey E (bytes_of_string stAddr) (bytes_of_string (bStoreName E)) 1 (64 * 1024) 4 55
      in b64_encode hash)"

text \<open>The type assertion to \<open>IUpdatableSignatureStore\<close>.\<close>

fun is_updatable_signature :: "('d, 'priv, 'pub) store \<Rightarrow> bool" where
  "is_updatable_signature (UpdatableSignatureStore _) = True"
| "is_updatable_signature (AccessStore _ _ _) = True"
| "is_updatable_signature _ = False"

definition err_assertion :: goerror where "err_assertion = ErrLib ''interface conversion''"

definition bsAddress :: "('d, 'priv, 'pub) env \<Rightarrow> string" where
  "bsAddress E = MakeAddress E (bStoreName E) [] None []"

text \<open>
  \<open>NewBootstrapStore\<close>, with the arguments \<open>NewStore\<close> takes here; a failing type assertion panics,
  which is \<open>err_assertion\<close>.
\<close>

definition NewBootstrapStore ::
  "('d, 'priv, 'pub) env \<Rightarrow> (nat \<Rightarrow> 'd attempt \<times> 'd load_event list) \<Rightarrow> 'd attempt \<Rightarrow> bytes \<Rightarrow>
    (('d, 'priv, 'pub) world \<times> ('d, 'priv, 'pub) store res) option" where
  "NewBootstrapStore E tries A rnd =
     (case NewStore E False (bsAddress E) ''updatableSignature'' tries A rnd [] of
        None \<Rightarrow> None
      | Some (w, None, Some err) \<Rightarrow> Some (w, Inl err)
      | Some (w, None, None) \<Rightarrow> Some (w, Inl err_assertion)
      | Some (w, Some tmp, _) \<Rightarrow>
          if is_updatable_signature tmp then Some (w, Inr tmp) else Some (w, Inl err_assertion))"

definition bs_Close :: "('d, 'priv, 'pub) env \<Rightarrow> ('d, 'priv, 'pub) store \<Rightarrow> ('d, 'priv, 'pub) store" where
  "bs_Close E s = st_Close E s"

definition bs_Address :: "('d, 'priv, 'pub) env \<Rightarrow> ('d, 'priv, 'pub) store \<Rightarrow> string" where
  "bs_Address E s = st_Address E s"

definition err_invalid_bootstrap :: goerror where
  "err_invalid_bootstrap = ErrNew ''invalid bootstrap address''"

definition usable :: "'ma addr_info \<Rightarrow> bool" where
  "usable ai \<longleftrightarrow> ai_ID ai \<noteq> [] \<and> 0 < length (ai_Addrs ai)"

definition bs_Put ::
  "('d, 'priv, 'pub) env \<Rightarrow> 'ma util_lib \<Rightarrow> gotime \<Rightarrow> string \<Rightarrow> string \<Rightarrow> ('d, 'priv, 'pub) store \<Rightarrow>
    ('d, 'priv, 'pub) store \<times> goerror option" where
  "bs_Put E U now stAddr bAddr s =
     (let ai = AddrInfoFromString U bAddr in
      if (ai_ID ai = [] \<or> length (ai_Addrs ai) = 0) \<and> length (AddrInfosFromString U bAddr) = 0
      then (s, Some err_invalid_bootstrap)
      else let key = stAddrToKey E stAddr in
      case b64_decode bAddr of
        Inl err \<Rightarrow> (s, Some err)
      | Inr val \<Rightarrow> st_Put E now key val s)"

text \<open>The loop of \<open>Get\<close> over the results.\<close>

fun bootstrapAddrs :: "'ma util_lib \<Rightarrow> result list \<Rightarrow> 'ma addr_info list" where
  "bootstrapAddrs U [] = []"
| "bootstrapAddrs U (r # rs) =
     (let bAddr = b64_encode (contents (e_value r));
          ai = AddrInfoFromString U bAddr
      in if ai_ID ai \<noteq> [] \<and> 0 < length (ai_Addrs ai) then ai # bootstrapAddrs U rs
         else let tmp = AddrInfosFromString U bAddr
              in if length tmp = 0 then tmp @ bootstrapAddrs U rs else bootstrapAddrs U rs)"

definition bs_Get ::
  "('d, 'priv, 'pub) env \<Rightarrow> 'ma util_lib \<Rightarrow> ('d, 'priv, 'pub) store \<Rightarrow> string \<Rightarrow> 'ma addr_info list res" where
  "bs_Get E U s stAddr =
     (let kef = KeyExistFilter (stAddrToKey E stAddr) in
      case st_Query E s [empty_query\<lparr>q_filters := [kef]\<rparr>] of
        Inl err \<Rightarrow> Inl err
      | Inr rs \<Rightarrow> Inr (bootstrapAddrs U rs))"

section \<open>What Get returns\<close>

text \<open>
  The addresses that read as a single peer, in the order of the results. The branch for lists
  appends only empty lists, so a recorded list of peers is never returned.
\<close>

lemma bootstrapAddrs_filter:
  "bootstrapAddrs U rs =
     filter usable (map (\<lambda>r. AddrInfoFromString U (b64_encode (contents (e_value r)))) rs)"
  by (induction rs) (auto simp: usable_def Let_def)

lemma AddrInfoFromString_decoded:
  "b64_decode a = b64_decode b \<Longrightarrow> AddrInfoFromString U a = AddrInfoFromString U b"
  by (simp add: AddrInfoFromString_def)

lemma bs_Get_members:
  assumes "bs_Get E U s stAddr = Inr ais"
  obtains rs where "st_Query E s [empty_query\<lparr>q_filters := [KeyExistFilter (stAddrToKey E stAddr)]\<rparr>] = Inr rs"
    "set ais = {ai. usable ai \<and> (\<exists>r \<in> set rs. ai = AddrInfoFromString U (b64_encode (contents (e_value r))))}"
proof -
  from assms obtain rs where
    rs: "st_Query E s [empty_query\<lparr>q_filters := [KeyExistFilter (stAddrToKey E stAddr)]\<rparr>] = Inr rs"
    and ais: "ais = bootstrapAddrs U rs"
    by (auto simp: bs_Get_def Let_def split: sum.splits)
  have "set ais = {ai. usable ai \<and> (\<exists>r \<in> set rs. ai = AddrInfoFromString U (b64_encode (contents (e_value r))))}"
    unfolding ais bootstrapAddrs_filter by auto
  with rs show thesis by (rule that)
qed

lemma stAddrToKey_clean: "kdf_ok E \<Longrightarrow> clean_path (stAddrToKey E stAddr)"
proof -
  assume "kdf_ok E"
  then have "length (argonIDKey E (bytes_of_string stAddr) (bytes_of_string (bStoreName E)) 1 (64 * 1024) 4 55) = 55"
    by (simp add: kdf_ok_def)
  then have "stAddrToKey E stAddr \<noteq> []" by (auto simp: stAddrToKey_def Let_def)
  moreover have "stAddrToKey E stAddr \<noteq> CHR ''.'' # r" for r
    unfolding stAddrToKey_def Let_def by (rule b64_encode_hd_not_dot)
  moreover have "CHR ''/'' \<notin> set (stAddrToKey E stAddr)" by (simp add: stAddrToKey_def Let_def)
  ultimately show ?thesis by (simp add: clean_path_component)
qed

lemma stAddrToKey_no_slash [simp]: "CHR ''/'' \<notin> set (stAddrToKey E stAddr)"
  by (simp add: stAddrToKey_def Let_def)

text \<open>
  A bootstrap address that was put is among those any reader gets, provided the writer's own
  earlier records for the store are older.
\<close>

lemma bs_Put_Get:
  assumes E: "env_ok E els" "ds_live (lib_ds E) els" "libs_ok E" "kdf_ok E"
    and now: "wf_time now" and single: "usable (AddrInfoFromString U bAddr)"
    and put: "bs_Put E U now stAddr bAddr (UpdatableSignatureStore s) = (st', None)"
    and older: "\<And>k t. k \<in> dom (sg_table els s) \<Longrightarrow> has_category k \<Longrightarrow>
      category_of k = us_putKey E s (stAddrToKey E stAddr) \<Longrightarrow> key_time (local_zone E) k = Inr t \<Longrightarrow> instant_of t < instant_of now"
  obtains ais where "bs_Get E U st' stAddr = Inr ais" "AddrInfoFromString U bAddr \<in> set ais"
proof -
  let ?key = "stAddrToKey E stAddr"
  from put single obtain val where val: "b64_decode bAddr = Inr val"
    and sp: "st_Put E now ?key val (UpdatableSignatureStore s) = (st', None)"
    by (auto simp: bs_Put_def Let_def usable_def split: if_splits sum.splits)
  from sp obtain s' where st': "st' = UpdatableSignatureStore s'" and up: "us_Put E now ?key val s = (s', None)"
    by (auto split: prod.splits)
  note clean = stAddrToKey_clean [OF E(4), of stAddr]
  from us_Put_record [OF E(1,3) clean up] obtain sKey msd where
    r: "signed_record E (sg_priv s) (sg_pub s) val = Inr (sKey, msd)"
    and tab: "sg_table els s' =
       (sg_table els s)(CHR ''/'' # (sKey @ CHR ''/'' # ?key) @ CHR ''/'' # time_key now \<mapsto> msd)"
    and pk: "us_putKey E s ?key = sKey @ CHR ''/'' # ?key" .
  let ?k = "CHR ''/'' # (sKey @ CHR ''/'' # ?key) @ CHR ''/'' # time_key now"
  have parts: "key_parts ?k = [sKey, ?key, time_key now]"
    using signed_record_key [OF E(3) r]
    by (simp only: key_parts_append) (simp add: go_split_append go_split_no_sep plain_component_def)
  from us_Query_live [OF E(2)] obtain rs where
    rs: "us_Query E s' [empty_query\<lparr>q_filters := [KeyExistFilter ?key]\<rparr>] = Inr rs" .
  have older': "instant_of t' < instant_of (to_utc now)"
    if k': "k' \<in> dom (sg_table els s')" "has_category k'" "category_of k' = category_of ?k" "k' \<noteq> ?k"
      "key_time (local_zone E) k' = Inr t'" for k' t'
  proof -
    have "k' \<in> dom (sg_table els s)" using k'(1,4) tab by simp
    moreover have "category_of k' = us_putKey E s ?key"
      unfolding pk k'(3) by (rule category_of_stamped)
    ultimately show ?thesis using older [OF _ k'(2) _ k'(5)] by simp
  qed
  have "\<exists>r \<in> set rs. e_key r = ?k \<and> e_value r = canon_slice (Some val)"
  proof (rule us_Query_delivers [OF E(1) key_query_exist(1) rs])
    show "sg_table els s' ?k = Some msd" unfolding tab by simp
    show "key_passes (empty_query\<lparr>q_filters := [KeyExistFilter ?key]\<rparr>) ?k"
      unfolding key_query_exist parts by simp
    show "has_category ?k" unfolding has_category_def parts by simp
    show "category_of ?k \<noteq> []" unfolding category_of_stamped by simp
    show "sig_value E msd = Inr (canon_slice (Some val))" by (rule signed_record_value [OF E(3) r])
    show "key_time (local_zone E) ?k = Inr (to_utc now)" by (rule key_time_stamped [OF now])
  qed (rule older')
  then obtain q where q: "q \<in> set rs" "e_value q = canon_slice (Some val)" by blast
  have same: "AddrInfoFromString U (b64_encode (contents (e_value q))) = AddrInfoFromString U bAddr"
    by (rule AddrInfoFromString_decoded) (simp add: q(2) val)
  have get: "bs_Get E U st' stAddr = Inr (bootstrapAddrs U rs)"
    by (simp add: bs_Get_def st' rs)
  moreover have "AddrInfoFromString U bAddr \<in> set (bootstrapAddrs U rs)"
    unfolding bootstrapAddrs_filter set_filter set_map using q(1) same single by force
  ultimately show thesis by (rule that)
qed

section \<open>Opening the store\<close>

lemma bStoreName_ascii: "ascii (bStoreName E)"
  by (simp add: bStoreName_def Let_def b64_encode_ascii)

lemma bsAddress_parse:
  assumes "protos_ok (lib_pb E)" "protos_total (lib_pb E)"
  shows "parseAddress E (bsAddress E) = Inr (bStoreName E, None, [], zero_time)"
proof -
  have "ascii []" by (simp add: ascii_def)
  from parse_MakeAddress_UTC [OF assms bStoreName_ascii this wf_zero_time(1,3), where salt = None] show ?thesis
    by (simp add: bsAddress_def MakeAddress_no_limit strip_mono_id canon_slice_def)
qed

text \<open>
  On a network where none of the store's records can be fetched in time, no run of
  \<open>NewBootstrapStore\<close> gives a store: the error of the failed load comes back, and the store that was
  made meanwhile is left open.
\<close>

lemma NewBootstrapStore_load_failed:
  assumes P: "protos_ok (lib_pb E)" "protos_total (lib_pb E)"
    and load: "loadStore E False (bStoreName E) ''updatableSignature'' tries A
      (empty_opts\<lparr>so_Salt := None, so_TimeLimit := zero_time\<rparr>) = Some (w, (Some s, Some err), opt')"
  shows "NewBootstrapStore E tries A rnd = Some (lose s w, Inl err_load_failed)"
    and "bs_closed (st_base s) = []"
proof -
  have "NewStore E False (bsAddress E) ''updatableSignature'' tries A rnd [] = Some (lose s w, (None, Some err))"
    by (rule load_failed_dropped [OF bsAddress_parse [OF P]]) (simp add: load)
  with load_failed_open(1) [OF load] show "NewBootstrapStore E tries A rnd = Some (lose s w, Inl err_load_failed)"
    by (simp add: NewBootstrapStore_def)
  show "bs_closed (st_base s) = []" by (rule load_failed_open(2) [OF load])
qed

text \<open>A store it gives is an updatable signature store with the fixed address.\<close>

lemma NewBootstrapStore_ok:
  assumes P: "protos_ok (lib_pb E)" "protos_total (lib_pb E)"
    and run: "NewBootstrapStore E tries A rnd = Some (w, Inr s)"
  shows "store_mode s = MUpdatableSignature" "bs_Address E s = bsAddress E"
proof -
  from run have "NewStore E False (bsAddress E) ''updatableSignature'' tries A rnd [] = Some (w, Some s, None)"
    using NewStore_one [of E False "bsAddress E" "''updatableSignature''" tries A rnd "[]"]
    by (auto simp: NewBootstrapStore_def split: option.splits prod.splits if_splits)
  from NewStore_plain_address [OF bsAddress_parse [OF P] _ this]
  show "store_mode s = MUpdatableSignature" "bs_Address E s = bsAddress E"
    by (simp_all add: mode_of_def bs_Address_def bsAddress_def MakeAddress_no_limit)
qed

end
