(* ===== verification/Delivery.thy ===== *)
theory Delivery
  imports Replica
begin

text \<open>
  The contract between the peers. A copy of a store, as long as its merges bring in checked records only
  (\<open>replica_run\<close>), refines a \<open>ledger\<close>: records that may only be added, each one good, from outside only
  while the window is open. And what the code of one peer writes, the
  validator of another accepts: the two halves of the protocol fit together. At the end, what a reader
  gets under a writer's key string was signed by that writer.
\<close>

section \<open>The ledger\<close>

record ledger =
  lg_recs :: "string \<rightharpoonup> bytes"
  lg_open :: bool

text \<open>
  \<open>good\<close> is what a record must satisfy. The owner adds a single record at a time; other peers add any
  number, but only while the ledger is open; closing it is final.
\<close>

inductive ledger_step :: "(string \<Rightarrow> bytes \<Rightarrow> bool) \<Rightarrow> ledger \<Rightarrow> ledger \<Rightarrow> bool" for good where
  ledger_idle: "ledger_step good L L"
| ledger_write: "lg_recs L k = None \<Longrightarrow> good k v \<Longrightarrow> ledger_step good L (L\<lparr>lg_recs := (lg_recs L)(k \<mapsto> v)\<rparr>)"
| ledger_receive: "lg_open L \<Longrightarrow> lg_recs L \<subseteq>\<^sub>m R \<Longrightarrow>
     (\<And>k v. R k = Some v \<Longrightarrow> lg_recs L k = None \<Longrightarrow> good k v) \<Longrightarrow> ledger_step good L (L\<lparr>lg_recs := R\<rparr>)"
| ledger_close: "ledger_step good L (L\<lparr>lg_open := False\<rparr>)"

lemma ledger_step_grows: "ledger_step good L L' \<Longrightarrow> lg_recs L \<subseteq>\<^sub>m lg_recs L' \<and> (lg_open L' \<longrightarrow> lg_open L)"
  by (induction rule: ledger_step.induct) (auto simp: map_le_def)

lemma map_le_back: "m \<subseteq>\<^sub>m m' \<Longrightarrow> m' k = Some v \<Longrightarrow> m k = Some v \<or> m k = None"
  by (metis domIff map_le_def)

lemma ledger_step_good:
  "ledger_step good L L' \<Longrightarrow> lg_recs L' k = Some v \<Longrightarrow> lg_recs L k = Some v \<or> lg_recs L k = None \<and> good k v"
proof (induction rule: ledger_step.induct)
  case (ledger_receive L R)
  with map_le_back [of "lg_recs L" R k v] show ?case by auto
qed (auto split: if_splits)

text \<open>What the specification promises of any number of steps.\<close>

lemma ledger_run:
  assumes "(ledger_step good)\<^sup>*\<^sup>* L L'"
  shows "lg_recs L \<subseteq>\<^sub>m lg_recs L'" "lg_open L' \<longrightarrow> lg_open L"
    "lg_recs L' k = Some v \<Longrightarrow> lg_recs L k = Some v \<or> lg_recs L k = None \<and> good k v"
  using assms
proof (induction rule: rtranclp_induct)
  case base
  { case 1 show ?case by simp
  next case 2 show ?case by simp
  next case 3 then show ?case by simp }
next
  case (step L1 L2)
  { case 1 show ?case using step.IH(1) ledger_step_grows [OF step.hyps(2)] by (blast intro: map_le_trans)
  next case 2 show ?case using step.IH(2) ledger_step_grows [OF step.hyps(2)] by blast
  next
    case 3
    from ledger_step_good [OF step.hyps(2) 3] show ?case
    proof
      assume "lg_recs L1 k = None \<and> good k v"
      moreover from this step.IH(1) have "lg_recs L k = None"
        by (metis domIff map_le_def option.distinct(1))
      ultimately show ?thesis by blast
    qed (rule step.IH(3)) }
qed

section \<open>A copy refines the ledger\<close>

definition ledger_of :: "('d \<Rightarrow> (string \<rightharpoonup> bytes)) \<Rightarrow> ('d, 'priv, 'pub) store \<Rightarrow> ledger" where
  "ledger_of els s = \<lparr>lg_recs = st_table els s, lg_open = bs_inTime (st_base s)\<rparr>"

lemma ledger_of_simps [simp]:
  "lg_recs (ledger_of els s) = st_table els s" "lg_open (ledger_of els s) = bs_inTime (st_base s)"
  by (simp_all add: ledger_of_def)

text \<open>Each operation of the copy is a step of the ledger.\<close>

lemma put_refines:
  assumes E: "replica_ok E els" and pair: "own_pair E s"
    and key: "clean_path key" "wf_time now" and put: "st_Put E now key val s = (s', err)"
  shows "ledger_step (good_record E (store_mode s)) (ledger_of els s) (ledger_of els s')"
proof (cases err)
  case None
  with st_Put_good [OF E key pair] put obtain k v where
    kv: "st_table els s k = None" "st_table els s' = (st_table els s)(k \<mapsto> v)" "good_record E (store_mode s) k v"
    by blast
  then have "ledger_of els s' = (ledger_of els s)\<lparr>lg_recs := (st_table els s)(k \<mapsto> v)\<rparr>"
    using st_Put_closed [OF put] by (simp add: ledger_of_def)
  with ledger_write [of "ledger_of els s" k "good_record E (store_mode s)" v] kv show ?thesis by simp
next
  case (Some e)
  then have "st_table els s' = st_table els s"
    using st_store.put_err [OF replica_okD(1) [OF E], of "(now, key, val)"] put by simp
  then have "ledger_of els s' = ledger_of els s" using st_Put_closed [OF put] by (simp add: ledger_of_def)
  then show ?thesis by (simp add: ledger_idle)
qed

lemma merge_refines:
  assumes has: "has_exact E els has (bs_name (st_base s))"
    and msg: "pid \<noteq> hid" "accepts E has hid now s G pid msg" "msgToCRDTHeads G msg = Inr heads"
    and keys: "list_all (\<lambda>(k, v). newKey (lib_ds E) k = k) (delta_records (headDeltas G heads))"
    and merge: "merged (delta_records (headDeltas G heads)) (st_table els s) (els d)"
  shows "ledger_step (good_record E (store_mode s)) (ledger_of els s) (ledger_of els (with_data d s))"
proof (cases "bs_inTime (st_base s)")
  case True
  have "good_record E (store_mode s) k v" if "els d k = Some v" "st_table els s k = None" for k v
  proof -
    from mergedD(1) [OF merge that(1)] that(2) have "(k, v) \<in> set (delta_records (headDeltas G heads))" by simp
    from validated_good [OF accepted_records(1) [OF msg this]] show ?thesis .
  qed
  moreover have "ledger_of els (with_data d s) = (ledger_of els s)\<lparr>lg_recs := els d\<rparr>"
    by (simp add: ledger_of_def)
  ultimately show ?thesis
    using True merge_extends [OF has msg keys merge] by (metis ledger_receive ledger_of_simps)
next
  case False
  then have "ledger_of els (with_data d s) = ledger_of els s"
    using closed_merge [OF False msg merge] by (simp add: ledger_of_def)
  then show ?thesis by (simp add: ledger_idle)
qed

lemma step_refines:
  assumes E: "replica_ok E els" and pair: "own_pair E s" and has: "has_exact E els has (bs_name (st_base s))"
    and step: "replica_step E els has hid G s s'"
  shows "ledger_step (good_record E (store_mode s)) (ledger_of els s) (ledger_of els s')"
  using step
proof (cases rule: replica_step_cases)
  case (put key now val err)
  then show ?thesis by (rule put_refines [OF E pair])
next
  case (merge pid now msg heads d)
  from merge_refines [OF has merge(2-6)] merge(1) show ?thesis by simp
next
  case window
  then have "ledger_of els s' = (ledger_of els s)\<lparr>lg_open := False\<rparr>" by (simp add: ledger_of_def)
  then show ?thesis by (simp add: ledger_close)
qed

lemma run_refines:
  assumes E: "replica_ok E els" and pair: "own_pair E s0" and has: "has_exact E els has (bs_name (st_base s0))"
  shows "replica_run E els has hid s0 Gs s \<Longrightarrow>
    (ledger_step (good_record E (store_mode s0)))\<^sup>*\<^sup>* (ledger_of els s0) (ledger_of els s)"
proof (induction rule: replica_run.induct)
  case (run_snoc Gs s G s')
  have kind: "store_mode s = store_mode s0" "own_pair E s"
    using same_kind_mode [OF run_kind [OF run_snoc.hyps(1)]] same_kind_pair [OF run_kind [OF run_snoc.hyps(1)]] pair
    by simp_all
  from step_refines [OF E kind(2) _ run_snoc.hyps(2)] has run_name [OF run_snoc.hyps(1)] run_snoc.IH show ?case
    by (simp add: kind(1) rtranclp.rtrancl_into_rtrancl)
qed simp

section \<open>What one peer writes, another accepts\<close>

lemma same_update: "m(k \<mapsto> v) = m(k' \<mapsto> v') \<Longrightarrow> m k' = None \<Longrightarrow> k = k' \<and> v = v'"
  by (metis fun_upd_apply option.distinct(1) option.inject)

lemma validator_of_peer: "modeValidator E now m peer k v \<Longrightarrow> bs_inTime peer' \<Longrightarrow> modeValidator E now m peer' k v"
  by (cases m)
    (auto simp: newUpdatableValidator_def updatable_Validate_iff newSignatureValidator_def signature_Validate_iff
      newUpdatableSignatureValidator_iff newHashValidator_def hash_Validate_iff base_Validate_def base_isInTime_def)

lemma put_record_accepted:
  assumes E: "replica_ok E els" and key: "clean_path key" and now: "wf_time now" "instant_of now < instant_of now'"
    and peer: "bs_inTime peer"
  shows "own_pair E s \<Longrightarrow> st_Put E now key val s = (s', None) \<Longrightarrow>
    \<exists>k v. st_table els s' = (st_table els s)(k \<mapsto> v) \<and> modeValidator E now' (store_mode s) peer k v"
proof (induction s arbitrary: s')
  case (LogStore b)
  from st_Put_ok [OF replica_okD(1) [OF E] LogStore.prems(2)] obtain k v where
    "st_table els s' = (base_table els b)(k \<mapsto> v)" by (auto simp: st_table_def)
  with peer show ?case
    by (intro exI [of _ k] exI [of _ v]) (simp add: base_Validate_def base_isInTime_def st_table_def)
next
  case (UpdatableStore b)
  from UpdatableStore.prems obtain b' where "upd_Put E now key val b = (b', None)" "s' = UpdatableStore b'"
    by (auto split: prod.splits)
  with base_Put_ok(2) [OF replica_okD(1) [OF E], of "key @ ''/'' @ time_key now" val b b']
    upd_Put_validates [OF ds_okD(1) [OF env_okD(1) [OF replica_okD(1) [OF E]]] key now peer, of val]
  show ?case by (auto simp: upd_Put_eq st_table_def)
next
  case (SignatureStore b)
  from SignatureStore.prems obtain b' where put: "sg_Put E key val b = (b', None)" and s': "s' = SignatureStore b'"
    by (auto split: prod.splits)
  obtain k msd where "sg_table els b' = (sg_table els b)(k \<mapsto> msd)" "newSignatureValidator E peer k msd"
    by (rule sg_Put_validates [OF replica_okD(1,2) [OF E] _ key put peer]) (use SignatureStore.prems(1) in simp)
  then show ?case by (auto simp: s' st_table_def sg_table_def)
next
  case (UpdatableSignatureStore b)
  from UpdatableSignatureStore.prems obtain b' where put: "us_Put E now key val b = (b', None)"
    and s': "s' = UpdatableSignatureStore b'" by (auto split: prod.splits)
  obtain k msd where "sg_table els b' = (sg_table els b)(k \<mapsto> msd)" "newUpdatableSignatureValidator E now' peer k msd"
    by (rule us_Put_validates [OF replica_okD(1,2) [OF E] _ key put now peer]) (use UpdatableSignatureStore.prems(1) in simp)
  then show ?case by (auto simp: s' st_table_def sg_table_def)
next
  case (HashStore b)
  from HashStore.prems obtain b' where put: "hs_Put E key val b = (b', None)" and s': "s' = HashStore b'"
    by (auto split: prod.splits)
  obtain m where "hs_table els b' = (hs_table els b)(CHR ''/'' # MakeHashKey E key (hs_salt b) \<mapsto> m)"
    "hash_consistent E (CHR ''/'' # MakeHashKey E key (hs_salt b)) m"
    by (rule hs_Put_consistent [OF replica_okD(1) [OF E] libs_okD(1) [OF replica_okD(2) [OF E]] replica_okD(3) [OF E] put])
  with peer show ?case
    by (auto simp: s' st_table_def hs_table_def newHashValidator_def hash_Validate_iff base_Validate_def base_isInTime_def)
next
  case (AccessStore b priv pub)
  from AccessStore.prems(2) obtain b' where b': "st_Put E now key val b = (b', None)"
    and s': "s' = AccessStore b' priv pub"
    by (auto split: option.splits prod.splits)
  from AccessStore.IH [OF _ b'] AccessStore.prems(1) show ?case by (simp add: s' st_table_def)
qed

text \<open>The records a put has added.\<close>

definition new_records :: "('d \<Rightarrow> (string \<rightharpoonup> bytes)) \<Rightarrow> ('d, 'priv, 'pub) store \<Rightarrow> ('d, 'priv, 'pub) store \<Rightarrow> (string \<times> bytes) set" where
  "new_records els s s' = {(k, v). st_table els s k = None \<and> st_table els s' k = Some v}"

lemma new_records_accepted:
  assumes "replica_ok E els" "clean_path key" "wf_time now" "instant_of now < instant_of now'" "bs_inTime peer"
    and "own_pair E s" "st_Put E now key val s = (s', None)" "(k, v) \<in> new_records els s s'"
  shows "modeValidator E now' (store_mode s) peer k v"
proof -
  from put_record_accepted [OF assms(1-7)] obtain k' v' where
    "st_table els s' = (st_table els s)(k' \<mapsto> v')" "modeValidator E now' (store_mode s) peer k' v'" by blast
  with assms(8) show ?thesis by (auto simp: new_records_def split: if_splits)
qed

text \<open>A put under a clean key stores its record under a clean key.\<close>

lemma put_record_clean:
  assumes E: "replica_ok E els" and key: "clean_path key"
  shows "st_Put E now key val s = (s', None) \<Longrightarrow>
    \<exists>p msd. clean_path p \<and> st_table els s' = (st_table els s)(CHR ''/'' # p \<mapsto> msd)"
proof (induction s arbitrary: s')
  case (LogStore b)
  then obtain b' where "base_Put E key val b = (b', None)" "s' = LogStore b'" by (auto split: prod.splits)
  with base_Put_ok(2) [OF replica_okD(1) [OF E]] key_okD(1) [OF ds_okD(1) [OF env_okD(1) [OF replica_okD(1) [OF E]]] key] key
  show ?case by (intro exI [of _ key] exI [of _ val]) (simp add: st_table_def)
next
  case (UpdatableStore b)
  then obtain b' where "upd_Put E now key val b = (b', None)" "s' = UpdatableStore b'" by (auto split: prod.splits)
  with base_Put_ok(2) [OF replica_okD(1) [OF E], of "key @ ''/'' @ time_key now" val b b'] key time_key_clean
    stamped_key [OF ds_okD(1) [OF env_okD(1) [OF replica_okD(1) [OF E]]] key, of now]
  show ?case
    by (intro exI [of _ "key @ CHR ''/'' # time_key now"] exI [of _ val])
      (simp add: upd_Put_eq st_table_def clean_path_append)
next
  case (SignatureStore b)
  then obtain b' where put: "sg_Put E key val b = (b', None)" and s': "s' = SignatureStore b'"
    by (auto split: prod.splits)
  from sg_Put_ok [OF replica_okD(1) [OF E] put] obtain sKey msd where
    r: "signed_record E (sg_priv b) (sg_pub b) val = Inr (sKey, msd)"
    and tab: "sg_table els b' = (sg_table els b)(newKey (lib_ds E) (sKey @ ''/'' @ key) \<mapsto> msd)" .
  note plain = signed_record_key [OF replica_okD(2) [OF E] r]
  from tab signed_key [OF ds_okD(1) [OF env_okD(1) [OF replica_okD(1) [OF E]]] plain key] plain_clean [OF plain] key
  show ?case
    by (intro exI [of _ "sKey @ CHR ''/'' # key"] exI [of _ msd])
      (simp add: s' st_table_def sg_table_def clean_path_append)
next
  case (UpdatableSignatureStore b)
  then obtain b' where put: "us_Put E now key val b = (b', None)" and s': "s' = UpdatableSignatureStore b'"
    by (auto split: prod.splits)
  from us_Put_record [OF replica_okD(1,2) [OF E] key put] obtain sKey msd where
    "sg_table els b' = (sg_table els b)(CHR ''/'' # (sKey @ CHR ''/'' # key) @ CHR ''/'' # time_key now \<mapsto> msd)"
    "clean_path (sKey @ CHR ''/'' # key)" .
  with time_key_clean show ?case
    by (intro exI [of _ "(sKey @ CHR ''/'' # key) @ CHR ''/'' # time_key now"] exI [of _ msd])
      (simp add: s' st_table_def sg_table_def clean_path_append)
next
  case (HashStore b)
  then obtain b' where put: "hs_Put E key val b = (b', None)" and s': "s' = HashStore b'"
    by (auto split: prod.splits)
  from hs_Put_ok [OF replica_okD(1) [OF E] put] obtain m where
    "hs_table els b' = (hs_table els b)(newKey (lib_ds E) (MakeHashKey E key (hs_salt b)) \<mapsto> m)" by metis
  with newKey_hash [OF ds_okD(1) [OF env_okD(1) [OF replica_okD(1) [OF E]]] replica_okD(3) [OF E]]
    MakeHashKey_clean [OF replica_okD(3) [OF E]]
  show ?case
    by (intro exI [of _ "MakeHashKey E key (hs_salt b)"] exI [of _ m]) (simp add: s' st_table_def hs_table_def)
next
  case (AccessStore b priv pub)
  from AccessStore.prems obtain b' where b': "st_Put E now key val b = (b', None)"
    and s': "s' = AccessStore b' priv pub"
    by (auto split: option.splits prod.splits)
  from AccessStore.IH [OF b'] show ?case by (simp add: s' st_table_def)
qed

lemma new_records_normal:
  assumes "replica_ok E els" "clean_path key" "st_Put E now key val s = (s', None)" "(k, v) \<in> new_records els s s'"
  shows "newKey (lib_ds E) k = k"
proof -
  from put_record_clean [OF assms(1-3)] obtain p msd where
    p: "clean_path p" "st_table els s' = (st_table els s)(CHR ''/'' # p \<mapsto> msd)" by blast
  with assms(4) have "k = CHR ''/'' # p" by (auto simp: new_records_def split: if_splits)
  with key_okD(2) [OF ds_okD(1) [OF env_okD(1) [OF replica_okD(1) [OF assms(1)]]] p(1)] show ?thesis by simp
qed

text \<open>A message with the records of a put is accepted by a copy that does not have them.\<close>

lemma put_message_accepted:
  assumes E: "replica_ok E els" and has: "has_exact E els has (bs_name (st_base t))"
    and key: "clean_path key" and now: "wf_time now" "instant_of now < instant_of now'"
    and s: "own_pair E s" "st_Put E now key val s = (s', None)"
    and t: "store_mode t = store_mode s" "bs_inTime (st_base t)"
    and msg: "msgToDeltas G msg = Inr deltas" "set (delta_records deltas) = new_records els s s'"
      "\<And>d. d \<in> set deltas \<Longrightarrow> dl_tombstones d = []"
    and fresh: "\<And>k v. (k, v) \<in> new_records els s s' \<Longrightarrow> st_table els t k = None"
    and pid: "pid \<noteq> hid"
  shows "accepts E has hid now' t G pid msg"
proof -
  have "modeValidator E now' (store_mode t) (st_base t) k v
      \<and> has (bs_dt (st_base t)) (vkey (lib_ds E) (newKey (lib_ds E) (bs_name (st_base t))) k) \<noteq> Inr True"
    if "(k, v) \<in> new_records els s s'" for k v
    using new_records_accepted [OF E key now t(2) s that] t(1) fresh [OF that] new_records_normal [OF E key s(2) that] has
    by (auto simp: has_exact_def st_table_def base_table_def)
  then show ?thesis
    using msg by (auto simp: accepts_def foreign_messages [OF pid])
qed

section \<open>What a reader gets was signed by the writer he asked for\<close>

lemma first_key_part:
  "plain_component p \<Longrightarrow> hd (key_parts (CHR ''/'' # p @ CHR ''/'' # r)) = p"
  by (simp add: go_split_append go_split_no_sep plain_component_def)

lemma authentic_value:
  assumes "authentic E (CHR ''/'' # pid @ CHR ''/'' # r) msd" "plain_component pid"
    and "StrToPubKey (lib_id E) (crypto E) pid = Inr vk" "c_unmarshal (pb_sig (lib_pb E)) msd = Inr sd"
  shows "k_verify (key_ops E) vk (contents (sd_value sd)) (contents (sd_sign sd)) = Inr True"
  using assms(1,3,4) unfolding authentic_def first_key_part [OF assms(2)] by simp

text \<open>The stores whose records are signed.\<close>

definition signed_mode :: "mode \<Rightarrow> bool" where
  "signed_mode m \<longleftrightarrow> m = MSignature \<or> m = MUpdatableSignature"

text \<open>A value that is read under a writer's key string comes from a record of that writer's part.\<close>

lemma st_Get_record:
  assumes E: "env_ok E els" and pid: "plain_component pid" and path: "clean_path path"
  shows "signed_mode (store_mode s) \<Longrightarrow> st_Get E s (pid @ ''/'' @ path) = Inr (Some val) \<Longrightarrow>
    \<exists>r msd sd. has_prefix r path \<and> st_table els s (CHR ''/'' # pid @ CHR ''/'' # r) = Some msd
      \<and> c_unmarshal (pb_sig (lib_pb E)) msd = Inr sd \<and> sd_value sd = Some val"
proof (induction s)
  case (SignatureStore b)
  from SignatureStore.prems(2) obtain msd sd where
    get: "base_Get E (sg_base b) (pid @ ''/'' @ path) = Inr msd"
    and sd: "c_unmarshal (pb_sig (lib_pb E)) msd = Inr sd" "sd_value sd = Some val"
    by (auto simp: sg_Get_def split: sum.splits)
  have "st_table els (SignatureStore b) (CHR ''/'' # pid @ CHR ''/'' # path) = Some msd"
    using base_Get_sound [OF E get] signed_key [OF ds_okD(1) [OF env_okD(1) [OF E]] pid path]
    by (simp add: st_table_def)
  moreover have "has_prefix path path" by (simp add: has_prefix_def)
  ultimately show ?case using sd by blast
next
  case (UpdatableSignatureStore b)
  from UpdatableSignatureStore.prems(2) obtain msd sd where
    get: "upd_Get E (sg_base b) (pid @ ''/'' @ path) = Inr msd"
    and sd: "c_unmarshal (pb_sig (lib_pb E)) msd = Inr sd" "sd_value sd = Some val"
    by (auto simp: us_Get_def split: sum.splits)
  have "clean_path (pid @ ''/'' @ path)"
    using pid path by (simp add: clean_path_def go_split_append go_split_no_sep plain_component_def)
  from E this get obtain k where k: "base_table els (sg_base b) k = Some msd"
    "newest (local_zone E) (base_table els (sg_base b)) (below (pid @ ''/'' @ path)) k"
    by (rule upd_Get_newest)
  from k(2) obtain r where r: "k = CHR ''/'' # pid @ CHR ''/'' # path @ CHR ''/'' # r"
    by (auto simp: newest_def below_def has_prefix_iff)
  have "st_table els (UpdatableSignatureStore b) (CHR ''/'' # pid @ CHR ''/'' # (path @ CHR ''/'' # r)) = Some msd"
    using k(1) by (simp add: r st_table_def)
  moreover have "has_prefix (path @ CHR ''/'' # r) path" by (simp add: has_prefix_def)
  ultimately show ?case using sd by blast
next
  case (AccessStore b priv pub)
  then show ?case by (auto simp: st_table_def split: option.splits)
qed (simp_all add: signed_mode_def)

lemma signed_mode_authentic: "signed_mode m \<Longrightarrow> good_record E m k v \<Longrightarrow> authentic E k v"
  by (auto simp: signed_mode_def)

lemma st_Get_authentic:
  assumes E: "env_ok E els" and pid: "plain_component pid" "StrToPubKey (lib_id E) (crypto E) pid = Inr vk"
    and path: "clean_path path" and s: "signed_mode (store_mode s)" "good_store E els s"
    and get: "st_Get E s (pid @ ''/'' @ path) = Inr (Some val)"
  shows "\<exists>sign. k_verify (key_ops E) vk val sign = Inr True"
proof -
  from st_Get_record [OF E pid(1) path s(1) get] obtain r msd sd where
    tab: "st_table els s (CHR ''/'' # pid @ CHR ''/'' # r) = Some msd"
    and sd: "c_unmarshal (pb_sig (lib_pb E)) msd = Inr sd" "sd_value sd = Some val" by blast
  from authentic_value [OF signed_mode_authentic [OF s(1) good_storeD [OF s(2) tab]] pid sd(1)] sd(2)
  show ?thesis by auto
qed

section \<open>From the writer's put to the reader's get\<close>

text \<open>What the merge is relied on for: it takes in the record of a new key that has no rival.\<close>

definition merge_keeps :: "(string \<times> bytes) list \<Rightarrow> (string \<rightharpoonup> bytes) \<Rightarrow> (string \<rightharpoonup> bytes) \<Rightarrow> bool" where
  "merge_keeps recs m m' \<longleftrightarrow> (\<forall>(k, v) \<in> set recs.
     m k = None \<longrightarrow> (\<forall>v'. (k, v') \<in> set recs \<longrightarrow> v' = v) \<longrightarrow> m' k = Some v)"

lemma merge_keeps_single: "merge_keeps recs m m' \<Longrightarrow> set recs = {(k, v)} \<Longrightarrow> m k = None \<Longrightarrow> m' k = Some v"
  by (auto simp: merge_keeps_def)

text \<open>The record of a put, as it is stored and read.\<close>

lemma sg_Put_record:
  assumes E: "replica_ok E els" and key: "clean_path key" and put: "sg_Put E key val b = (b', None)"
  obtains sKey msd where "signed_record E (sg_priv b) (sg_pub b) val = Inr (sKey, msd)"
    "new_records els (SignatureStore b) (SignatureStore b') = {(CHR ''/'' # sg_putKey E b key, msd)}"
    "newKey (lib_ds E) (sg_putKey E b key) = CHR ''/'' # sg_putKey E b key"
    "newKey (lib_ds E) (CHR ''/'' # sg_putKey E b key) = CHR ''/'' # sg_putKey E b key"
proof -
  note nk = ds_okD(1) [OF env_okD(1) [OF replica_okD(1) [OF E]]]
  from sg_Put_ok [OF replica_okD(1) [OF E] put] obtain sKey msd where
    r: "signed_record E (sg_priv b) (sg_pub b) val = Inr (sKey, msd)"
    and new: "sg_table els b (newKey (lib_ds E) (sKey @ ''/'' @ key)) = None"
    and tab: "sg_table els b' = (sg_table els b)(newKey (lib_ds E) (sKey @ ''/'' @ key) \<mapsto> msd)" .
  have pk: "sg_putKey E b key = sKey @ ''/'' @ key"
    using r by (auto elim!: signed_record_Inr simp: sg_putKey_def Let_def)
  have clean: "clean_path (sg_putKey E b key)"
    using plain_clean [OF signed_record_key [OF replica_okD(2) [OF E] r]] key by (simp add: pk clean_path_append)
  have "new_records els (SignatureStore b) (SignatureStore b') = {(CHR ''/'' # sg_putKey E b key, msd)}"
    using new tab key_okD(1) [OF nk clean]
    by (auto simp: new_records_def st_table_def sg_table_def pk split: if_splits)
  from that [OF r this] key_okD(1,2) [OF nk clean] show thesis by simp
qed

lemma put_reaches_reader:
  assumes E: "replica_ok E els" "ds_live (lib_ds E) els" and has: "has_exact E els has (bs_name (sg_base c))"
    and put: "clean_path key" "signed_ok E (sg_priv b) (sg_pub b)" "sg_Put E key val b = (b', None)" "val \<noteq> []"
    and c: "bs_inTime (sg_base c)" "sg_table els c (newKey (lib_ds E) (sg_putKey E b key)) = None"
    and msg: "pid \<noteq> hid" "msgToCRDTHeads G msg = Inr heads" "list_all (\<lambda>h. \<not> unreadable G h) heads"
      "set (delta_records (headDeltas G heads)) = new_records els (SignatureStore b) (SignatureStore b')"
      "\<And>dl. dl \<in> set (headDeltas G heads) \<Longrightarrow> dl_tombstones dl = []"
    and merge: "merged (delta_records (headDeltas G heads)) (sg_table els c) (els d)"
      "merge_keeps (delta_records (headDeltas G heads)) (sg_table els c) (els d)"
  shows "accepts E has hid now (SignatureStore c) G pid msg"
    "replica_step E els has hid G (SignatureStore c) (with_data d (SignatureStore c))"
    "st_Get E (with_data d (SignatureStore c)) (sg_putKey E b key) = Inr (Some val)"
proof -
  from sg_Put_record [OF E(1) put(1,3)] obtain sKey msd where
    r: "signed_record E (sg_priv b) (sg_pub b) val = Inr (sKey, msd)"
    and new: "new_records els (SignatureStore b) (SignatureStore b') = {(CHR ''/'' # sg_putKey E b key, msd)}"
    and nk: "newKey (lib_ds E) (sg_putKey E b key) = CHR ''/'' # sg_putKey E b key"
      "newKey (lib_ds E) (CHR ''/'' # sg_putKey E b key) = CHR ''/'' # sg_putKey E b key" .
  let ?t = "\<lparr>t_wall = 0, t_ext = 1, t_loc = UTC\<rparr>"
  have "accepts E has hid ?t (SignatureStore c) G pid msg"
    by (rule put_message_accepted [OF E(1) _ put(1) _ _ _ _ _ _ _ _ _ _ msg(1), where now = zero_time
          and s = "SignatureStore b" and s' = "SignatureStore b'" and val = val and deltas = "headDeltas G heads"])
      (use has put c msg new nk in \<open>auto simp: zero_time_def wf_time_def instant_of_def less_instant_def t_sec_def
          msgToDeltas_def st_table_def sg_table_def\<close>)
  then show acc: "accepts E has hid now (SignatureStore c) G pid msg"
    by (simp add: accepts_def)
  show "replica_step E els has hid G (SignatureStore c) (with_data d (SignatureStore c))"
    by (rule step_merge [OF msg(1) acc msg(2,3)])
      (use msg(4) new nk merge in \<open>auto simp: list_all_iff st_table_def sg_table_def\<close>)
  have "els d (CHR ''/'' # sg_putKey E b key) = Some msd"
    by (rule merge_keeps_single [OF merge(2)]) (use msg(4) new nk c in simp_all)
  then have "sg_table els (c\<lparr>sg_base := (sg_base c)\<lparr>bs_dt := d\<rparr>\<rparr>) (newKey (lib_ds E) (sg_putKey E b key)) = Some msd"
    by (simp add: sg_table_def base_table_def nk)
  from stored_read [OF E(2) replica_okD(2) [OF E(1)] r put(4) this]
  show "st_Get E (with_data d (SignatureStore c)) (sg_putKey E b key) = Inr (Some val)"
    by (simp add: with_data_def)
qed

section \<open>Rival records\<close>

text \<open>A message with another value under a stored key is refused.\<close>

lemma rival_refused:
  assumes has: "has_exact E els has (bs_name (st_base s))" and pid: "pid \<noteq> hid"
    and msg: "msgToCRDTHeads G msg = Inr heads" "(k, v) \<in> set (delta_records (headDeltas G heads))"
    and k: "newKey (lib_ds E) k = k" "st_table els s k \<noteq> None"
  shows "\<not> accepts E has hid now s G pid msg"
proof
  assume acc: "accepts E has hid now s G pid msg"
  from accepted_records(2) [OF pid acc msg] has k show False
    by (simp add: has_exact_def st_table_def base_table_def)
qed

end
