(* ===== verification/DagSync.thy ===== *)
theory DagSync
  imports Delivery
begin

text \<open>
  Messages whose heads have ancestors the copy does not know yet. go-ds-crdt merges, with the heads
  of a message, every node of the DAG it reaches from them and has not merged before, while the topic
  validator of crdt/setup.go reads the deltas of the heads only (\<open>verdict_heads_only\<close>). The step
  \<open>replica_step\<close> is the case where all ancestors are merged already; here the other case is a step too.
  Theory OpenRuns goes on to runs of all such steps, and to what they leave intact.
\<close>

section \<open>The nodes a merge reaches\<close>

text \<open>\<open>links\<close> are the links of a node, the library's data.\<close>

inductive dag_reaches :: "('c \<Rightarrow> 'c list) \<Rightarrow> 'c list \<Rightarrow> 'c \<Rightarrow> bool" for links heads where
  reach_head: "c \<in> set heads \<Longrightarrow> dag_reaches links heads c"
| reach_link: "dag_reaches links heads c \<Longrightarrow> c' \<in> set (links c) \<Longrightarrow> dag_reaches links heads c'"

inductive_cases dag_reachesE: "dag_reaches links heads c"

lemma reach_no_links: "dag_reaches links heads c \<Longrightarrow> (\<And>c. links c = []) \<Longrightarrow> c \<in> set heads"
  by (induction rule: dag_reaches.induct) simp_all

text \<open>
  A step of a copy, where the merge may take in the records of any readable nodes that are reached
  from the heads of an accepted message.
\<close>

inductive deep_step ::
  "('d, 'priv, 'pub) env \<Rightarrow> ('d \<Rightarrow> (string \<rightharpoonup> bytes)) \<Rightarrow> ('d \<Rightarrow> string \<Rightarrow> bool res) \<Rightarrow> string \<Rightarrow>
    ('c, 'n) dag_lib \<Rightarrow> ('c \<Rightarrow> 'c list) \<Rightarrow> ('d, 'priv, 'pub) store \<Rightarrow> ('d, 'priv, 'pub) store \<Rightarrow> bool"
  for E els has hid G links where
  deep_local: "replica_step E els has hid G s s' \<Longrightarrow> deep_step E els has hid G links s s'"
| deep_merge: "pid \<noteq> hid \<Longrightarrow> accepts E has hid now s G pid msg \<Longrightarrow> msgToCRDTHeads G msg = Inr heads \<Longrightarrow>
     list_all (\<lambda>c. \<not> unreadable G c) heads \<Longrightarrow>
     list_all (\<lambda>c. dag_reaches links heads c \<and> \<not> unreadable G c) older \<Longrightarrow>
     list_all (\<lambda>(k, v). newKey (lib_ds E) k = k) (delta_records (headDeltas G (heads @ older))) \<Longrightarrow>
     merged (delta_records (headDeltas G (heads @ older))) (st_table els s) (els d) \<Longrightarrow>
     deep_step E els has hid G links s (with_data d s)"

section \<open>Ancestors that are merged already add nothing\<close>

lemma headDeltas_append: "headDeltas G (cs @ cs') = headDeltas G cs @ headDeltas G cs'"
  by (induction cs) (auto split: sum.split option.split)

lemma delta_records_append: "delta_records (ds @ ds') = delta_records ds @ delta_records ds'"
  by (simp add: delta_records_def)

lemma merged_in_order:
  assumes "merged (new @ old) m m'" "m \<subseteq>\<^sub>m m'" "\<And>k v. (k, v) \<in> set old \<Longrightarrow> m k = Some v"
  shows "merged new m m'"
  unfolding merged_def
proof (intro conjI allI impI)
  fix k v assume "m' k = Some v"
  with assms(1,3) show "m k = Some v \<or> (k, v) \<in> set new" by (auto dest: mergedD(1))
next
  fix k assume k: "k \<notin> fst ` set new"
  show "m' k = m k"
  proof (cases "k \<in> fst ` set old")
    case True
    then obtain v where "(k, v) \<in> set old" by auto
    with assms(2,3) show ?thesis by (metis domI map_le_def)
  next
    case False
    with k mergedD(2) [OF assms(1), of k] show ?thesis by (simp add: image_Un)
  qed
qed

text \<open>So a merge in causal order is a step of \<open>replica_step\<close>.\<close>

lemma deep_in_order:
  assumes msg: "pid \<noteq> hid" "accepts E has hid now s G pid msg" "msgToCRDTHeads G msg = Inr heads"
    and heads: "list_all (\<lambda>c. \<not> unreadable G c) heads"
    and keys: "list_all (\<lambda>(k, v). newKey (lib_ds E) k = k) (delta_records (headDeltas G (heads @ older)))"
    and merge: "merged (delta_records (headDeltas G (heads @ older))) (st_table els s) (els d)"
    and known: "\<And>k v. (k, v) \<in> set (delta_records (headDeltas G older)) \<Longrightarrow> st_table els s k = Some v"
    and kept: "st_table els s \<subseteq>\<^sub>m els d"
  shows "replica_step E els has hid G s (with_data d s)"
proof (rule step_merge [OF msg heads])
  note split = headDeltas_append delta_records_append
  from keys show "list_all (\<lambda>(k, v). newKey (lib_ds E) k = k) (delta_records (headDeltas G heads))"
    by (simp add: split)
  from merge kept known show "merged (delta_records (headDeltas G heads)) (st_table els s) (els d)"
    unfolding split by (rule merged_in_order)
qed

section \<open>Ancestors that are not\<close>

text \<open>A message whose only head is empty is accepted by every copy, at any time.\<close>

lemma empty_head_accepted:
  assumes "msgToCRDTHeads G msg = Inr [c]" "headDeltas G [c] = [\<lparr>dl_elements = [], dl_tombstones = []\<rparr>]"
  shows "accepts E has hid now s G pid msg"
proof (cases "pid = hid")
  case True
  then show ?thesis by (simp add: accepts_def own_messages)
next
  case False
  from assms have "msgToDeltas G msg = Inr [\<lparr>dl_elements = [], dl_tombstones = []\<rparr>]"
    unfolding msgToDeltas_def by simp
  then show ?thesis unfolding accepts_def foreign_messages [OF False] by (simp add: delta_records_def)
qed

text \<open>A node that is readable contributes its delta.\<close>

lemma single_delta_readable: "headDeltas G [c] = [dl] \<Longrightarrow> \<not> unreadable G c"
  by (auto simp: unreadable_def is_ok_def split: sum.splits option.splits)

lemma ancestor_merged:
  assumes msg: "pid \<noteq> hid" "msgToCRDTHeads G msg = Inr [c]"
    and c: "headDeltas G [c] = [\<lparr>dl_elements = [], dl_tombstones = []\<rparr>]"
    and a: "a \<in> set (links c)" "headDeltas G [a] = [\<lparr>dl_elements = [(k, v)], dl_tombstones = []\<rparr>]"
    and k: "newKey (lib_ds E) k = k" and d: "els d = (st_table els s)(k \<mapsto> v)"
  shows "deep_step E els has hid G links s (with_data d s)"
proof (rule deep_merge [OF msg(1) empty_head_accepted [OF msg(2) c] msg(2), of _ "[a]"])
  have recs: "delta_records (headDeltas G ([c] @ [a])) = [(k, v)]"
    unfolding headDeltas_append c a(2) by (simp add: delta_records_def)
  from k show "list_all (\<lambda>(k, v). newKey (lib_ds E) k = k) (delta_records (headDeltas G ([c] @ [a])))"
    unfolding recs by simp
  show "merged (delta_records (headDeltas G ([c] @ [a]))) (st_table els s) (els d)"
    unfolding recs d by (auto simp: merged_def)
  from single_delta_readable [OF c] show "list_all (\<lambda>c. \<not> unreadable G c) [c]" by simp
  have "dag_reaches links [c] c" by (rule reach_head) simp
  then have "dag_reaches links [c] a" using a(1) by (rule reach_link)
  with single_delta_readable [OF a(2)] show "list_all (\<lambda>c'. dag_reaches links [c] c' \<and> \<not> unreadable G c') [a]"
    by simp
qed

text \<open>The same node as the head of a message would have been refused.\<close>

lemma refused_as_head:
  assumes "pid \<noteq> hid" "msgToCRDTHeads G msg = Inr [a]"
    and "headDeltas G [a] = [\<lparr>dl_elements = [(k, v)], dl_tombstones = []\<rparr>]"
    and "\<not> modeValidator E now (store_mode s) (st_base s) k v"
  shows "\<not> accepts E has hid now s G pid msg"
proof
  assume acc: "accepts E has hid now s G pid msg"
  have "(k, v) \<in> set (delta_records (headDeltas G [a]))" unfolding assms(3) by (simp add: delta_records_def)
  from accepted_records(1) [OF assms(1) acc assms(2) this] assms(4) show False by simp
qed

end
