(* ===== verification/OpenRuns.thy ===== *)
theory OpenRuns
  imports DagSync
begin

text \<open>
  The life of a copy with nothing left out of what go-ds-crdt may do with an accepted message, and of
  what its owner may put. The topic validator sees the records of the heads it can read, as their keys
  are written. The library merges more: ancestors of the heads that it fetches, heads that could not be
  read when the validator looked, elements whose key it stores elsewhere than it is written, and the
  tombstones of nodes that nobody has checked. A local put may name a key that is not clean, which the
  datastore cleans. The step \<open>open_step\<close> allows all of this and names the keys that have been touched
  unchecked; the results on every other key of a copy are proved here. The step \<open>replica_step\<close> is the
  case in which no key is.
\<close>

section \<open>What a merge brings in\<close>

text \<open>
  \<open>G\<close> is the DAG as the validator sees it, \<open>G'\<close> as it is when the message is merged, and \<open>nodes\<close> are
  the nodes that are merged beside the heads the validator has read. \<open>place\<close> is the key under which the
  library stores an element.
\<close>

definition checked_records :: "(string \<Rightarrow> string) \<Rightarrow> ('c, 'n) dag_lib \<Rightarrow> 'c list \<Rightarrow> (string \<times> bytes) list" where
  "checked_records nk G heads = filter (\<lambda>(k, v). nk k = k) (delta_records (headDeltas G heads))"

definition late_records ::
  "(string \<Rightarrow> string) \<Rightarrow> (string \<Rightarrow> string) \<Rightarrow> ('c, 'n) dag_lib \<Rightarrow> 'c list \<Rightarrow> ('c, 'n) dag_lib \<Rightarrow> 'c list \<Rightarrow>
    (string \<times> bytes) list" where
  "late_records nk place G heads G' nodes = map (\<lambda>(k, v). (place k, v))
     (filter (\<lambda>(k, v). nk k \<noteq> k) (delta_records (headDeltas G heads)) @ delta_records (headDeltas G' nodes))"

definition late_deletes :: "(string \<Rightarrow> string) \<Rightarrow> ('c, 'n) dag_lib \<Rightarrow> 'c list \<Rightarrow> string list" where
  "late_deletes place G' nodes = map place (concat (map dl_tombstones (headDeltas G' nodes)))"

definition unchecked_keys ::
  "(string \<Rightarrow> string) \<Rightarrow> (string \<Rightarrow> string) \<Rightarrow> ('c, 'n) dag_lib \<Rightarrow> 'c list \<Rightarrow> ('c, 'n) dag_lib \<Rightarrow> 'c list \<Rightarrow>
    string set" where
  "unchecked_keys nk place G heads G' nodes =
     fst ` set (late_records nk place G heads G' nodes) \<union> set (late_deletes place G' nodes)"

text \<open>
  What is relied on: only keys that are named change, and a value that was not deleted was there or
  comes from a record of the merge. Which one wins is left open.
\<close>

definition open_merged ::
  "(string \<times> bytes) list \<Rightarrow> (string \<times> bytes) list \<Rightarrow> string list \<Rightarrow> (string \<rightharpoonup> bytes) \<Rightarrow> (string \<rightharpoonup> bytes) \<Rightarrow> bool" where
  "open_merged checked late deletes m m' \<longleftrightarrow>
     (\<forall>k v. m' k = Some v \<longrightarrow> k \<notin> set deletes \<longrightarrow> m k = Some v \<or> (k, v) \<in> set checked \<union> set late)
     \<and> (\<forall>k. k \<notin> fst ` (set checked \<union> set late) \<union> set deletes \<longrightarrow> m' k = m k)"

definition message_merged ::
  "(string \<Rightarrow> string) \<Rightarrow> (string \<Rightarrow> string) \<Rightarrow> ('c, 'n) dag_lib \<Rightarrow> 'c list \<Rightarrow> ('c, 'n) dag_lib \<Rightarrow> 'c list \<Rightarrow>
    (string \<rightharpoonup> bytes) \<Rightarrow> (string \<rightharpoonup> bytes) \<Rightarrow> bool" where
  "message_merged nk place G heads G' nodes m m' \<longleftrightarrow>
     open_merged (checked_records nk G heads) (late_records nk place G heads G' nodes) (late_deletes place G' nodes) m m'"

lemma message_mergedD:
  assumes "message_merged nk place G heads G' nodes m m'" "k \<notin> unchecked_keys nk place G heads G' nodes"
  shows "m' k = Some v \<Longrightarrow> m k = Some v \<or> (k, v) \<in> set (checked_records nk G heads)"
    and "k \<notin> fst ` set (checked_records nk G heads) \<Longrightarrow> m' k = m k"
proof -
  have k: "k \<notin> fst ` set (late_records nk place G heads G' nodes)" "k \<notin> set (late_deletes place G' nodes)"
    using assms(2) by (simp_all add: unchecked_keys_def)
  show "m' k = Some v \<Longrightarrow> m k = Some v \<or> (k, v) \<in> set (checked_records nk G heads)"
    using assms(1) k unfolding message_merged_def open_merged_def by force
  show "k \<notin> fst ` set (checked_records nk G heads) \<Longrightarrow> m' k = m k"
    using assms(1) k unfolding message_merged_def open_merged_def by (simp add: image_Un)
qed

section \<open>Steps\<close>

text \<open>The keys a put has written although its key or its clock is not well formed.\<close>

definition changed_keys :: "('d \<Rightarrow> (string \<rightharpoonup> bytes)) \<Rightarrow> ('d, 'priv, 'pub) store \<Rightarrow> ('d, 'priv, 'pub) store \<Rightarrow> string set" where
  "changed_keys els s s' = {k. st_table els s' k \<noteq> st_table els s k}"

text \<open>\<open>links\<close> are the links of a node, as the library reads them.\<close>

inductive open_step ::
  "('d, 'priv, 'pub) env \<Rightarrow> ('d \<Rightarrow> (string \<rightharpoonup> bytes)) \<Rightarrow> ('d \<Rightarrow> string \<Rightarrow> bool res) \<Rightarrow> string \<Rightarrow>
    (('c, 'n) dag_lib \<Rightarrow> 'c \<Rightarrow> 'c list) \<Rightarrow> ('d, 'priv, 'pub) store \<Rightarrow> string set \<Rightarrow> ('d, 'priv, 'pub) store \<Rightarrow> bool"
  for E els has hid links where
  open_put: "st_Put E now key val s = (s', err) \<Longrightarrow>
     open_step E els has hid links s (if clean_path key \<and> wf_time now then {} else changed_keys els s s') s'"
| open_merge: "pid \<noteq> hid \<Longrightarrow> accepts E has hid now s G pid msg \<Longrightarrow> msgToCRDTHeads G msg = Inr heads \<Longrightarrow>
     list_all (\<lambda>c. dag_reaches (links G') heads c \<and> (c \<in> set heads \<longrightarrow> unreadable G c)) nodes \<Longrightarrow>
     (\<And>k. newKey (lib_ds E) k = k \<Longrightarrow> place k = k) \<Longrightarrow>
     message_merged (newKey (lib_ds E)) place G heads G' nodes (st_table els s) (els d) \<Longrightarrow>
     open_step E els has hid links s (unchecked_keys (newKey (lib_ds E)) place G heads G' nodes) (with_data d s)"
| open_window: "open_step E els has hid links s {} (end_window s)"

inductive open_run ::
  "('d, 'priv, 'pub) env \<Rightarrow> ('d \<Rightarrow> (string \<rightharpoonup> bytes)) \<Rightarrow> ('d \<Rightarrow> string \<Rightarrow> bool res) \<Rightarrow> string \<Rightarrow>
    (('c, 'n) dag_lib \<Rightarrow> 'c \<Rightarrow> 'c list) \<Rightarrow> ('d, 'priv, 'pub) store \<Rightarrow> string set \<Rightarrow> ('d, 'priv, 'pub) store \<Rightarrow> bool"
  for E els has hid links s0 where
  open_start: "open_run E els has hid links s0 {} s0"
| open_snoc: "open_run E els has hid links s0 U s \<Longrightarrow> open_step E els has hid links s V s' \<Longrightarrow>
     open_run E els has hid links s0 (U \<union> V) s'"

section \<open>Steps with nothing unchecked\<close>

lemma checked_normal:
  assumes "list_all (\<lambda>(k, v). nk k = k) (delta_records (headDeltas G heads))"
  shows "checked_records nk G heads = delta_records (headDeltas G heads)"
    "late_records nk place G heads G' nodes = map (\<lambda>(k, v). (place k, v)) (delta_records (headDeltas G' nodes))"
proof -
  show "checked_records nk G heads = delta_records (headDeltas G heads)"
    using assms unfolding checked_records_def list_all_iff by (intro filter_True) auto
  have "filter (\<lambda>(k, v). nk k \<noteq> k) (delta_records (headDeltas G heads)) = []"
    using assms unfolding list_all_iff by (intro filter_False) auto
  then show "late_records nk place G heads G' nodes = map (\<lambda>(k, v). (place k, v)) (delta_records (headDeltas G' nodes))"
    by (simp add: late_records_def)
qed

lemma merged_message:
  assumes "list_all (\<lambda>(k, v). nk k = k) (delta_records (headDeltas G heads))"
    and "merged (delta_records (headDeltas G heads)) m m'"
  shows "message_merged nk place G heads G [] m m'" "unchecked_keys nk place G heads G [] = {}"
  using assms(2)
  by (simp_all add: message_merged_def unchecked_keys_def checked_normal [OF assms(1)] late_deletes_def
      delta_records_def open_merged_def merged_def)

lemma replica_open:
  fixes G :: "('c, 'n) dag_lib" and links :: "('c, 'n) dag_lib \<Rightarrow> 'c \<Rightarrow> 'c list"
  assumes "replica_step E els has hid G s s'"
  shows "open_step E els has hid links s {} s'"
  using assms
proof (cases rule: replica_step_cases)
  case (put key now val err)
  from open_put [where els = els, OF put(3)] put(1,2) show ?thesis by simp
next
  case (merge pid now msg heads d)
  note m = merged_message [OF merge(5,6), of "\<lambda>k. k"]
  show ?thesis
    using open_merge [OF merge(2-4) _ _ m(1)] unfolding m(2) merge(1) by simp
next
  case window
  then show ?thesis by (simp only: open_window)
qed

lemma run_open:
  fixes Gs :: "('c, 'n) dag_lib list" and links :: "('c, 'n) dag_lib \<Rightarrow> 'c \<Rightarrow> 'c list"
  shows "replica_run E els has hid s0 Gs s \<Longrightarrow> open_run E els has hid links s0 {} s"
proof (induction rule: replica_run.induct)
  case run_nil
  show ?case by (rule open_start)
next
  case (run_snoc Gs s G s')
  from open_snoc [OF run_snoc.IH replica_open [OF run_snoc.hyps(2)]] show ?case by simp
qed

text \<open>A merge that fetches ancestors is one that touches the keys of their records.\<close>

lemma headDeltas_set: "set (headDeltas G cs) = (\<Union>c \<in> set cs. set (headDeltas G [c]))"
  by (induction cs) (auto split: sum.splits option.splits)

lemma delta_records_set: "set (delta_records ds) = (\<Union>d \<in> set ds. set (dl_elements d))"
  by (auto simp: delta_records_def)

lemma open_merged_mono:
  assumes "merged recs m m'" "set recs = set checked \<union> set late"
  shows "open_merged checked late deletes m m'"
  using assms(1) unfolding open_merged_def merged_def assms(2) by simp

lemma deep_open:
  fixes links :: "'c \<Rightarrow> 'c list" and G :: "('c, 'n) dag_lib"
  assumes "deep_step E els has hid G links s s'"
  shows "\<exists>U. open_step E els has hid (\<lambda>_ :: ('c, 'n) dag_lib. links) s U s'"
  using assms
proof cases
  case deep_local
  from replica_open [OF this] show ?thesis by blast
next
  case (deep_merge pid now msg heads older d)
  let ?nodes = "filter (\<lambda>c. c \<notin> set heads) older"
  have normal: "list_all (\<lambda>(k, v). newKey (lib_ds E) k = k) (delta_records (headDeltas G heads))"
    using deep_merge(7) by (simp add: headDeltas_append delta_records_append)
  have nodes: "set (delta_records (headDeltas G (heads @ older))) =
      set (delta_records (headDeltas G heads)) \<union> set (delta_records (headDeltas G ?nodes))"
    unfolding delta_records_set headDeltas_set [of G "heads @ older"] headDeltas_set [of G heads]
      headDeltas_set [of G ?nodes] by auto
  have "open_merged (checked_records (newKey (lib_ds E)) G heads)
      (late_records (newKey (lib_ds E)) (\<lambda>k. k) G heads G ?nodes) (late_deletes (\<lambda>k. k) G ?nodes)
      (st_table els s) (els d)"
    by (rule open_merged_mono [OF deep_merge(8)]) (simp add: nodes checked_normal [OF normal])
  then have m: "message_merged (newKey (lib_ds E)) (\<lambda>k. k) G heads G ?nodes (st_table els s) (els d)"
    by (simp add: message_merged_def)
  have "list_all (\<lambda>c. dag_reaches links heads c \<and> (c \<in> set heads \<longrightarrow> unreadable G c)) ?nodes"
    using deep_merge(6) by (auto simp: list_all_iff)
  from open_merge [where links = "\<lambda>_. links" and place = "\<lambda>k. k", OF deep_merge(2-4) this _ m] show ?thesis
    unfolding deep_merge(1) by auto
qed

section \<open>What the steps keep of the other keys\<close>

lemma checked_validated:
  assumes "pid \<noteq> hid" "accepts E has hid now s G pid msg" "msgToCRDTHeads G msg = Inr heads"
    and "(k, v) \<in> set (checked_records (newKey (lib_ds E)) G heads)"
  shows "good_record E (store_mode s) k v"
    and "has_exact E els has (bs_name (st_base s)) \<Longrightarrow> st_table els s k = None"
proof -
  have r: "(k, v) \<in> set (delta_records (headDeltas G heads))" "newKey (lib_ds E) k = k"
    using assms(4) by (auto simp: checked_records_def)
  show "good_record E (store_mode s) k v"
    by (rule validated_good [OF accepted_records(1) [OF assms(1-3) r(1)]])
  show "st_table els s k = None" if "has_exact E els has (bs_name (st_base s))"
    using accepted_records(2) [OF assms(1-3) r(1)] r(2) that
    by (simp add: has_exact_def st_table_def base_table_def)
qed

lemma closed_no_records:
  assumes "\<not> bs_inTime (st_base s)" "pid \<noteq> hid" "accepts E has hid now s G pid msg"
    and "msgToCRDTHeads G msg = Inr heads"
  shows "delta_records (headDeltas G heads) = []"
proof -
  have "\<not> base_isInTime (st_base s)" using assms(1) by (simp add: base_isInTime_def)
  from mode_val.closed_window [OF this assms(2) assms(3) [unfolded accepts_def]] obtain deltas where
    "msgToDeltas G msg = Inr deltas" "delta_records deltas = []" .
  then show ?thesis using assms(4) by (simp add: msgToDeltas_def)
qed

text \<open>A closed copy changes at the keys of unchecked nodes only.\<close>

lemma closed_open_merge:
  assumes "\<not> bs_inTime (st_base s)" "pid \<noteq> hid" "accepts E has hid now s G pid msg"
    and "msgToCRDTHeads G msg = Inr heads" "message_merged nk place G heads G' nodes (st_table els s) (els d)"
    and "k \<notin> unchecked_keys nk place G heads G' nodes"
  shows "els d k = st_table els s k"
  by (rule message_mergedD(2) [OF assms(5,6)]) (simp add: checked_records_def closed_no_records [OF assms(1-4)])

text \<open>Every put that succeeds, of whatever key, adds one record; so the stored ones stay.\<close>

lemma put_keeps:
  assumes E: "env_ok E els" and put: "st_Put E now key val s = (s', err)" and k: "st_table els s k = Some v"
  shows "st_table els s' k = Some v"
  using st_store.put_extends [OF E, of s "(now, key, val)"] put k by (auto simp: map_le_def dom_def)

lemma open_step_kind: "open_step E els has hid links s V s' \<Longrightarrow> same_kind s s'"
  by (induction rule: open_step.induct) (auto simp: with_data_def end_window_def dest: st_Put_kind)

lemma open_step_name: "open_step E els has hid links s V s' \<Longrightarrow> bs_name (st_base s') = bs_name (st_base s)"
  by (induction rule: open_step.induct) (auto simp: with_data_def end_window_def dest: st_Put_closed)

lemma open_step_keeps:
  assumes E: "env_ok E els" and has: "has_exact E els has (bs_name (st_base s))"
    and step: "open_step E els has hid links s V s'" and k: "k \<notin> V" "st_table els s k = Some v"
  shows "st_table els s' k = Some v"
  using step
proof cases
  case (open_put now key val err)
  from put_keeps [OF E open_put(2) k(2)] show ?thesis .
next
  case (open_merge pid now G msg heads G' nodes place d)
  have "k \<notin> fst ` set (checked_records (newKey (lib_ds E)) G heads)"
    using checked_validated(2) [OF open_merge(3-5) _ has] k(2) by fastforce
  from message_mergedD(2) [OF open_merge(8) k(1) [unfolded open_merge(1)] this] k(2) show ?thesis
    by (simp add: open_merge(2))
next
  case open_window
  with k(2) show ?thesis by simp
qed

text \<open>The records under other keys are good.\<close>

definition good_off :: "('d, 'priv, 'pub) env \<Rightarrow> ('d \<Rightarrow> (string \<rightharpoonup> bytes)) \<Rightarrow> string set \<Rightarrow> ('d, 'priv, 'pub) store \<Rightarrow> bool" where
  "good_off E els U s \<longleftrightarrow> (\<forall>k v. k \<notin> U \<longrightarrow> st_table els s k = Some v \<longrightarrow> good_record E (store_mode s) k v)"

lemma good_offD: "good_off E els U s \<Longrightarrow> st_table els s k = Some v \<Longrightarrow> good_record E (store_mode s) k v \<or> k \<in> U"
  by (auto simp: good_off_def)

lemma open_put_good:
  assumes E: "replica_ok E els" and pair: "own_pair E s" and put: "st_Put E now key val s = (s', err)"
    and k: "k \<notin> (if clean_path key \<and> wf_time now then {} else changed_keys els s s')"
    and v: "st_table els s' k = Some v"
  shows "st_table els s k = Some v \<or> st_table els s k = None \<and> good_record E (store_mode s) k v"
proof (cases "(clean_path key \<and> wf_time now) \<and> err = None")
  case True
  then obtain k' v' where "st_table els s k' = None" "st_table els s' = (st_table els s)(k' \<mapsto> v')"
    "good_record E (store_mode s) k' v'"
    using st_Put_good [OF E _ _ pair] put by blast
  with v show ?thesis by (auto split: if_splits)
next
  case False
  then have "st_table els s' k = st_table els s k"
    using k st_Put_err [OF replica_okD(1) [OF E]] put by (cases err) (auto simp: changed_keys_def)
  with v show ?thesis by simp
qed

lemma open_step_good:
  assumes E: "replica_ok E els" and pair: "own_pair E s" and good: "good_off E els U s"
    and step: "open_step E els has hid links s V s'"
  shows "good_off E els (U \<union> V) s'"
proof -
  have mode: "store_mode s' = store_mode s" by (rule same_kind_mode [OF open_step_kind [OF step]])
  have "good_record E (store_mode s) k v" if k: "k \<notin> U" "k \<notin> V" and v: "st_table els s' k = Some v" for k v
  proof -
    from step have "st_table els s k = Some v \<or> good_record E (store_mode s) k v"
    proof cases
      case (open_put now key val err)
      from open_put_good [OF E pair open_put(2) k(2) [unfolded open_put(1)] v] show ?thesis by blast
    next
      case (open_merge pid now G msg heads G' nodes place d)
      have "els d k = Some v" using v by (simp add: open_merge(2))
      from message_mergedD(1) [OF open_merge(8) k(2) [unfolded open_merge(1)] this]
        checked_validated(1) [OF open_merge(3-5)] show ?thesis by blast
    next
      case open_window
      with v show ?thesis by simp
    qed
    with good k(1) show ?thesis by (auto simp: good_off_def)
  qed
  then show ?thesis by (simp add: good_off_def mode)
qed

section \<open>Runs\<close>

lemma open_run_kind: "open_run E els has hid links s0 U s \<Longrightarrow> same_kind s0 s"
  by (induction rule: open_run.induct) (auto intro: same_kind_trans dest: open_step_kind)

lemma open_run_name: "open_run E els has hid links s0 U s \<Longrightarrow> bs_name (st_base s) = bs_name (st_base s0)"
  by (induction rule: open_run.induct) (auto dest: open_step_name)

lemma open_run_good:
  assumes E: "replica_ok E els" and pair: "own_pair E s0" and good: "good_store E els s0"
  shows "open_run E els has hid links s0 U s \<Longrightarrow> good_off E els U s"
proof (induction rule: open_run.induct)
  case open_start
  from good show ?case by (simp add: good_off_def good_store_def)
next
  case (open_snoc U s V s')
  have "own_pair E s" using same_kind_pair [OF open_run_kind [OF open_snoc.hyps(1)]] pair by simp
  from open_step_good [OF E this open_snoc.IH open_snoc.hyps(2)] show ?case .
qed

lemma open_run_keeps:
  assumes E: "env_ok E els" and has: "has_exact E els has (bs_name (st_base s0))" and k: "st_table els s0 k = Some v"
  shows "open_run E els has hid links s0 U s \<Longrightarrow> k \<notin> U \<Longrightarrow> st_table els s k = Some v"
proof (induction rule: open_run.induct)
  case open_start
  from k show ?case by simp
next
  case (open_snoc U s V s')
  have "has_exact E els has (bs_name (st_base s))" using has open_run_name [OF open_snoc.hyps(1)] by simp
  from open_step_keeps [OF E this open_snoc.hyps(2)] open_snoc show ?case by simp
qed

section \<open>Rival puts\<close>

text \<open>A put on a log store, when the storage does not fail and nothing is stored under the key.\<close>

lemma rival_put:
  assumes E: "env_ok E els" "ds_live (lib_ds E) els" and nk: "newKey (lib_ds E) key = k"
    and free: "base_table els b k = None" and put: "st_Put E now key val (LogStore b) = (s, err)"
  shows "err = None \<and> st_table els s k = Some val \<and> (k, val) \<in> new_records els (LogStore b) s
    \<and> bs_name (st_base s) = bs_name b"
proof -
  from put obtain b' where b': "base_Put E key val b = (b', err)" and s: "s = LogStore b'"
    by (auto split: prod.splits)
  have err: "err = None" using base_Put_live [OF E, of b key val] free nk b' by simp
  from base_Put_ok [OF E(1) b' [unfolded err]] free nk show ?thesis
    by (simp add: err s st_table_def new_records_def)
qed

section \<open>The ledger of the keys that were not touched unchecked\<close>

definition ledger_off :: "string set \<Rightarrow> ledger \<Rightarrow> ledger" where
  "ledger_off U L = L\<lparr>lg_recs := lg_recs L |` (- U)\<rparr>"

lemma ledger_off_simps [simp]:
  "lg_recs (ledger_off U L) = lg_recs L |` (- U)" "lg_open (ledger_off U L) = lg_open L" "ledger_off {} L = L"
  by (simp_all add: ledger_off_def restrict_map_def)

lemma ledger_off_eq:
  assumes "lg_open L' = lg_open L" "\<And>k. k \<notin> U \<Longrightarrow> lg_recs L' k = lg_recs L k"
  shows "ledger_off U L' = ledger_off U L"
  using assms by (simp add: ledger_off_def restrict_map_def fun_eq_iff)

text \<open>A change that only adds good records elsewhere is a step of that ledger.\<close>

lemma ledger_off_receive:
  assumes "bs_inTime (st_base s)" "bs_inTime (st_base s') = bs_inTime (st_base s)"
    and "\<And>k v. k \<notin> U \<Longrightarrow> st_table els s k = Some v \<Longrightarrow> st_table els s' k = Some v"
    and "\<And>k v. k \<notin> U \<Longrightarrow> st_table els s' k = Some v \<Longrightarrow> st_table els s k = None \<Longrightarrow> good k v"
  shows "ledger_step good (ledger_off U (ledger_of els s)) (ledger_off U (ledger_of els s'))"
proof -
  have "ledger_off U (ledger_of els s') = (ledger_off U (ledger_of els s))\<lparr>lg_recs := st_table els s' |` (- U)\<rparr>"
    using assms(2) by (simp add: ledger_off_def ledger_of_def)
  also have "ledger_step good (ledger_off U (ledger_of els s)) \<dots>"
    by (rule ledger_receive)
      (use assms(1,3,4) in \<open>auto simp: map_le_def restrict_map_def dom_def split: if_splits\<close>)
  finally show ?thesis .
qed

lemma put_ledger_off:
  assumes E: "replica_ok E els" and pair: "own_pair E s" and put: "st_Put E now key val s = (s', err)"
    and U: "(if clean_path key \<and> wf_time now then {} else changed_keys els s s') \<subseteq> U"
  shows "ledger_step (good_record E (store_mode s)) (ledger_off U (ledger_of els s)) (ledger_off U (ledger_of els s'))"
proof -
  have open_eq: "lg_open (ledger_of els s') = lg_open (ledger_of els s)"
    using st_Put_closed [OF put] by simp
  have idle: ?thesis if "\<And>k. k \<notin> U \<Longrightarrow> st_table els s' k = st_table els s k"
    using ledger_off_eq [OF open_eq, of U] that by (simp add: ledger_idle)
  show ?thesis
  proof (cases "clean_path key \<and> wf_time now \<and> err = None")
    case True
    with st_Put_good [OF E _ _ pair] put obtain k v where
      kv: "st_table els s k = None" "st_table els s' = (st_table els s)(k \<mapsto> v)" "good_record E (store_mode s) k v"
      by blast
    show ?thesis
    proof (cases "k \<in> U")
      case True
      with kv show ?thesis by (intro idle) auto
    next
      case False
      then have "ledger_off U (ledger_of els s') =
          (ledger_off U (ledger_of els s))\<lparr>lg_recs := (lg_recs (ledger_off U (ledger_of els s)))(k \<mapsto> v)\<rparr>"
        using open_eq kv(2) by (simp add: ledger_off_def ledger_of_def)
      with ledger_write [of "ledger_off U (ledger_of els s)" k "good_record E (store_mode s)" v] kv False show ?thesis
        by (simp add: restrict_map_def)
    qed
  next
    case False
    then show ?thesis
      using U st_Put_err [OF replica_okD(1) [OF E]] put
      by (intro idle) (cases err, auto simp: changed_keys_def)
  qed
qed

lemma open_step_refines:
  assumes E: "replica_ok E els" and pair: "own_pair E s" and has: "has_exact E els has (bs_name (st_base s))"
    and step: "open_step E els has hid links s V s'" and U: "V \<subseteq> U"
  shows "ledger_step (good_record E (store_mode s)) (ledger_off U (ledger_of els s)) (ledger_off U (ledger_of els s'))"
  using step
proof cases
  case (open_put now key val err)
  from put_ledger_off [OF E pair open_put(2) U [unfolded open_put(1)]] show ?thesis .
next
  case (open_merge pid now G msg heads G' nodes place d)
  have off: "k \<notin> unchecked_keys (newKey (lib_ds E)) place G heads G' nodes" if "k \<notin> U" for k
    using that U open_merge(1) by blast
  have s': "bs_inTime (st_base s') = bs_inTime (st_base s)" "st_table els s' = els d"
    by (simp_all add: open_merge(2))
  show ?thesis
  proof (cases "bs_inTime (st_base s)")
    case True
    show ?thesis
    proof (rule ledger_off_receive [OF True s'(1)])
      fix k v assume k: "k \<notin> U"
      then show "st_table els s k = Some v \<Longrightarrow> st_table els s' k = Some v"
        using open_step_keeps [OF replica_okD(1) [OF E] has step] U by blast
      show "st_table els s' k = Some v \<Longrightarrow> st_table els s k = None \<Longrightarrow> good_record E (store_mode s) k v"
        using message_mergedD(1) [OF open_merge(8) off [OF k]] checked_validated(1) [OF open_merge(3-5)]
        by (fastforce simp: s'(2))
    qed
  next
    case False
    have "ledger_off U (ledger_of els s') = ledger_off U (ledger_of els s)"
      by (rule ledger_off_eq) (use closed_open_merge [OF False open_merge(3-5,8) off] s' in simp_all)
    then show ?thesis by (simp add: ledger_idle)
  qed
next
  case open_window
  then have "ledger_off U (ledger_of els s') = (ledger_off U (ledger_of els s))\<lparr>lg_open := False\<rparr>"
    by (simp add: ledger_off_def ledger_of_def)
  then show ?thesis by (simp add: ledger_close)
qed

lemma open_run_refines:
  assumes E: "replica_ok E els" and pair: "own_pair E s0" and has: "has_exact E els has (bs_name (st_base s0))"
  shows "open_run E els has hid links s0 U s \<Longrightarrow> U \<subseteq> W \<Longrightarrow>
    (ledger_step (good_record E (store_mode s0)))\<^sup>*\<^sup>* (ledger_off W (ledger_of els s0)) (ledger_off W (ledger_of els s))"
proof (induction rule: open_run.induct)
  case (open_snoc U s V s')
  note kind = open_run_kind [OF open_snoc.hyps(1)]
  have "own_pair E s" "has_exact E els has (bs_name (st_base s))" "V \<subseteq> W"
    using same_kind_pair [OF kind] pair has open_run_name [OF open_snoc.hyps(1)] open_snoc.prems by simp_all
  from open_step_refines [OF E this(1,2) open_snoc.hyps(2) this(3)] open_snoc.IH open_snoc.prems show ?case
    by (simp add: same_kind_mode [OF kind] rtranclp.rtrancl_into_rtrancl)
qed simp

end
