(* ===== verification/Network.thy ===== *)
theory Network
  imports OpenRuns
begin

text \<open>
  All peers of a store together. Each holds a copy with its own key pair; a copy is changed by its
  owner's calls and by messages, which may come from anybody. The sender is not modelled: a message is
  any one that passes the topic validator and whose checked records can be made without forging the
  signature of an honest key, which a replayed record of another peer can be. Its merge is the general
  one of theory OpenRuns, with ancestors, late heads, tombstones and keys in any form; a put may name any
  key. \<open>nw_signed\<close> is the history of what the copies have signed, so that a value that is read can be
  traced back to the call that wrote it, and \<open>nw_unchecked\<close> are the keys of each copy that have been
  touched unchecked.
\<close>

record ('i, 'd, 'priv, 'pub) network =
  nw_copy :: "'i \<Rightarrow> ('d, 'priv, 'pub) store"
  nw_signed :: "('i \<times> 'pub option \<times> string \<times> bytes) list"
  nw_unchecked :: "'i \<Rightarrow> string set"

text \<open>The key a store's records are signed with.\<close>

primrec signing_pub :: "('d, 'priv, 'pub) store \<Rightarrow> 'pub option" where
  "signing_pub (LogStore _) = None"
| "signing_pub (UpdatableStore _) = None"
| "signing_pub (SignatureStore s) = sg_pub s"
| "signing_pub (UpdatableSignatureStore s) = sg_pub s"
| "signing_pub (HashStore _) = None"
| "signing_pub (AccessStore b _ _) = signing_pub b"

definition signed_values :: "('i \<times> 'pub option \<times> string \<times> bytes) list \<Rightarrow> ('pub \<times> bytes) set" where
  "signed_values ps = {(vk, val). \<exists>i key. (i, Some vk, key, val) \<in> set ps}"

lemma signed_values_Cons [simp]:
  "signed_values ((i, p, key, val) # ps) = (case p of None \<Rightarrow> {} | Some vk \<Rightarrow> {(vk, val)}) \<union> signed_values ps"
  by (auto simp: signed_values_def split: option.splits)

section \<open>Records that need no forgery\<close>

text \<open>
  A record in an honest writer's part of the store, whose signature verifies, carries a value that a
  holder of the key has signed. \<open>H\<close> are the honest keys, \<open>S\<close> what they have signed: this is the
  unforgeability of the signature scheme.
\<close>

definition unforged :: "('d, 'priv, 'pub) env \<Rightarrow> 'pub set \<Rightarrow> ('pub \<times> bytes) set \<Rightarrow> string \<Rightarrow> bytes \<Rightarrow> bool" where
  "unforged E H S k msd \<longleftrightarrow>
     (\<forall>vk \<in> H. \<forall>sd. StrToPubKey (lib_id E) (crypto E) (hd (key_parts k)) = Inr vk \<longrightarrow>
        c_unmarshal (pb_sig (lib_pb E)) msd = Inr sd \<longrightarrow>
        k_verify (key_ops E) vk (contents (sd_value sd)) (contents (sd_sign sd)) = Inr True \<longrightarrow>
        (vk, contents (sd_value sd)) \<in> S)"

lemma unforged_mono: "unforged E H S k msd \<Longrightarrow> S \<subseteq> S' \<Longrightarrow> unforged E H S' k msd"
  unfolding unforged_def by blast

text \<open>What the owner signs is not forged.\<close>

lemma signed_record_unforged:
  assumes L: "libs_ok E" and r: "signed_record E priv pub val = Inr (sKey, msd)"
    and S: "\<And>vk. pub = Some vk \<Longrightarrow> (vk, val) \<in> S"
  shows "unforged E H S (CHR ''/'' # sKey @ CHR ''/'' # rest) msd"
  unfolding unforged_def first_key_part [OF signed_record_key [OF L r]]
proof (intro ballI allI impI)
  fix vk sd
  assume vk: "StrToPubKey (lib_id E) (crypto E) sKey = Inr vk"
    and sd: "c_unmarshal (pb_sig (lib_pb E)) msd = Inr sd"
  from r have sKey: "sKey = PubKeyToStr (lib_id E) (crypto E) pub" "sKey \<noteq> []"
    by (auto elim: signed_record_Inr)
  from StrToPubKey_PubKeyToStr [OF libs_okD(2,3) [OF L]] sKey vk have "pub = Some vk" by (metis sum.inject(2))
  moreover have "contents (sd_value sd) = val"
    using signed_record_value [OF L r] sd by (simp add: sig_value_def canon_slice_def split: if_splits)
  ultimately show "(vk, contents (sd_value sd)) \<in> S" using S by simp
qed

section \<open>What the owner's calls write\<close>

text \<open>A call has added one record, signed with the copy's key pair, in the writer's own part.\<close>

definition adds_signed ::
  "('d, 'priv, 'pub) env \<Rightarrow> ('d \<Rightarrow> (string \<rightharpoonup> bytes)) \<Rightarrow> bytes \<Rightarrow> ('d, 'priv, 'pub) store \<Rightarrow>
    ('d, 'priv, 'pub) store \<Rightarrow> bool" where
  "adds_signed E els val s s' \<longleftrightarrow>
     (\<exists>priv sKey r msd. signed_ok E priv (signing_pub s)
        \<and> signed_record E priv (signing_pub s) val = Inr (sKey, msd)
        \<and> st_table els s' = (st_table els s)(CHR ''/'' # sKey @ CHR ''/'' # r \<mapsto> msd))"

lemma sg_Put_adds:
  assumes E: "replica_ok E els" and pair: "signed_ok E (sg_priv b) (sg_pub b)" and key: "clean_path key"
    and put: "sg_Put E key val b = (b', None)"
  shows "adds_signed E els val (SignatureStore b) (SignatureStore b')"
proof -
  from sg_Put_ok [OF replica_okD(1) [OF E] put] obtain sKey msd where
    r: "signed_record E (sg_priv b) (sg_pub b) val = Inr (sKey, msd)"
    and tab: "sg_table els b' = (sg_table els b)(newKey (lib_ds E) (sKey @ ''/'' @ key) \<mapsto> msd)" .
  have "newKey (lib_ds E) (sKey @ ''/'' @ key) = CHR ''/'' # sKey @ CHR ''/'' # key"
    using signed_key [OF ds_okD(1) [OF env_okD(1) [OF replica_okD(1) [OF E]]]
        signed_record_key [OF replica_okD(2) [OF E] r] key] by simp
  with tab r pair show ?thesis
    by (auto simp: adds_signed_def st_table_def sg_table_def)
qed

lemma us_Put_adds:
  assumes E: "replica_ok E els" and pair: "signed_ok E (sg_priv b) (sg_pub b)" and key: "clean_path key"
    and put: "us_Put E now key val b = (b', None)"
  shows "adds_signed E els val (UpdatableSignatureStore b) (UpdatableSignatureStore b')"
proof -
  from us_Put_record [OF replica_okD(1,2) [OF E] key put] obtain sKey msd where
    "signed_record E (sg_priv b) (sg_pub b) val = Inr (sKey, msd)"
    "sg_table els b' = (sg_table els b)(CHR ''/'' # (sKey @ CHR ''/'' # key) @ CHR ''/'' # time_key now \<mapsto> msd)" .
  with pair show ?thesis
    unfolding adds_signed_def
    by (intro exI [of _ "sg_priv b"] exI [of _ sKey] exI [of _ "key @ CHR ''/'' # time_key now"] exI [of _ msd])
      (simp add: st_table_def sg_table_def)
qed

lemma adds_access [simp]:
  "adds_signed E els val (AccessStore b priv pub) (AccessStore b' priv' pub') = adds_signed E els val b b'"
  by (simp add: adds_signed_def st_table_def)

lemma st_Put_adds:
  assumes E: "replica_ok E els" and key: "clean_path key"
  shows "signed_mode (store_mode s) \<Longrightarrow> own_pair E s \<Longrightarrow> st_Put E now key val s = (s', None) \<Longrightarrow>
    adds_signed E els val s s'"
proof (induction s arbitrary: s')
  case (SignatureStore b)
  then show ?case using sg_Put_adds [OF E _ key] by (auto split: prod.splits)
next
  case (UpdatableSignatureStore b)
  then show ?case using us_Put_adds [OF E _ key] by (auto split: prod.splits)
next
  case (AccessStore b priv pub)
  then show ?case by (auto split: option.splits prod.splits)
qed (simp_all add: signed_mode_def)

text \<open>The first put of a store that is opened by name writes the store's name.\<close>

lemma st_initPut_adds:
  assumes E: "replica_ok E els" and key: "clean_path (bs_name (st_base s))"
  shows "signed_mode (store_mode s) \<Longrightarrow> own_pair E s \<Longrightarrow> st_initPut E now s = (s', None) \<Longrightarrow>
    adds_signed E els (bytes_of_string (bs_name (st_base s))) s s'"
  using key
proof (induction s arbitrary: s')
  case (SignatureStore b)
  have "sg_initPut E b = sg_Put E (bs_name (sg_base b)) (bytes_of_string (bs_name (sg_base b))) b"
    by (simp add: sg_initPut_def sg_Put_def)
  with SignatureStore show ?case using sg_Put_adds [OF E] by (auto split: prod.splits)
next
  case (UpdatableSignatureStore b)
  have "us_initPut E now b = us_Put E now (bs_name (sg_base b)) (bytes_of_string (bs_name (sg_base b))) b"
    by (simp add: us_initPut_def us_Put_def)
  with UpdatableSignatureStore show ?case using us_Put_adds [OF E] by (auto split: prod.splits)
next
  case (AccessStore b priv pub)
  then show ?case by (auto split: prod.splits)
qed (simp_all add: signed_mode_def)

lemma initPut_signature:
  "st_initPut E now (SignatureStore b) =
     st_Put E now (bs_name (sg_base b)) (bytes_of_string (bs_name (sg_base b))) (SignatureStore b)"
  "st_initPut E now (UpdatableSignatureStore b) =
     st_Put E now (bs_name (sg_base b)) (bytes_of_string (bs_name (sg_base b))) (UpdatableSignatureStore b)"
  by (simp_all add: sg_initPut_def sg_Put_def us_initPut_def us_Put_def)

lemma st_initPut_same:
  assumes E: "env_ok E els"
  shows "signed_mode (store_mode s) \<Longrightarrow> st_initPut E now s = (s', err) \<Longrightarrow>
    same_kind s s' \<and> (err \<noteq> None \<longrightarrow> st_table els s' = st_table els s)"
proof (induction s arbitrary: s')
  case (SignatureStore b)
  then show ?case unfolding initPut_signature by (metis st_Put_kind st_Put_err [OF E] not_None_eq)
next
  case (UpdatableSignatureStore b)
  then show ?case unfolding initPut_signature by (metis st_Put_kind st_Put_err [OF E] not_None_eq)
next
  case (AccessStore b priv pub)
  then show ?case by (auto simp: st_table_def split: prod.splits)
qed (simp_all add: signed_mode_def)

text \<open>
  A grant signs twice: random bytes with the master key, and the record they become with the key of
  the store below.
\<close>

definition grant_data :: "('d, 'priv, 'pub) env \<Rightarrow> 'priv option \<Rightarrow> 'pub option \<Rightarrow> bytes \<Rightarrow> bytes" where
  "grant_data E priv pub val = (case signed_record E priv pub val of Inl _ \<Rightarrow> [] | Inr (_, msd) \<Rightarrow> msd)"

lemma ac_Grant_put:
  assumes "ac_Grant E now val access priv pub b = (b', None)"
  shows "st_Put E now (accessKey E pub access) (grant_data E priv pub val) b = (b', None)"
    and "clean_path (accessKey E pub access)"
  using assms
proof (atomize (full), elim ac_Grant_ok)
  fix sk sign msd
  assume g: "priv = Some sk" "k_sign (key_ops E) sk val = Inr sign"
    "c_marshal (pb_sig (lib_pb E)) \<lparr>sd_value = Some val, sd_sign = Some sign\<rparr> = Inr msd"
    "accessKey E pub access \<noteq> []" "st_Put E now (accessKey E pub access) msd b = (b', None)"
  then have "PubKeyToStr (lib_id E) (crypto E) pub \<noteq> []" by (auto simp: accessKey_def)
  with g have "grant_data E priv pub val = msd" by (simp add: grant_data_def signed_record_def)
  with g plain_clean [OF accessKey_plain [OF g(4)]]
  show "st_Put E now (accessKey E pub access) (grant_data E priv pub val) b = (b', None)
    \<and> clean_path (accessKey E pub access)" by simp
qed

lemma ac_Grant_err:
  assumes "env_ok E els" "ac_Grant E now val access priv pub b = (b', Some e)"
  shows "st_table els b' = st_table els b"
  using assms(2) st_Put_err [OF assms(1)]
  by (auto simp: ac_Grant_def Let_def split: option.splits sum.splits if_splits)

section \<open>Steps of the network\<close>

text \<open>
  A call of peer \<open>i\<close> that leaves it with \<open>s\<close>, has touched the keys \<open>V\<close> unchecked and, when it succeeds,
  has signed \<open>ps\<close>.
\<close>

definition nw_call ::
  "'i \<Rightarrow> ('d, 'priv, 'pub) store \<Rightarrow> goerror option \<Rightarrow> ('i \<times> 'pub option \<times> string \<times> bytes) list \<Rightarrow> string set \<Rightarrow>
    ('i, 'd, 'priv, 'pub) network \<Rightarrow> ('i, 'd, 'priv, 'pub) network" where
  "nw_call i s err ps V N =
     N\<lparr>nw_copy := (nw_copy N)(i := s), nw_signed := (if err = None then ps else []) @ nw_signed N,
       nw_unchecked := (nw_unchecked N)(i := nw_unchecked N i \<union> V)\<rparr>"

lemma nw_call_simps [simp]:
  "nw_copy (nw_call i s err ps V N) = (nw_copy N)(i := s)"
  "nw_signed (nw_call i s err ps V N) = (if err = None then ps else []) @ nw_signed N"
  "nw_unchecked (nw_call i s err ps V N) = (nw_unchecked N)(i := nw_unchecked N i \<union> V)"
  by (simp_all add: nw_call_def)

text \<open>What a put under a key touches unchecked: nothing when the key is clean.\<close>

abbreviation put_unchecked ::
  "('d \<Rightarrow> (string \<rightharpoonup> bytes)) \<Rightarrow> string \<Rightarrow> ('d, 'priv, 'pub) store \<Rightarrow> ('d, 'priv, 'pub) store \<Rightarrow> string set" where
  "put_unchecked els key s s' \<equiv> (if clean_path key then {} else changed_keys els s s')"

inductive net_step ::
  "('d, 'priv, 'pub) env \<Rightarrow> ('d \<Rightarrow> (string \<rightharpoonup> bytes)) \<Rightarrow> ('d \<Rightarrow> string \<Rightarrow> bool res) \<Rightarrow> ('i \<Rightarrow> string) \<Rightarrow> 'pub set \<Rightarrow>
    (('c, 'n) dag_lib \<Rightarrow> 'c \<Rightarrow> 'c list) \<Rightarrow> ('i, 'd, 'priv, 'pub) network \<Rightarrow> ('i, 'd, 'priv, 'pub) network \<Rightarrow> bool"
  for E els has hid H links where
  net_put: "st_Put E now key val (nw_copy N i) = (s', err) \<Longrightarrow>
     net_step E els has hid H links N (nw_call i s' err [(i, signing_pub (nw_copy N i), key, val)]
       (put_unchecked els key (nw_copy N i) s') N)"
| net_initPut: "st_initPut E now (nw_copy N i) = (s', err) \<Longrightarrow>
     net_step E els has hid H links N (nw_call i s' err [(i, signing_pub (nw_copy N i),
       bs_name (st_base (nw_copy N i)), bytes_of_string (bs_name (st_base (nw_copy N i))))]
       (put_unchecked els (bs_name (st_base (nw_copy N i))) (nw_copy N i) s') N)"
| net_grant: "ac_Grant E now val access priv pub (nw_copy N i) = (s', err) \<Longrightarrow>
     net_step E els has hid H links N (nw_call i s' err
       [(i, signing_pub (nw_copy N i), accessKey E pub access, grant_data E priv pub val), (i, pub, access, val)] {} N)"
| net_access: "is_access_base (nw_copy N i) \<Longrightarrow>
     net_step E els has hid H links N (nw_call i (AccessStore (nw_copy N i) priv pub) None [] {} N)"
| net_reset: "own_pair E (st_ResetKeyPair E rnd priv pub (nw_copy N i)) \<Longrightarrow>
     net_step E els has hid H links N (nw_call i (st_ResetKeyPair E rnd priv pub (nw_copy N i)) None [] {} N)"
| net_receive: "pid \<noteq> hid i \<Longrightarrow> accepts E has (hid i) now (nw_copy N i) G pid msg \<Longrightarrow>
     msgToCRDTHeads G msg = Inr heads \<Longrightarrow>
     list_all (\<lambda>c. dag_reaches (links G') heads c \<and> (c \<in> set heads \<longrightarrow> unreadable G c)) nodes \<Longrightarrow>
     (\<And>k. newKey (lib_ds E) k = k \<Longrightarrow> place k = k) \<Longrightarrow>
     list_all (\<lambda>(k, v). unforged E H (signed_values (nw_signed N)) k v) (checked_records (newKey (lib_ds E)) G heads) \<Longrightarrow>
     message_merged (newKey (lib_ds E)) place G heads G' nodes (st_table els (nw_copy N i)) (els d) \<Longrightarrow>
     net_step E els has hid H links N (nw_call i (with_data d (nw_copy N i)) None []
       (unchecked_keys (newKey (lib_ds E)) place G heads G' nodes) N)"
| net_window: "net_step E els has hid H links N (nw_call i (end_window (nw_copy N i)) None [] {} N)"

inductive net_run ::
  "('d, 'priv, 'pub) env \<Rightarrow> ('d \<Rightarrow> (string \<rightharpoonup> bytes)) \<Rightarrow> ('d \<Rightarrow> string \<Rightarrow> bool res) \<Rightarrow> ('i \<Rightarrow> string) \<Rightarrow> 'pub set \<Rightarrow>
    (('c, 'n) dag_lib \<Rightarrow> 'c \<Rightarrow> 'c list) \<Rightarrow> ('i, 'd, 'priv, 'pub) network \<Rightarrow> ('i, 'd, 'priv, 'pub) network \<Rightarrow> bool"
  for E els has hid H links N0 where
  net_nil: "net_run E els has hid H links N0 N0"
| net_snoc: "net_run E els has hid H links N0 N \<Longrightarrow> net_step E els has hid H links N N' \<Longrightarrow>
     net_run E els has hid H links N0 N'"

section \<open>The invariant\<close>

text \<open>
  Every record of every copy is signed by the key it names, and none is forged, but for the keys \<open>U\<close>
  that have been touched unchecked.
\<close>

definition safe_record :: "('d, 'priv, 'pub) env \<Rightarrow> 'pub set \<Rightarrow> ('pub \<times> bytes) set \<Rightarrow> string \<Rightarrow> bytes \<Rightarrow> bool" where
  "safe_record E H S k v \<longleftrightarrow> authentic E k v \<and> unforged E H S k v"

definition safe_copy ::
  "('d, 'priv, 'pub) env \<Rightarrow> ('d \<Rightarrow> (string \<rightharpoonup> bytes)) \<Rightarrow> 'pub set \<Rightarrow> ('pub \<times> bytes) set \<Rightarrow> string set \<Rightarrow>
    ('d, 'priv, 'pub) store \<Rightarrow> bool" where
  "safe_copy E els H S U s \<longleftrightarrow> own_pair E s \<and> signed_mode (store_mode s)
     \<and> (\<forall>k v. k \<notin> U \<longrightarrow> st_table els s k = Some v \<longrightarrow> safe_record E H S k v)"

definition net_safe ::
  "('d, 'priv, 'pub) env \<Rightarrow> ('d \<Rightarrow> (string \<rightharpoonup> bytes)) \<Rightarrow> 'pub set \<Rightarrow> ('i, 'd, 'priv, 'pub) network \<Rightarrow> bool" where
  "net_safe E els H N \<longleftrightarrow> (\<forall>i. safe_copy E els H (signed_values (nw_signed N)) (nw_unchecked N i) (nw_copy N i))"

lemma safe_copy_mono: "safe_copy E els H S U s \<Longrightarrow> S \<subseteq> S' \<Longrightarrow> safe_copy E els H S' U s"
  unfolding safe_copy_def safe_record_def using unforged_mono by blast

lemma safe_copy_adds:
  assumes L: "libs_ok E" and s: "safe_copy E els H S U s" and kind: "own_pair E s'" "store_mode s' = store_mode s"
    and add: "adds_signed E els val s s'" and S: "\<And>vk. signing_pub s = Some vk \<Longrightarrow> (vk, val) \<in> S'" "S \<subseteq> S'"
  shows "safe_copy E els H S' U s'"
proof -
  from add obtain priv sKey r msd where rec: "signed_ok E priv (signing_pub s)"
    "signed_record E priv (signing_pub s) val = Inr (sKey, msd)"
    and tab: "st_table els s' = (st_table els s)(CHR ''/'' # sKey @ CHR ''/'' # r \<mapsto> msd)"
    unfolding adds_signed_def by blast
  have "safe_record E H S' (CHR ''/'' # sKey @ CHR ''/'' # r) msd"
    using signed_record_authentic [OF L rec] signed_record_unforged [OF L rec(2) S(1)]
    by (simp add: safe_record_def)
  with safe_copy_mono [OF s S(2)] kind tab show ?thesis by (simp add: safe_copy_def)
qed

text \<open>A copy that changed nowhere else than at the keys \<open>V\<close>.\<close>

lemma safe_copy_off:
  assumes "safe_copy E els H S U s" "S \<subseteq> S'" "own_pair E s'" "store_mode s' = store_mode s"
    and "\<And>k. k \<notin> V \<Longrightarrow> st_table els s' k = st_table els s k"
  shows "safe_copy E els H S' (U \<union> V) s'"
  using safe_copy_mono [OF assms(1,2)] assms(3-5) by (simp add: safe_copy_def)

lemma net_safe_call:
  assumes N: "net_safe E els H N"
    and s: "safe_copy E els H (signed_values (nw_signed (nw_call i s err ps V N))) (nw_unchecked N i \<union> V) s"
  shows "net_safe E els H (nw_call i s err ps V N)"
proof -
  let ?N = "nw_call i s err ps V N"
  have "signed_values (nw_signed N) \<subseteq> signed_values (nw_signed ?N)"
    by (auto simp: signed_values_def)
  note mono = safe_copy_mono [OF _ this]
  show ?thesis
    unfolding net_safe_def
  proof
    fix j
    show "safe_copy E els H (signed_values (nw_signed ?N)) (nw_unchecked ?N j) (nw_copy ?N j)"
    proof (cases "j = i")
      case True
      with s show ?thesis by simp
    next
      case False
      then have "nw_copy ?N j = nw_copy N j" "nw_unchecked ?N j = nw_unchecked N j" by simp_all
      with N mono show ?thesis unfolding net_safe_def by metis
    qed
  qed
qed

text \<open>
  A call that adds what it logs, or fails and adds nothing, keeps the network safe; so does one that
  changes the keys \<open>V\<close> only, which then count as touched unchecked.
\<close>

lemma net_safe_put:
  assumes L: "libs_ok E" and N: "net_safe E els H N" and kind: "same_kind (nw_copy N i) s'"
    and add: "err = None \<Longrightarrow> c \<Longrightarrow> adds_signed E els val (nw_copy N i) s'"
    and err: "err \<noteq> None \<Longrightarrow> st_table els s' = st_table els (nw_copy N i)"
  shows "net_safe E els H (nw_call i s' err ((i, signing_pub (nw_copy N i), key, val) # ps)
    (if c then {} else changed_keys els (nw_copy N i) s') N)" (is "net_safe E els H ?N")
proof (rule net_safe_call [OF N])
  let ?V = "if c then {} else changed_keys els (nw_copy N i) s'"
  from N have s: "safe_copy E els H (signed_values (nw_signed N)) (nw_unchecked N i) (nw_copy N i)"
    by (simp add: net_safe_def)
  have kind': "own_pair E s'" "store_mode s' = store_mode (nw_copy N i)"
    using s same_kind_mode [OF kind] same_kind_pair [OF kind] by (simp_all add: safe_copy_def)
  have S: "signed_values (nw_signed N) \<subseteq> signed_values (nw_signed ?N)"
    by (auto simp: signed_values_def)
  show "safe_copy E els H (signed_values (nw_signed ?N)) (nw_unchecked N i \<union> ?V) s'"
  proof (cases "err = None \<and> c")
    case True
    have "safe_copy E els H (signed_values (nw_signed ?N)) (nw_unchecked N i) s'"
      by (rule safe_copy_adds [OF L s kind' add _ S]) (use True in \<open>auto simp: signed_values_def\<close>)
    with True show ?thesis by simp
  next
    case False
    have "st_table els s' k = st_table els (nw_copy N i) k" if "k \<notin> ?V" for k
      using False err that by (auto simp: changed_keys_def split: if_splits)
    from safe_copy_off [OF s S kind' this] show ?thesis .
  qed
qed

lemma st_ResetKeyPair_same:
  "store_mode (st_ResetKeyPair E rnd priv pub s) = store_mode s"
  "st_table els (st_ResetKeyPair E rnd priv pub s) = st_table els s"
  by (induction s) (simp_all add: st_table_def sg_ResetKeyPair_def us_ResetKeyPair_def split_beta)

lemma receive_safe:
  assumes s: "safe_copy E els H S U s" and msg: "pid \<noteq> hid" "accepts E has hid now s G pid msg"
      "msgToCRDTHeads G msg = Inr heads"
    and real: "list_all (\<lambda>(k, v). unforged E H S k v) (checked_records (newKey (lib_ds E)) G heads)"
    and merge: "message_merged (newKey (lib_ds E)) place G heads G' nodes (st_table els s) (els d)"
  shows "safe_copy E els H S (U \<union> unchecked_keys (newKey (lib_ds E)) place G heads G' nodes) (with_data d s)"
proof -
  have "safe_record E H S k v"
    if k: "k \<notin> U" "k \<notin> unchecked_keys (newKey (lib_ds E)) place G heads G' nodes" and v: "els d k = Some v" for k v
  proof (cases "st_table els s k = Some v")
    case True
    with s k(1) show ?thesis by (simp add: safe_copy_def)
  next
    case False
    with message_mergedD(1) [OF merge k(2) v]
    have kv: "(k, v) \<in> set (checked_records (newKey (lib_ds E)) G heads)" by blast
    with real have "unforged E H S k v" by (auto simp: list_all_iff)
    moreover have "authentic E k v"
      using signed_mode_authentic checked_validated(1) [OF msg kv] s
      unfolding safe_copy_def by blast
    ultimately show ?thesis by (simp add: safe_record_def)
  qed
  with s show ?thesis by (simp add: safe_copy_def)
qed

lemma net_step_safe:
  assumes E: "replica_ok E els" and N: "net_safe E els H N" and step: "net_step E els has hid H links N N'"
  shows "net_safe E els H N'"
proof -
  have s: "safe_copy E els H (signed_values (nw_signed N)) (nw_unchecked N i) (nw_copy N i)" for i
    using N by (simp add: net_safe_def)
  then have mode: "signed_mode (store_mode (nw_copy N i))" "own_pair E (nw_copy N i)" for i
    by (simp_all add: safe_copy_def)
  note safe_put = net_safe_put [OF replica_okD(2) [OF E] N]
  note err = st_Put_err [OF replica_okD(1) [OF E]]
  from step show ?thesis
  proof cases
    case (net_put now key val i s' e)
    show ?thesis unfolding net_put(1)
      using st_Put_adds [OF E _ mode] net_put(2) err by (intro safe_put st_Put_kind) auto
  next
    case (net_initPut now i s' e)
    note same = st_initPut_same [OF replica_okD(1) [OF E] mode(1) net_initPut(2)]
    show ?thesis unfolding net_initPut(1)
      using st_initPut_adds [OF E _ mode] net_initPut(2) same by (intro safe_put) auto
  next
    case (net_grant now val access priv pub i s' e)
    have "net_safe E els H (nw_call i s' e ((i, signing_pub (nw_copy N i), accessKey E pub access, grant_data E priv pub val)
        # [(i, pub, access, val)]) (if True then {} else changed_keys els (nw_copy N i) s') N)"
      using st_Put_adds [OF E ac_Grant_put(2) mode ac_Grant_put(1)] net_grant(2) ac_Grant_kind
        ac_Grant_err [OF replica_okD(1) [OF E]] by (intro safe_put) fastforce+
    then show ?thesis unfolding net_grant(1) by simp
  next
    case (net_access i priv pub)
    show ?thesis unfolding net_access(1)
      by (rule net_safe_call [OF N]) (use s [of i] in \<open>simp add: safe_copy_def st_table_def\<close>)
  next
    case (net_reset rnd priv pub i)
    show ?thesis unfolding net_reset(1)
      by (rule net_safe_call [OF N])
        (use safe_copy_off [OF s _ net_reset(2), of _ i "{}"] in \<open>simp add: st_ResetKeyPair_same\<close>)
  next
    case (net_receive pid i now G msg heads G' nodes place d)
    show ?thesis unfolding net_receive(1)
      by (rule net_safe_call [OF N]) (use receive_safe [OF s net_receive(2-4,7,8)] in simp)
  next
    case (net_window i)
    show ?thesis unfolding net_window
      by (rule net_safe_call [OF N]) (use s [of i] in \<open>simp add: safe_copy_def\<close>)
  qed
qed

lemma net_run_safe:
  assumes E: "replica_ok E els" and N: "net_safe E els H N0"
  shows "net_run E els has hid H links N0 N \<Longrightarrow> net_safe E els H N"
  by (induction rule: net_run.induct) (use N net_step_safe [OF E] in blast)+

section \<open>Reads are traced back to a call\<close>

lemma safe_read:
  assumes E: "replica_ok E els" and s: "safe_copy E els H S U s" and vk: "vk \<in> H"
    and pid: "PubKeyToStr (lib_id E) (crypto E) (Some vk) = pid" "pid \<noteq> []" and path: "clean_path path"
    and get: "st_Get E s (pid @ ''/'' @ path) = Inr (Some val)"
  obtains "(vk, val) \<in> S"
  | r msd sd where "CHR ''/'' # pid @ CHR ''/'' # r \<in> U" "has_prefix r path"
      "st_table els s (CHR ''/'' # pid @ CHR ''/'' # r) = Some msd"
      "c_unmarshal (pb_sig (lib_pb E)) msd = Inr sd" "sd_value sd = Some val"
proof -
  note libs = libs_okD(2,3) [OF replica_okD(2) [OF E]]
  have plain: "plain_component pid" using PubKeyToStr_plain [OF libs(1)] pid by blast
  have str: "StrToPubKey (lib_id E) (crypto E) pid = Inr vk"
    using StrToPubKey_PubKeyToStr [OF libs, of "Some vk"] pid by auto
  from s have "signed_mode (store_mode s)" by (simp add: safe_copy_def)
  from st_Get_record [OF replica_okD(1) [OF E] plain path this get] obtain r msd sd where
    tab: "has_prefix r path" "st_table els s (CHR ''/'' # pid @ CHR ''/'' # r) = Some msd"
    and sd: "c_unmarshal (pb_sig (lib_pb E)) msd = Inr sd" "sd_value sd = Some val" by blast
  show thesis
  proof (cases "CHR ''/'' # pid @ CHR ''/'' # r \<in> U")
    case True
    from that(2) [OF True tab sd] show thesis .
  next
    case False
    with s tab have safe: "authentic E (CHR ''/'' # pid @ CHR ''/'' # r) msd"
      "unforged E H S (CHR ''/'' # pid @ CHR ''/'' # r) msd"
      by (simp_all add: safe_copy_def safe_record_def)
    from safe(2) vk str sd(1) authentic_value [OF safe(1) plain str sd(1)] have "(vk, contents (sd_value sd)) \<in> S"
      unfolding unforged_def first_key_part [OF plain] by blast
    with sd(2) that(1) show thesis by simp
  qed
qed

end
