(* ===== verification/Scenario.thy ===== *)
theory Scenario
  imports Verse Network
begin

text \<open>
  The acceptance scenarios of the package, crdt/*_test_util.go: two peers open a store, one puts, the
  other reads what has arrived. They are exported functions that state what the stores are for, so
  they are modelled as programs over the operations, from the point where both stores are open. The
  sleeps in which data travels are the datastores \<open>d1\<close> and \<open>d2\<close> the second peer has after them.
\<close>

section \<open>Checks\<close>

text \<open>\<open>t.Fatal\<close> ends a scenario.\<close>

datatype test_fail = FatalErr goerror | FatalMsg string

type_synonym 'a test = "test_fail + 'a"

definition test_bind :: "'a test \<Rightarrow> ('a \<Rightarrow> 'b test) \<Rightarrow> 'b test" where
  "test_bind m f = (case m of Inl e \<Rightarrow> Inl e | Inr a \<Rightarrow> f a)"

lemma test_bind_Inr [simp]: "test_bind (Inr a) f = f a"
  by (simp add: test_bind_def)

definition checkError :: "goerror option \<Rightarrow> unit test" where
  "checkError err = (case err of Some e \<Rightarrow> Inl (FatalErr e) | None \<Rightarrow> Inr ())"

definition assertError :: "bool \<Rightarrow> string \<Rightarrow> unit test" where
  "assertError cond msg = (if \<not> cond then Inl (FatalMsg msg) else Inr ())"

text \<open>A call and the check of its error.\<close>

definition checked :: "'a res \<Rightarrow> 'a test" where
  "checked r = (case r of Inl e \<Rightarrow> Inl (FatalErr e) | Inr a \<Rightarrow> Inr a)"

lemma check_simps [simp]:
  "checkError None = Inr ()" "checkError (Some e) = Inl (FatalErr e)"
  "assertError True msg = Inr ()" "assertError False msg = Inl (FatalMsg msg)"
  "checked (Inr a) = Inr a" "checked (Inl e) = Inl (FatalErr e)"
  by (simp_all add: checkError_def assertError_def checked_def)

text \<open>Calls that may not return.\<close>

definition stopped :: "('i \<times> 'a res) option \<Rightarrow> ('i \<times> 'a) test option" where
  "stopped r = map_option (\<lambda>(s, res). test_bind (checked res) (\<lambda>a. Inr (s, a))) r"

text \<open>A call that does not return stops the scenario with no outcome.\<close>

definition await :: "'a test option \<Rightarrow> ('a \<Rightarrow> 'b test option) \<Rightarrow> 'b test option" where
  "await r f = (case r of None \<Rightarrow> None | Some (Inl e) \<Rightarrow> Some (Inl e) | Some (Inr a) \<Rightarrow> f a)"

lemma await_simps [simp]:
  "stopped (Some (s, Inr a)) = Some (Inr (s, a))" "await (Some (Inr a)) f = f a"
  by (simp_all add: stopped_def await_def)

text \<open>What \<open>t.Log\<close> prints.\<close>

datatype test_log = LogVal slice | LogHas "bool res"

definition log_values :: "result list \<Rightarrow> test_log list" where
  "log_values rs = map (\<lambda>r. LogVal (e_value r)) rs"

definition meow :: bytes where "meow = bytes_of_string ''meow meow ^.^''"
definition meow2 :: bytes where "meow2 = bytes_of_string ''meow meow 2 ^.^''"

lemma meow_nonempty [simp]: "meow \<noteq> []" "meow2 \<noteq> []"
  by (simp_all add: meow_def meow2_def bytes_of_string_def)

section \<open>Opening stores\<close>

text \<open>
  A fresh host and data directory are part of every call, so the stores are not saved; \<open>None\<close> is an
  opening that does not return.
\<close>

definition test_newStore ::
  "('d, 'priv, 'pub) env \<Rightarrow> string \<Rightarrow> string \<Rightarrow> (nat \<Rightarrow> 'd attempt \<times> 'd load_event list) \<Rightarrow> 'd attempt \<Rightarrow> bytes \<Rightarrow>
    ('priv, 'pub) store_opts list \<Rightarrow> (('d, 'priv, 'pub) world \<times> ('d, 'priv, 'pub) store) test option" where
  "test_newStore E name md tries A rnd opts =
     (case NewStore E False name md tries A rnd opts of
        None \<Rightarrow> None
      | Some (w, db, _) \<Rightarrow>
          Some (test_bind (assertError (db \<noteq> None) ''newStore error:'') (\<lambda>_. Inr (w, the db))))"

definition newAccessStore ::
  "('d, 'priv, 'pub) env \<Rightarrow> bytes \<Rightarrow> ('d, 'priv, 'pub) store \<Rightarrow> (string \<times> gotime \<times> bytes) list \<Rightarrow>
    ('d, 'priv, 'pub) store test" where
  "newAccessStore E rnd st keys = checked (snd (NewAccessStore E rnd st keys []))"

lemma test_newStore_Some:
  assumes "test_newStore E name md tries A rnd opts = Some (Inr (w, s))"
  shows "NewStore E False name md tries A rnd opts = Some (w, Some s, None)"
proof -
  from assms obtain e where run: "NewStore E False name md tries A rnd opts = Some (w, Some s, e)"
    by (cases "NewStore E False name md tries A rnd opts")
      (auto simp: test_newStore_def test_bind_def assertError_def split: if_splits)
  with NewStore_one [OF run] show ?thesis by simp
qed

text \<open>The key pair of an access store made without options is fresh.\<close>

lemma newAccessStore_ok:
  assumes "newAccessStore E rnd st keys = Inr db" "generateKeyPair (crypto E) rnd = Inr (sk, vk)"
  obtains b where "grant_all E (Some sk) (Some vk) keys st = (b, None)" "db = AccessStore b None (Some vk)"
proof -
  from assms(1) obtain b where "NewAccessStore E rnd st keys [] = (b, Inr db)"
    by (cases "NewAccessStore E rnd st keys []") (auto simp: newAccessStore_def checked_def split: sum.splits)
  then obtain priv pub opts' where o: "getAccessOpts E rnd [] = ((priv, pub), opts')"
    and g: "grant_all E priv pub keys st = (b, None)" "db = AccessStore b None pub"
    by (rule NewAccessStore_ok)
  from o assms(2) have "priv = Some sk" "pub = Some vk"
    by (simp_all add: getAccessOpts_def gen_pair_def)
  with g that show thesis by blast
qed

section \<open>The scenarios\<close>

definition BaseTestLogStore ::
  "('d, 'priv, 'pub) env \<Rightarrow> gotime \<Rightarrow> gotime \<Rightarrow> 'd \<Rightarrow> 'd \<Rightarrow> ('d, 'priv, 'pub) store \<Rightarrow> ('d, 'priv, 'pub) store \<Rightarrow>
    (('d, 'priv, 'pub) store \<times> ('d, 'priv, 'pub) store \<times> test_log list) test" where
  "BaseTestLogStore E now1 now2 d1 d2 db0 db1 =
     (let (db0, err) = st_Put E now1 ''aaa'' meow db0 in
      test_bind (checkError err) (\<lambda>_.
      let db1 = with_data d1 db1 in
      test_bind (checked (st_Get E db1 ''aaa'')) (\<lambda>v10.
      let ok = st_Has E db1 ''aaa'' in
      test_bind (checked (st_Query E db1 [empty_query\<lparr>q_filters := [KeyMatchFilter ''aaa''], q_limit := 1\<rparr>])) (\<lambda>rs1.
      let (db0, err) = st_Put E now2 ''aaa'' meow2 db0 in
      test_bind (assertError (err = Some ErrAlreadyExist) ''2nd Put must be fail'') (\<lambda>_.
      let db1 = with_data d2 db1 in
      test_bind (checked (st_Get E db1 ''aaa'')) (\<lambda>v12.
      test_bind (checked (st_Query E db1 [empty_query\<lparr>q_filters := [KeyMatchFilter ''aaa'']\<rparr>])) (\<lambda>rs12.
      Inr (st_Close E db0, st_Close E db1,
           LogVal v10 # LogHas ok # log_values rs1 @ LogVal v12 # log_values rs12))))))))"

definition BaseTestSignatureStore ::
  "('d, 'priv, 'pub) env \<Rightarrow> 'pub option \<Rightarrow> gotime \<Rightarrow> gotime \<Rightarrow> 'd \<Rightarrow> 'd \<Rightarrow> ('d, 'priv, 'pub) store \<Rightarrow>
    ('d, 'priv, 'pub) store \<Rightarrow> (('d, 'priv, 'pub) store \<times> ('d, 'priv, 'pub) store \<times> test_log list) test" where
  "BaseTestSignatureStore E pub now1 now2 d1 d2 db0 db1 =
     (let (db0, err) = st_Put E now1 ''aaa'' meow db0 in
      test_bind (checkError err) (\<lambda>_.
      let db1 = with_data d1 db1; key = PubKeyToStr (lib_id E) (crypto E) pub @ ''/aaa'' in
      test_bind (checked (st_Get E db1 key)) (\<lambda>v10.
      let ok = st_Has E db1 key in
      test_bind (checked (st_Query E db1 [empty_query\<lparr>q_filters := [KeyExistFilter ''aaa''], q_limit := 1\<rparr>])) (\<lambda>rs1.
      let (db0, err) = st_Put E now2 ''aaa'' meow2 db0 in
      test_bind (assertError (err = Some ErrAlreadyExist) ''2nd Put must be fail'') (\<lambda>_.
      let db1 = with_data d2 db1 in
      test_bind (checked (st_Get E db1 key)) (\<lambda>v12.
      test_bind (checked (st_Query E db1 [empty_query\<lparr>q_filters := [KeyExistFilter ''aaa'']\<rparr>])) (\<lambda>rs12.
      Inr (st_Close E db0, st_Close E db1,
           LogVal v10 # LogHas ok # log_values rs1 @ LogVal v12 # log_values rs12))))))))"

definition BaseTestUpdatableSignatureStore ::
  "('d, 'priv, 'pub) env \<Rightarrow> 'pub option \<Rightarrow> gotime \<Rightarrow> gotime \<Rightarrow> 'd \<Rightarrow> 'd \<Rightarrow> ('d, 'priv, 'pub) store \<Rightarrow>
    ('d, 'priv, 'pub) store \<Rightarrow> (('d, 'priv, 'pub) store \<times> ('d, 'priv, 'pub) store \<times> test_log list) test" where
  "BaseTestUpdatableSignatureStore E pub now1 now2 d1 d2 db0 db1 =
     (let (db0, err) = st_Put E now1 ''aaa'' meow db0 in
      test_bind (checkError err) (\<lambda>_.
      let db1 = with_data d1 db1; key = PubKeyToStr (lib_id E) (crypto E) pub @ ''/aaa'' in
      test_bind (checked (st_Get E db1 key)) (\<lambda>v10.
      let ok = st_Has E db1 key in
      test_bind (checked (st_Query E db1 [empty_query\<lparr>q_filters := [KeyExistFilter ''aaa''], q_limit := 1\<rparr>])) (\<lambda>rs1.
      let (db0, err) = st_Put E now2 ''aaa'' meow2 db0 in
      test_bind (checkError err) (\<lambda>_.
      let db1 = with_data d2 db1 in
      test_bind (checked (st_Get E db1 key)) (\<lambda>v12.
      test_bind (checked (st_Query E db1 [empty_query\<lparr>q_filters := [KeyExistFilter ''aaa'']\<rparr>])) (\<lambda>rs12.
      Inr (st_Close E db0, st_Close E db1,
           LogVal v10 # LogHas ok # log_values rs1 @ LogVal v12 # log_values rs12))))))))"

definition BaseTestHashStore ::
  "('d, 'priv, 'pub) env \<Rightarrow> gotime \<Rightarrow> gotime \<Rightarrow> 'd \<Rightarrow> 'd \<Rightarrow> ('d, 'priv, 'pub) store \<Rightarrow> ('d, 'priv, 'pub) store \<Rightarrow>
    (('d, 'priv, 'pub) store \<times> ('d, 'priv, 'pub) store \<times> test_log list) test" where
  "BaseTestHashStore E now1 now2 d1 d2 db0 db1 =
     (let (db0, err) = st_Put E now1 ''aaa'' meow db0 in
      test_bind (checkError err) (\<lambda>_.
      let db1 = with_data d1 db1 in
      test_bind (checked (st_Get E db1 ''aaa'')) (\<lambda>v10.
      let ok = st_Has E db1 ''aaa'' in
      let (db0, err) = st_Put E now2 ''aaa'' meow2 db0 in
      test_bind (assertError (err = Some ErrAlreadyExist) ''2nd Put must be fail'') (\<lambda>_.
      let db1 = with_data d2 db1 in
      test_bind (checked (st_Get E db1 ''aaa'')) (\<lambda>v12.
      Inr (st_Close E db0, st_Close E db1, [LogVal v10, LogHas ok, LogVal v12]))))))"

text \<open>The access scenarios, after the access store is made and the other peer has loaded it.\<close>

definition testHashAccess ::
  "('d, 'priv, 'pub) env \<Rightarrow> gotime \<Rightarrow> gotime \<Rightarrow> 'd \<Rightarrow> 'd \<Rightarrow> ('d, 'priv, 'pub) store \<Rightarrow> ('d, 'priv, 'pub) store \<Rightarrow>
    (('d, 'priv, 'pub) store \<times> ('d, 'priv, 'pub) store \<times> test_log list) test" where
  "testHashAccess E now1 now2 d1 d2 db0 db1 =
     (let (db0, err) = st_Put E now1 ''aaa'' meow db0 in
      test_bind (checkError err) (\<lambda>_.
      let db1 = with_data d1 db1 in
      test_bind (checked (st_Get E db1 ''aaa'')) (\<lambda>v10.
      let ok = st_Has E db1 ''aaa'' in
      let (db0, err) = st_Put E now2 ''aaa'' meow2 db0 in
      test_bind (assertError (err = Some ErrAlreadyExist) ''2nd Put must be fail'') (\<lambda>_.
      let db1 = with_data d2 db1 in
      test_bind (checked (st_Get E db1 ''aaa'')) (\<lambda>v12.
      test_bind (checked (st_Query E db1 [])) (\<lambda>rs.
      test_bind (checked (results_rest (lib_q E) rs)) (\<lambda>resList.
      test_bind (assertError (0 < length resList) ''valid data must be exist'') (\<lambda>_.
      Inr (st_Close E db0, st_Close E db1, [LogVal v10, LogHas ok, LogVal v12])))))))))"

definition testSignatureAccess ::
  "('d, 'priv, 'pub) env \<Rightarrow> 'pub option \<Rightarrow> gotime \<Rightarrow> 'd \<Rightarrow> ('d, 'priv, 'pub) store \<Rightarrow> ('d, 'priv, 'pub) store \<Rightarrow>
    (('d, 'priv, 'pub) store \<times> ('d, 'priv, 'pub) store \<times> test_log list) test" where
  "testSignatureAccess E pub now1 d1 db0 db1 =
     (let (db0, err) = st_Put E now1 ''aaa'' meow db0 in
      test_bind (checkError err) (\<lambda>_.
      let db1 = with_data d1 db1 in
      test_bind (checked (st_Get E db1 (PubKeyToStr (lib_id E) (crypto E) pub @ ''/aaa''))) (\<lambda>v10.
      test_bind (checked (st_Query E db1 [])) (\<lambda>rs.
      test_bind (checked (results_rest (lib_q E) rs)) (\<lambda>resList.
      test_bind (assertError (0 < length resList) ''valid data must be exist'') (\<lambda>_.
      Inr (st_Close E db0, st_Close E db1, [LogVal v10])))))))"

text \<open>The end of the time-limit scenario: the second peer has loaded the store after its limit.\<close>

definition BaseTestTimeLimit ::
  "('d, 'priv, 'pub) env \<Rightarrow> 'pub option \<Rightarrow> ('d, 'priv, 'pub) store \<Rightarrow> ('d, 'priv, 'pub) store \<Rightarrow>
    (('d, 'priv, 'pub) store \<times> ('d, 'priv, 'pub) store) test" where
  "BaseTestTimeLimit E pub db0 db1 =
     (let mustBeEmpty = ''db1 is timeout, so db1 can't get any data'' in
      test_bind (assertError (\<not> base_isInTime (st_base db1)) ''db1.inTime must be false'') (\<lambda>_.
      test_bind (checked (st_Query E db1 [])) (\<lambda>rs.
      test_bind (checked (results_rest (lib_q E) rs)) (\<lambda>resList.
      test_bind (assertError (length resList = 0) mustBeEmpty) (\<lambda>_.
      let v10 = st_Get E db1 (PubKeyToStr (lib_id E) (crypto E) pub @ ''/aaa'') in
      test_bind (assertError (v10 = Inr None \<or> \<not> is_ok v10) mustBeEmpty) (\<lambda>_.
      Inr (st_Close E db0, st_Close E db1)))))))"

section \<open>The scenarios pass\<close>

lemma with_data_twice [simp]: "with_data d (with_data d' s) = with_data d s"
  by (induction s) (simp_all add: with_data_def)

lemma base_Query_live:
  assumes "ds_live (lib_ds E) els"
  obtains rs where "base_Query E s qs = Inr rs"
  using ds_liveD(4) [OF assms] by (auto simp: base_Query_def is_ok_iff)

text \<open>Queries of the stores answer.\<close>

lemma st_Query_live:
  assumes "ds_live (lib_ds E) els"
  shows "\<nexists>b p q. s = AccessStore b p q \<Longrightarrow> \<exists>rs. st_Query E s qs = Inr rs"
proof (cases s)
  case (UpdatableStore b)
  from base_Query_live [OF assms] show ?thesis
    unfolding UpdatableStore st_Query.simps upd_Query_def upd_baseQuery_def Let_def
    by (metis old.sum.simps(6))
next
  case (UpdatableSignatureStore b)
  from us_Query_live [OF assms] show ?thesis unfolding UpdatableSignatureStore st_Query.simps by metis
qed (use base_Query_live [OF assms] in \<open>auto simp: sg_Query_def hs_Query_def Let_def split: sum.splits; metis Inl_Inr_False\<close>)+

text \<open>The key under which the other peers read what a store has put under \<open>key\<close>.\<close>

definition read_key :: "('d, 'priv, 'pub) env \<Rightarrow> ('d, 'priv, 'pub) store \<Rightarrow> string \<Rightarrow> string" where
  "read_key E s key =
     (if signed_mode (store_mode s) then PubKeyToStr (lib_id E) (crypto E) (signing_pub s) @ ''/'' @ key else key)"

text \<open>A peer that holds the same store, opened by its address.\<close>

fun twins :: "('d, 'priv, 'pub) store \<Rightarrow> ('d, 'priv, 'pub) store \<Rightarrow> bool" where
  "twins (LogStore _) (LogStore _) = True"
| "twins (SignatureStore _) (SignatureStore _) = True"
| "twins (HashStore s) (HashStore s') = (hs_salt s = hs_salt s')"
| "twins _ _ = False"

lemma sg_Put_read:
  assumes E: "env_ok E els" "ds_live (lib_ds E) els" "libs_ok E"
    and put: "sg_Put E key val b = (b', None)" and val: "val \<noteq> []"
    and tab: "sg_table els c = sg_table els b'"
  shows "sg_Get E c (PubKeyToStr (lib_id E) (crypto E) (sg_pub b) @ ''/'' @ key) = Inr (Some val)"
proof -
  from sg_Put_ok [OF E(1) put] obtain sKey msd where
    r: "signed_record E (sg_priv b) (sg_pub b) val = Inr (sKey, msd)"
    and new: "sg_table els b' = (sg_table els b)(newKey (lib_ds E) (sKey @ ''/'' @ key) \<mapsto> msd)" .
  have "sKey = PubKeyToStr (lib_id E) (crypto E) (sg_pub b)" using r by (auto elim: signed_record_Inr)
  with stored_read [OF E(2,3) r val, of c "sKey @ ''/'' @ key"] tab new show ?thesis by simp
qed

lemma sg_Put_twice:
  assumes E: "env_ok E els" and put: "sg_Put E key val b = (b', None)"
    and alt: "snd (sg_Put E key val' b) = None"
  shows "sg_Put E key val' b' = (b', Some ErrAlreadyExist)"
proof -
  from sg_Put_ok [OF E put] obtain sKey msd where
    r: "signed_record E (sg_priv b) (sg_pub b) val = Inr (sKey, msd)"
    and new: "sg_table els b' = (sg_table els b)(newKey (lib_ds E) (sKey @ ''/'' @ key) \<mapsto> msd)"
    and b': "sg_priv b' = sg_priv b" "sg_pub b' = sg_pub b" .
  from alt obtain sKey' msd' where r': "signed_record E (sg_priv b) (sg_pub b) val' = Inr (sKey', msd')"
    by (auto simp: sg_Put_def split: sum.splits)
  have eq: "sKey' = sKey" using r r' by (auto elim!: signed_record_Inr)
  have "base_table els (sg_base b') (newKey (lib_ds E) (sKey @ ''/'' @ key)) \<noteq> None"
    using fun_cong [OF new, of "newKey (lib_ds E) (sKey @ ''/'' @ key)"] by (simp add: sg_table_def)
  then show ?thesis by (simp add: sg_Put_def b' r' eq base_Put_cases [OF E])
qed

text \<open>What one peer has put, the other reads, and a second put is refused.\<close>

lemma twin_reads:
  assumes E: "replica_ok E els" "ds_live (lib_ds E) els" and twins: "twins s t"
    and put: "st_Put E now ''aaa'' val s = (s', None)" and val: "val \<noteq> []"
    and raw: "store_mode s = MHash \<Longrightarrow> st_table els s' (newKey (lib_ds E) ''aaa'') = None"
    and tab: "els d = st_table els s'"
  shows "st_Get E (with_data d t) (read_key E s ''aaa'') = Inr (Some val)
    \<and> st_Has E (with_data d t) (read_key E s ''aaa'') = Inr True"
proof -
  note E1 = replica_okD(1) [OF E(1)] and L = replica_okD(2) [OF E(1)]
  note nk = ds_okD(1) [OF env_okD(1) [OF E1]]
  from twins consider (log) b c where "s = LogStore b" "t = LogStore c"
    | (sig) b c where "s = SignatureStore b" "t = SignatureStore c"
    | (hash) b c where "s = HashStore b" "t = HashStore c" "hs_salt c = hs_salt b"
    by (cases rule: twins.cases [of "(s, t)"]) auto
  then show ?thesis
  proof cases
    case log
    then obtain b' where b': "base_Put E ''aaa'' val b = (b', None)" and s': "s' = LogStore b'"
      using put by (auto split: prod.splits)
    have "base_table els (c\<lparr>bs_dt := d\<rparr>) (newKey (lib_ds E) ''aaa'') = Some val"
      using base_Put_ok(2) [OF E1 b'] tab by (simp add: base_table_def s' st_table_def)
    with base_Get_live [OF E(2) this val] show ?thesis
      by (simp add: log read_key_def signed_mode_def with_data_def some_slice_def base_Has_exact [OF E1])
  next
    case sig
    then obtain b' where b': "sg_Put E ''aaa'' val b = (b', None)" and s': "s' = SignatureStore b'"
      using put by (auto split: prod.splits)
    let ?c = "c\<lparr>sg_base := (sg_base c)\<lparr>bs_dt := d\<rparr>\<rparr>"
    let ?k = "PubKeyToStr (lib_id E) (crypto E) (sg_pub b) @ ''/'' @ ''aaa''"
    have c: "sg_table els ?c = sg_table els b'"
      using tab by (simp add: sg_table_def base_table_def s' st_table_def)
    have get: "sg_Get E ?c ?k = Inr (Some val)" by (rule sg_Put_read [OF E1 E(2) L b' val c])
    then obtain msd where "base_Get E (sg_base ?c) ?k = Inr msd" by (auto simp: sg_Get_def split: sum.splits)
    from base_Get_sound [OF E1 this] get show ?thesis
      by (simp add: sig read_key_def signed_mode_def with_data_def base_Has_exact [OF E1])
  next
    case hash
    then obtain b' where b': "hs_Put E ''aaa'' val b = (b', None)" and s': "s' = HashStore b'"
      using put by (auto split: prod.splits)
    let ?c = "c\<lparr>hs_base := (hs_base c)\<lparr>bs_dt := d\<rparr>\<rparr>"
    from hs_Put_consistent [OF E1 libs_okD(1) [OF L] replica_okD(3) [OF E(1)] b'] obtain m where
      tab': "hs_table els b' = (hs_table els b)(CHR ''/'' # MakeHashKey E ''aaa'' (hs_salt b) \<mapsto> m)"
      and v: "hash_value E m = Inr (canon_slice (Some val))" .
    have c: "hs_table els ?c = hs_table els b'"
      using tab by (simp add: hs_table_def base_table_def s' st_table_def)
    have "hs_Get E ?c ''aaa'' = Inr (Some val)"
      by (rule stored_hash_read [OF E1 E(2) libs_okD(1) [OF L] replica_okD(3) [OF E(1)] _ v val])
        (use raw c tab' in \<open>simp_all add: hash s' st_table_def hs_table_def\<close>)
    moreover have "hs_Has E ?c ''aaa'' = Inr True"
      using fun_cong [OF c, of "CHR ''/'' # MakeHashKey E ''aaa'' (hs_salt b)"] tab'
        newKey_hash [OF nk replica_okD(3) [OF E(1)]]
      by (simp add: hs_Has_def base_Has_exact [OF E1] hs_table_def hash(3) split: bool.split)
    ultimately show ?thesis by (simp add: hash read_key_def signed_mode_def with_data_def)
  qed
qed

lemma twin_put_twice:
  assumes E: "replica_ok E els" and twins: "twins s t"
    and put: "st_Put E now ''aaa'' val s = (s', None)" and alt: "snd (st_Put E now' ''aaa'' val' s) = None"
  shows "st_Put E now' ''aaa'' val' s' = (s', Some ErrAlreadyExist)"
proof -
  note E1 = replica_okD(1) [OF E]
  from twins consider (log) b c where "s = LogStore b" "t = LogStore c"
    | (sig) b c where "s = SignatureStore b" "t = SignatureStore c"
    | (hash) b c where "s = HashStore b" "t = HashStore c" "hs_salt c = hs_salt b"
    by (cases rule: twins.cases [of "(s, t)"]) auto
  then show ?thesis
  proof cases
    case log
    then obtain b' where b': "base_Put E ''aaa'' val b = (b', None)" and s': "s' = LogStore b'"
      using put by (auto split: prod.splits)
    have "base_table els b' (newKey (lib_ds E) ''aaa'') \<noteq> None" unfolding base_Put_ok(2) [OF E1 b'] by simp
    then show ?thesis by (simp add: s' base_Put_cases [OF E1])
  next
    case sig
    then obtain b' where b': "sg_Put E ''aaa'' val b = (b', None)" and s': "s' = SignatureStore b'"
      using put by (auto split: prod.splits)
    from sg_Put_twice [OF E1 b', of val'] alt show ?thesis by (simp add: s' sig split: prod.splits)
  next
    case hash
    then obtain b' where b': "hs_Put E ''aaa'' val b = (b', None)" and s': "s' = HashStore b'"
      using put by (auto split: prod.splits)
    from alt obtain m where "c_marshal (pb_hash (lib_pb E))
        \<lparr>hd_baseHash = ''aaa'', hd_salt = hs_salt b, hd_value = Some val'\<rparr> = Inr m"
      by (auto simp: hash hs_Put_def Let_def split: sum.splits)
    from hs_Put_twice [OF E1 b' this] show ?thesis by (simp add: s')
  qed
qed

text \<open>The scenario for a kind of store whose records are written once.\<close>

definition acceptance_test ::
  "('d, 'priv, 'pub) env \<Rightarrow> gotime \<Rightarrow> gotime \<Rightarrow> 'd \<Rightarrow> 'd \<Rightarrow> ('d, 'priv, 'pub) store \<Rightarrow> ('d, 'priv, 'pub) store \<Rightarrow>
    (('d, 'priv, 'pub) store \<times> ('d, 'priv, 'pub) store \<times> test_log list) test" where
  "acceptance_test E now1 now2 d1 d2 db0 db1 =
     (case store_mode db0 of
        MSignature \<Rightarrow> BaseTestSignatureStore E (signing_pub db0) now1 now2 d1 d2 db0 db1
      | MHash \<Rightarrow> BaseTestHashStore E now1 now2 d1 d2 db0 db1
      | _ \<Rightarrow> BaseTestLogStore E now1 now2 d1 d2 db0 db1)"

lemma twins_query:
  assumes "ds_live (lib_ds E) els" "twins s t"
  obtains rs where "st_Query E (with_data d t) qs = Inr rs"
proof -
  have "\<nexists>b p q. with_data d t = AccessStore b p q"
    using assms(2) by (cases t; cases s) (simp_all add: with_data_def)
  from st_Query_live [OF assms(1) this] that show thesis by blast
qed

lemma acceptance_passes:
  assumes E: "replica_ok E els" "ds_live (lib_ds E) els" and twins: "twins s t"
    and put: "st_Put E now1 ''aaa'' meow s = (s', None)" and alt: "snd (st_Put E now2 ''aaa'' meow2 s) = None"
    and raw: "store_mode s = MHash \<Longrightarrow> st_table els s' (newKey (lib_ds E) ''aaa'') = None"
    and tab: "els d1 = st_table els s'" "els d2 = st_table els s'"
  shows "\<exists>l1 l2. acceptance_test E now1 now2 d1 d2 s t =
    Inr (st_Close E s', st_Close E (with_data d2 t),
      LogVal (Some meow) # LogHas (Inr True) # l1 @ LogVal (Some meow) # l2)"
proof -
  note twice = twin_put_twice [OF E(1) twins put alt]
  note read = twin_reads [OF E twins put meow_nonempty(1) raw]
  from read [OF _ tab(1)] read [OF _ tab(2)]
  have reads: "st_Get E (with_data d1 t) (read_key E s ''aaa'') = Inr (Some meow)"
    "st_Has E (with_data d1 t) (read_key E s ''aaa'') = Inr True"
    "st_Get E (with_data d2 t) (read_key E s ''aaa'') = Inr (Some meow)" by simp_all
  have query: "\<exists>rs. st_Query E (with_data d t) qs = Inr rs" for d qs
    by (rule twins_query [OF E(2) twins]) blast
  from twins consider (log) "store_mode s = MLog" | (sig) "store_mode s = MSignature" | (hash) "store_mode s = MHash"
    by (cases rule: twins.cases [of "(s, t)"]) auto
  then show ?thesis
  proof cases
    case log
    obtain rs1 rs2 where "st_Query E (with_data d1 t) [empty_query\<lparr>q_filters := [KeyMatchFilter ''aaa''], q_limit := 1\<rparr>] = Inr rs1"
      "st_Query E (with_data d2 t) [empty_query\<lparr>q_filters := [KeyMatchFilter ''aaa'']\<rparr>] = Inr rs2"
      using query by metis
    then show ?thesis
      using reads by (simp add: acceptance_test_def log BaseTestLogStore_def put twice read_key_def signed_mode_def) blast
  next
    case sig
    obtain rs1 rs2 where "st_Query E (with_data d1 t) [empty_query\<lparr>q_filters := [KeyExistFilter ''aaa''], q_limit := 1\<rparr>] = Inr rs1"
      "st_Query E (with_data d2 t) [empty_query\<lparr>q_filters := [KeyExistFilter ''aaa'']\<rparr>] = Inr rs2"
      using query by metis
    then show ?thesis
      using reads by (simp add: acceptance_test_def sig BaseTestSignatureStore_def put twice read_key_def signed_mode_def) blast
  next
    case hash
    with reads show ?thesis
      by (intro exI [of _ "[]"])
        (simp add: acceptance_test_def BaseTestHashStore_def put twice read_key_def signed_mode_def)
  qed
qed

section \<open>The scenario of the versioned store\<close>

lemma version_read:
  assumes E: "replica_ok E els" "ds_live (lib_ds E) els" and key: "clean_path key" and now: "wf_time now"
    and put: "us_Put E now key val b = (b', None)" and val: "val \<noteq> []"
    and older: "\<And>k t. k \<in> dom (sg_table els b) \<Longrightarrow> below (us_putKey E b key) k \<Longrightarrow>
      key_time (local_zone E) k = Inr t \<Longrightarrow> instant_of t < instant_of now"
    and tab: "sg_table els c = sg_table els b'"
  shows "us_Get E c (us_putKey E b key) = Inr (Some val)"
proof -
  note E1 = replica_okD(1) [OF E(1)] and L = replica_okD(2) [OF E(1)]
  from us_Put_record [OF E1 L key put] obtain sKey msd where
    r: "signed_record E (sg_priv b) (sg_pub b) val = Inr (sKey, msd)"
    and new: "sg_table els b' = (sg_table els b)(CHR ''/'' # (sKey @ CHR ''/'' # key) @ CHR ''/'' # time_key now \<mapsto> msd)"
    and k: "us_putKey E b key = sKey @ CHR ''/'' # key" "clean_path (sKey @ CHR ''/'' # key)" .
  show ?thesis
    unfolding k(1) by (rule stored_version_read [OF E1 E(2) L r val k(2) now]) (use tab new older k(1) in auto)
qed

lemma versions_pass:
  assumes E: "replica_ok E els" "ds_live (lib_ds E) els"
    and now: "wf_time now1" "wf_time now2" "instant_of now1 < instant_of now2"
    and put: "us_Put E now1 ''aaa'' meow b = (b', None)" "us_Put E now2 ''aaa'' meow2 b' = (b'', None)"
    and fresh: "\<And>k. k \<in> dom (sg_table els b) \<Longrightarrow> \<not> below (us_putKey E b ''aaa'') k"
    and tab: "els d1 = sg_table els b'" "els d2 = sg_table els b''"
  shows "\<exists>ok l1 l2. BaseTestUpdatableSignatureStore E (sg_pub b) now1 now2 d1 d2
      (UpdatableSignatureStore b) (UpdatableSignatureStore c) =
    Inr (st_Close E (UpdatableSignatureStore b''), st_Close E (with_data d2 (UpdatableSignatureStore c)),
      LogVal (Some meow) # LogHas ok # l1 @ LogVal (Some meow2) # l2)"
proof -
  note E1 = replica_okD(1) [OF E(1)] and L = replica_okD(2) [OF E(1)]
  have aaa: "clean_path ''aaa''" by (simp add: clean_path_def)
  from us_Put_record [OF E1 L aaa put(1)] obtain sKey msd where
    r: "signed_record E (sg_priv b) (sg_pub b) meow = Inr (sKey, msd)"
    and tb: "sg_table els b' = (sg_table els b)(CHR ''/'' # (sKey @ CHR ''/'' # ''aaa'') @ CHR ''/'' # time_key now1 \<mapsto> msd)"
    and pk: "us_putKey E b ''aaa'' = sKey @ CHR ''/'' # ''aaa''" .
  have sKey: "sKey = PubKeyToStr (lib_id E) (crypto E) (sg_pub b)" using r by (rule signed_record_Inr)
  have pub: "sg_pub b' = sg_pub b" using us_Put_ok [OF E1 put(1)] by (metis signature_store.select_convs(3) signature_store.surjective signature_store.update_convs(1))
  then have pk': "us_putKey E b' ''aaa'' = us_putKey E b ''aaa''" by (simp add: us_putKey_def)
  define w where "w d = c\<lparr>sg_base := (sg_base c)\<lparr>bs_dt := d\<rparr>\<rparr>" for d
  have w: "with_data d (UpdatableSignatureStore c) = UpdatableSignatureStore (w d)" "sg_table els (w d) = els d" for d
    by (simp_all add: w_def with_data_def sg_table_def base_table_def)
  then have w2: "with_data d (UpdatableSignatureStore (w d')) = UpdatableSignatureStore (w d)" for d d'
    using with_data_twice by metis
  have get1: "us_Get E (w d1) (us_putKey E b ''aaa'') = Inr (Some meow)"
    by (rule version_read [OF E aaa now(1) put(1) meow_nonempty(1)]) (use fresh tab w(2) in auto)
  have "us_Get E (w d2) (us_putKey E b' ''aaa'') = Inr (Some meow2)"
  proof (rule version_read [OF E aaa now(2) put(2) meow_nonempty(2)])
    fix k t assume k: "k \<in> dom (sg_table els b')" "below (us_putKey E b' ''aaa'') k" "key_time (local_zone E) k = Inr t"
    with fresh have "k = CHR ''/'' # (sKey @ CHR ''/'' # ''aaa'') @ CHR ''/'' # time_key now1"
      unfolding tb pk' by auto
    with k(3) key_time_stamped [OF now(1), of "local_zone E" "sKey @ CHR ''/'' # ''aaa''"] have "t = to_utc now1"
      by (simp only: sum.inject)
    with now(3) show "instant_of t < instant_of now2" by simp
  qed (simp add: w(2) tab)
  then have get2: "us_Get E (w d2) (us_putKey E b ''aaa'') = Inr (Some meow2)" by (simp add: pk')
  obtain rs1 where rs1: "us_Query E (w d1) [empty_query\<lparr>q_filters := [KeyExistFilter ''aaa''], q_limit := 1\<rparr>] = Inr rs1"
    by (rule us_Query_live [OF E(2)])
  obtain rs2 where rs2: "us_Query E (w d2) [empty_query\<lparr>q_filters := [KeyExistFilter ''aaa'']\<rparr>] = Inr rs2"
    by (rule us_Query_live [OF E(2)])
  show ?thesis
    using put get1 get2 rs1 rs2
    by (simp add: BaseTestUpdatableSignatureStore_def w w2 pk sKey del: with_data_twice) blast
qed

end
