(* ===== verification/AccessScenario.thy ===== *)
theory AccessScenario
  imports Scenario
begin

text \<open>
  The access scenarios of crdt/access_test_util.go pass: what the granted writer puts into an access
  store is read, and found by a query, by the peer that has loaded it by its address. And the scenario
  of crdt/time_test_util.go: a store that is loaded after its limit is empty.
\<close>

section \<open>Results of an unrestricted query\<close>

lemma base_query_all:
  assumes E: "env_ok E els" and run: "base_Query E s [empty_query] = Inr rs"
  shows "r \<in> set rs \<Longrightarrow> r_error r = None"
    and "r \<in> set rs \<Longrightarrow> base_table els s (e_key r) = Some (contents (e_value r))"
    and "base_table els s k = Some v \<Longrightarrow> \<exists>r \<in> set rs. e_key r = k \<and> contents (e_value r) = v"
proof -
  have ans: "answers (newKey (lib_ds E)) empty_query (base_table els s) rs"
    using base_Query_answers [OF E run] by simp
  show "r_error r = None" if "r \<in> set rs"
    by (rule answers_sound(1) [OF ans _ _ that]) simp_all
  show "base_table els s (e_key r) = Some (contents (e_value r))" if "r \<in> set rs"
    using answers_sound(2) [OF ans _ _ that] exhibits_value [of empty_query _ "entry_of r"] by simp
  assume k: "base_table els s k = Some v"
  from ans obtain es where full: "full_answer (newKey (lib_ds E)) empty_query (base_table els s) es"
    and rs: "rs = map ok_result (window empty_query es)"
    by (rule answersE) simp_all
  have "k \<in> e_key ` set es"
    using k by (intro full_answer_covers [OF full]) (auto simp: selects_def prefix_selects_def)
  then obtain e where e: "e \<in> set es" "e_key e = k" by blast
  with exhibits_value [OF full_answerD(1) [OF full e(1)]] k have "contents (e_value e) = v" by simp
  with e rs show "\<exists>r \<in> set rs. e_key r = k \<and> contents (e_value r) = v"
    by (intro bexI [of _ "ok_result e"]) simp_all
qed

text \<open>A query of an access store delivers what its base delivers under keys that pass the check.\<close>

lemma access_query:
  assumes Q: "query_lib_ok nk (lib_q E)" and base: "st_Query E b [] = Inr rs0"
    and err: "\<And>r. r \<in> set rs0 \<Longrightarrow> r_error r = None"
    and r: "r \<in> set rs0" "ac_Verify E b pub (e_key r) = None"
  obtains rs resList where "st_Query E (AccessStore b p pub) [] = Inr rs"
    "results_rest (lib_q E) rs = Inr resList" "0 < length resList"
proof -
  let ?q = "empty_query\<lparr>q_filters := q_filters empty_query @ [acVerifyFilter E b pub]\<rparr>"
  let ?rs = "naiveQueryApply (lib_q E) ?q rs0"
  have "st_Query E (AccessStore b p pub) [] = Inr ?rs" by (simp add: base Let_def)
  moreover have "r \<in> set ?rs"
    by (rule query_lib_okD(4) [OF Q _ _ r(1)])
      (use r(2) in \<open>simp_all add: selects_def prefix_selects_def acVerifyFilter_def\<close>)
  moreover have "results_rest (lib_q E) ?rs = Inr (map entry_of ?rs)"
    by (rule query_lib_okD(7) [OF Q]) (use query_lib_okD(2) [OF Q] err in blast)
  ultimately show thesis by (intro that) auto
qed

section \<open>Hash access\<close>

lemma hash_key_slash [simp]: "trim_prefix (MakeHashKey E b salt) ''/'' = MakeHashKey E b salt"
  using MakeHashKey_no_slash [of E b salt] by (cases "MakeHashKey E b salt") auto

lemma hash_granted:
  assumes E: "env_ok E els" "ds_live (lib_ds E) els" "query_lib_ok nk (lib_q E)" "kdf_ok E"
    and g: "hs_grants E (hs_salt s) m (accessKey E pub h) k" "m \<subseteq>\<^sub>m hs_table els s"
    and h: "h = MakeHashKey E b salt" "accessKey E pub h \<noteq> []" and key: "trim_prefix key ''/'' = h"
  shows "ac_Verify E (HashStore s) pub key = None"
proof -
  have "h \<noteq> []" using MakeHashKey_nonempty [OF E(4)] by (simp add: h(1))
  with ac_verify_hash [OF E(1-3), of key pub _ s] key h(2) hs_grants_mono [OF g(2,1)]
  have "ac_verify E (HashStore s) pub key = Inr True" by auto
  then show ?thesis by (simp add: ac_Verify_def)
qed

text \<open>The unrestricted query of a hash store delivers a record whose value unmarshals.\<close>

lemma hash_query_all:
  assumes E: "env_ok E els" "ds_live (lib_ds E) els"
    and tab: "hs_table els s k = Some m" and v: "hash_value E m = Inr v"
  obtains rs where "st_Query E (HashStore s) [] = Inr rs" "\<And>r. r \<in> set rs \<Longrightarrow> r_error r = None"
    "\<exists>r \<in> set rs. e_key r = k"
proof -
  obtain rs0 where rs0: "base_Query E (hs_base s) [empty_query] = Inr rs0" by (rule base_Query_live [OF E(2)])
  note all = base_query_all [OF E(1) rs0]
  from all(3) [OF tab [unfolded hs_table_def]] obtain r where "r \<in> set rs0" "e_key r = k" "contents (e_value r) = m"
    by blast
  with v have "r\<lparr>e_value := v\<rparr> \<in> set (decode_results (hash_value E) rs0)" "e_key (r\<lparr>e_value := v\<rparr>) = k"
    by (auto simp: decode_results_set)
  moreover have "st_Query E (HashStore s) [] = Inr (decode_results (hash_value E) rs0)"
    by (simp add: hs_Query_def rs0)
  ultimately show thesis
    using that decode_results_errors [of rs0, OF all(1)] by blast
qed

lemma hash_access_passes:
  assumes E: "replica_ok E els" "ds_live (lib_ds E) els" and Q: "query_lib_ok nk (lib_q E)"
    and s: "s = HashStore b" "t = HashStore c" "hs_salt c = hs_salt b" and h: "h = MakeHashKey E ''aaa'' (hs_salt b)"
    and ak: "accessKey E pub h \<noteq> []" and g: "hs_grants E (hs_salt b) (hs_table els b) (accessKey E pub h) k"
    and put: "st_Put E now1 ''aaa'' meow s = (s', None)" and alt: "snd (st_Put E now2 ''aaa'' meow2 s) = None"
    and raw: "st_table els s' (newKey (lib_ds E) ''aaa'') = None"
    and tab: "els d1 = st_table els s'" "els d2 = st_table els s'"
  shows "testHashAccess E now1 now2 d1 d2 (AccessStore s p pub) (AccessStore t p' pub) =
    Inr (st_Close E (AccessStore s' p pub), st_Close E (with_data d2 (AccessStore t p' pub)),
      [LogVal (Some meow), LogHas (Inr True), LogVal (Some meow)])"
proof -
  note E1 = replica_okD(1) [OF E(1)]
  from put obtain b' where b': "hs_Put E ''aaa'' meow b = (b', None)" and s': "s' = HashStore b'"
    by (auto simp: s split: prod.splits)
  have twins: "twins s t" by (simp add: s)
  have mode: "store_mode s = MHash" "store_mode t = MHash" by (simp_all add: s)
  from hs_Put_consistent [OF E1 libs_okD(1) [OF replica_okD(2) [OF E(1)]] replica_okD(3) [OF E(1)] b'] obtain m where
    new: "hs_table els b' = (hs_table els b)(CHR ''/'' # h \<mapsto> m)" and v: "hash_value E m = Inr (canon_slice (Some meow))"
    unfolding h .
  have grows: "hs_table els b \<subseteq>\<^sub>m hs_table els b'"
    using st_store.put_extends [OF E1, of s "(now1, ''aaa'', meow)"] put by (simp add: s s' st_table_def hs_table_def)
  have salt: "hs_salt b' = hs_salt b" using hs_Put_ok [OF E1 b'] by metis
  define w where "w d = c\<lparr>hs_base := (hs_base c)\<lparr>bs_dt := d\<rparr>\<rparr>" for d
  have w: "with_data d t = HashStore (w d)" "hs_salt (w d) = hs_salt b" for d
    by (simp_all add: s w_def with_data_def)
  have wtab: "hs_table els (w d1) = hs_table els b'" "hs_table els (w d2) = hs_table els b'"
    using tab by (simp_all add: w_def hs_table_def base_table_def s' st_table_def)
  note granted = hash_granted [OF E1 E(2) Q replica_okD(3) [OF E(1)] _ _ h ak]
  have ok: "ac_Verify E s pub h = None" "ac_Verify E s' pub h = None"
    using granted [of b "hs_table els b" k h] granted [of b' "hs_table els b" k h] g grows
    by (simp_all add: s(1) s' salt h)
  have ok12: "ac_Verify E (HashStore (w d)) pub key = None"
    if "d \<in> {d1, d2}" "trim_prefix key ''/'' = h" for d key
    using granted [of "w d" "hs_table els b" k key] g grows wtab that by (auto simp: w(2))
  have gate: "ac_gate E (HashStore (w d)) pub ''aaa'' = None" if "d \<in> {d1, d2}" for d
    using ok12 [OF that, of h] unfolding ac_gate_cases by (simp add: hs_putKey_def w(2) h)
  have pk: "st_putKey E s ''aaa'' = h" "st_putKey E s' ''aaa'' = h"
    by (simp_all add: s(1) s' hs_putKey_def h salt)
  note read = twin_reads [OF E twins put meow_nonempty(1) raw]
  have reads: "hs_Get E (w d) ''aaa'' = Inr (Some meow)" "hs_Has E (w d) ''aaa'' = Inr True" if "d \<in> {d1, d2}" for d
    using read [of d] tab that by (auto simp: w(1) read_key_def signed_mode_def mode)
  obtain rs0 where rs0: "st_Query E (HashStore (w d2)) [] = Inr rs0" "\<And>r. r \<in> set rs0 \<Longrightarrow> r_error r = None"
    "\<exists>r \<in> set rs0. e_key r = CHR ''/'' # h"
    by (rule hash_query_all [OF E1 E(2) _ v]) (use wtab new in auto)
  then obtain r where r: "r \<in> set rs0" "e_key r = CHR ''/'' # h" by blast
  obtain rs l where q: "st_Query E (AccessStore (HashStore (w d2)) p' pub) [] = Inr rs"
    "results_rest (lib_q E) rs = Inr l" "0 < length l"
    by (rule access_query [OF Q rs0(1,2) r(1)]) (use ok12 r in auto)
  have acc: "with_data d (AccessStore t p' pub) = AccessStore (HashStore (w d)) p' pub" for d
    using w(1) by (simp add: with_data_def)
  then have acc2: "with_data d (AccessStore (HashStore (w d')) p' pub) = AccessStore (HashStore (w d)) p' pub" for d d'
    using with_data_twice by metis
  have puts: "st_Put E now1 ''aaa'' meow (AccessStore s p pub) = (AccessStore s' p pub, None)"
    "st_Put E now2 ''aaa'' meow2 (AccessStore s' p pub) = (AccessStore s' p pub, Some ErrAlreadyExist)"
    using put twin_put_twice [OF E(1) twins put alt] ok by (simp_all add: pk)
  have gets: "st_Get E (AccessStore (HashStore (w d)) p' pub) ''aaa'' = Inr (Some meow)"
    "st_Has E (AccessStore (HashStore (w d)) p' pub) ''aaa'' = Inr True" if "d \<in> {d1, d2}" for d
    using gate [OF that] reads [OF that] by simp_all
  show ?thesis
    by (simp add: testHashAccess_def acc acc2 puts gets q Let_def
        del: st_Put.simps st_Get.simps st_Has.simps st_Query.simps)
      (use q(3) in simp)
qed

section \<open>Signature access\<close>

text \<open>A grant written into an updatable signature store.\<close>

lemma Grant_updatable:
  assumes E: "env_ok E els" "libs_ok E"
    and pair: "\<And>sk vk. priv = Some sk \<Longrightarrow> pub = Some vk \<Longrightarrow> key_pair (key_ops E) sk vk"
    and own: "component_key E (PubKeyToStr (lib_id E) (crypto E) (sg_pub s)) = None"
    and grant: "ac_Grant E now val access priv pub (UpdatableSignatureStore s) = (b', None)" and val: "val \<noteq> []"
  obtains s' rec where "b' = UpdatableSignatureStore s'" "sg_pub s' = sg_pub s" "sg_priv s' = sg_priv s"
    "sg_table els s' = (sg_table els s)(CHR ''/'' # us_putKey E s (accessKey E pub access) @ CHR ''/'' # time_key now \<mapsto> rec)"
    "sg_grants E (sg_table els s') (accessKey E pub access)
       (CHR ''/'' # us_putKey E s (accessKey E pub access) @ CHR ''/'' # time_key now)"
proof -
  let ?ak = "accessKey E pub access"
  from grant obtain sk sign msd where sk: "priv = Some sk" "k_sign (key_ops E) sk val = Inr sign"
    and m: "c_marshal (pb_sig (lib_pb E)) \<lparr>sd_value = Some val, sd_sign = Some sign\<rparr> = Inr msd"
    and ne: "?ak \<noteq> []" and put: "st_Put E now ?ak msd (UpdatableSignatureStore s) = (b', None)"
    by (rule ac_Grant_ok)
  from put obtain s' where b': "b' = UpdatableSignatureStore s'" and sput: "us_Put E now ?ak msd s = (s', None)"
    by (auto split: prod.splits)
  from us_Put_record [OF E plain_clean [OF accessKey_plain [OF ne]] sput] obtain sKey rec where
    r: "signed_record E (sg_priv s) (sg_pub s) msd = Inr (sKey, rec)"
    and tab: "sg_table els s' = (sg_table els s)(CHR ''/'' # (sKey @ CHR ''/'' # ?ak) @ CHR ''/'' # time_key now \<mapsto> rec)"
    and pk: "us_putKey E s ?ak = sKey @ CHR ''/'' # ?ak" .
  have plain: "plain_component sKey" by (rule signed_record_key [OF E(2) r])
  have sKey: "sKey = PubKeyToStr (lib_id E) (crypto E) (sg_pub s)"
    using r by (rule signed_record_Inr)
  let ?k = "CHR ''/'' # (sKey @ CHR ''/'' # ?ak) @ CHR ''/'' # time_key now"
  from E(2) ne obtain vk where vk: "pub = Some vk" "component_key E ?ak = Some vk"
    by (rule component_key_accessKey)
  have parts: "key_parts ?k = [sKey, ?ak, time_key now]"
    unfolding stamped_key_parts
    using plain accessKey_plain [OF ne] by (simp add: go_split_append go_split_no_sep plain_component_def)
  have "carries_grant E ?k msd"
    by (rule carries_grant_signed [OF E(2) pair [OF sk(1) vk(1)] _ sk(2) m])
      (simp only: acFilter_extractPubKey_def parts, simp add: own [folded sKey] vk(2))
  moreover have "sig_value E rec = Inr (Some msd)"
    using signed_record_value [OF E(2) r] grant_value_nonempty [OF E(2) m val] by simp
  moreover have "sg_table els s' ?k = Some rec" unfolding tab by simp
  ultimately have "sg_grants E (sg_table els s') ?ak ?k"
    unfolding sg_grants_def parts by auto
  moreover have "sg_pub s' = sg_pub s" "sg_priv s' = sg_priv s"
    using st_Put_kind [OF put] by (simp_all add: b')
  ultimately show thesis using that [OF b', of rec] tab by (simp only: pk)
qed

text \<open>No access key is the short path the scenario writes under.\<close>

lemma b64_not_aaa: "b64_encode m \<noteq> ''aaa''"
proof
  assume "b64_encode m = ''aaa''"
  then have "b64_decode ''aaa'' = Inr m" by (metis b64_decode_encode)
  then show False by (simp add: b64_decode_def is_newline_def b64_corrupt_def)
qed

lemma accessKey_not_aaa: "accessKey E pub access \<noteq> ''aaa''"
  using b64_not_aaa by (auto simp: accessKey_def Let_def split: sum.splits)

text \<open>The key of a version lies below no other path of the same writer.\<close>

lemma below_component:
  assumes "plain_component a" "plain_component b"
    and "below (p @ CHR ''/'' # a) (CHR ''/'' # (p @ CHR ''/'' # b) @ CHR ''/'' # q)"
  shows "a = b"
proof -
  from assms(3) obtain r where "b @ CHR ''/'' # q = a @ CHR ''/'' # r"
    by (auto simp: below_def has_prefix_iff)
  then have "go_split (CHR ''/'') (b @ CHR ''/'' # q) = go_split (CHR ''/'') (a @ CHR ''/'' # r)"
    by (rule arg_cong)
  with assms(1,2) show ?thesis
    by (simp only: go_split_append) (simp add: go_split_no_sep plain_component_def)
qed

lemma aaa_plain: "plain_component ''aaa''"
  by (simp add: plain_component_def)

text \<open>No record is stored as a version of a path, or below it.\<close>

definition untouched :: "(string \<rightharpoonup> bytes) \<Rightarrow> string \<Rightarrow> bool" where
  "untouched m p \<longleftrightarrow> (\<forall>k \<in> dom m. category_of k \<noteq> p \<and> \<not> below p k)"

lemma has_category_stamped: "has_category (CHR ''/'' # p @ CHR ''/'' # time_key t)"
  unfolding has_category_def stamped_key_parts by (cases "go_split (CHR ''/'') p") simp_all

lemma us_query_all:
  assumes E: "env_ok E els" "ds_live (lib_ds E) els"
    and k: "sg_table els s (CHR ''/'' # p @ CHR ''/'' # time_key t) = Some v" "p \<noteq> []" and t: "wf_time t"
    and val: "sig_value E v = Inr val"
    and only: "\<And>k'. k' \<in> dom (sg_table els s) \<Longrightarrow> category_of k' = p \<Longrightarrow> k' = CHR ''/'' # p @ CHR ''/'' # time_key t"
  obtains rs where "st_Query E (UpdatableSignatureStore s) [] = Inr rs" "\<And>r. r \<in> set rs \<Longrightarrow> r_error r = None"
    "\<exists>r \<in> set rs. e_key r = CHR ''/'' # p @ CHR ''/'' # time_key t"
proof -
  obtain rs where rs: "us_Query E s [empty_query] = Inr rs" by (rule us_Query_live [OF E(2)])
  then obtain rs0 where rs0: "upd_Query E (sg_base s) [empty_query] = Inr rs0" "rs = decode_results (sig_value E) rs0"
    by (auto simp: us_Query_def us_baseQuery_def split: sum.splits)
  let ?k = "CHR ''/'' # p @ CHR ''/'' # time_key t"
  have "\<exists>r \<in> set rs. e_key r = ?k \<and> e_value r = val"
  proof (rule us_Query_delivers [OF E(1) key_query_empty(1) rs k(1) key_query_empty(2) has_category_stamped _ val
        key_time_stamped [OF t]])
    show "category_of ?k \<noteq> []" unfolding category_of_stamped by (rule k(2))
    fix k' t' assume "k' \<in> dom (sg_table els s)" "category_of k' = category_of ?k" "k' \<noteq> ?k"
    with only show "instant_of t' < instant_of (to_utc t)" unfolding category_of_stamped by blast
  qed
  then have "\<exists>r \<in> set rs. e_key r = ?k" by blast
  moreover have "\<And>r. r \<in> set rs \<Longrightarrow> r_error r = None"
    using decode_results_errors [OF upd_Query_newest(4) [OF E(1) key_query_empty(1) rs0(1)]] unfolding rs0(2) by blast
  moreover have "st_Query E (UpdatableSignatureStore s) [] = Inr rs" using rs by (simp add: us_Query_def)
  ultimately show thesis using that by blast
qed

text \<open>
  Later records do not hide the grant: whatever a store of the same writer holds besides it under other
  paths, the writer's own keys pass the check.
\<close>

lemma own_grant_verified:
  assumes E: "replica_ok E els" "ds_live (lib_ds E) els" and Q: "query_lib_ok nk (lib_q E)"
    and pid: "pid = PubKeyToStr (lib_id E) (crypto E) (sg_pub b0)" "component_key E pid = None" "plain_component pid"
    and pair: "key_pair (key_ops E) sk vk"
    and grant: "ac_Grant E now0 val pid (Some sk) (Some vk) (UpdatableSignatureStore b0) = (UpdatableSignatureStore b, None)"
      "val \<noteq> []"
    and fresh: "untouched (sg_table els b0) (us_putKey E b0 (accessKey E (Some vk) pid))" and now: "wf_time now0"
    and le: "sg_table els b \<subseteq>\<^sub>m sg_table els w"
    and only: "\<And>k. k \<in> dom (sg_table els w) \<Longrightarrow> category_of k = us_putKey E b0 (accessKey E (Some vk) pid) \<Longrightarrow>
      k \<in> dom (sg_table els b)"
    and key: "us_accessFromKey (trim_prefix key ''/'') = pid"
  shows "ac_Verify E (UpdatableSignatureStore w) (Some vk) key = None"
proof -
  note E1 = replica_okD(1) [OF E(1)] and L = replica_okD(2) [OF E(1)]
  let ?ak = "accessKey E (Some vk) pid"
  let ?p = "us_putKey E b0 ?ak" and ?kg = "CHR ''/'' # us_putKey E b0 ?ak @ CHR ''/'' # time_key now0"
  have ne: "?ak \<noteq> []" using grant(1) by (auto elim: ac_Grant_ok)
  from Grant_updatable [OF E1 L _ _ grant] pair pid obtain rec where
    tb: "sg_table els b = (sg_table els b0)(?kg \<mapsto> rec)" and g: "sg_grants E (sg_table els b) ?ak ?kg"
    by (metis option.inject store.inject(4))
  have "ac_verify E (UpdatableSignatureStore w) (Some vk) key = Inr True"
  proof (rule updatable_grant_found [OF E1 E(2) Q key _ refl ne sg_grants_mono [OF le g]])
    show "pid \<noteq> []" using pid(3) by (simp add: plain_component_def)
    then show "category_of ?kg \<noteq> []" unfolding category_of_stamped by (simp add: us_putKey_def Let_def pid(1))
    show "has_category ?kg" by (rule has_category_stamped)
    show "key_time (local_zone E) ?kg = Inr (to_utc now0)" by (rule key_time_stamped [OF now])
    fix k' t' assume k': "k' \<in> dom (sg_table els w)" "category_of k' = category_of ?kg" "k' \<noteq> ?kg"
    with only [of k'] have "k' \<in> dom (sg_table els b0)" unfolding category_of_stamped by (auto simp: tb)
    with fresh k'(2) show "instant_of t' < instant_of (to_utc now0)"
      unfolding category_of_stamped by (auto simp: untouched_def)
  qed
  then show ?thesis by (simp add: ac_Verify_def)
qed

lemma signature_access_passes:
  assumes E: "replica_ok E els" "ds_live (lib_ds E) els" and Q: "query_lib_ok nk (lib_q E)"
    and pid: "pid = PubKeyToStr (lib_id E) (crypto E) (sg_pub b0)" "component_key E pid = None"
    and pair: "key_pair (key_ops E) sk vk"
    and grant: "ac_Grant E now0 val pid (Some sk) (Some vk) (UpdatableSignatureStore b0) = (UpdatableSignatureStore b, None)"
      "val \<noteq> []"
    and fresh: "untouched (sg_table els b0) (us_putKey E b0 (accessKey E (Some vk) pid))"
      "untouched (sg_table els b0) (us_putKey E b0 ''aaa'')"
    and now: "wf_time now0" "wf_time now1" and put: "us_Put E now1 ''aaa'' meow b = (b', None)"
    and tab: "els d1 = sg_table els b'"
  shows "testSignatureAccess E (sg_pub b0) now1 d1 (AccessStore (UpdatableSignatureStore b) p (Some vk))
      (AccessStore (UpdatableSignatureStore c) p' (Some vk)) =
    Inr (st_Close E (AccessStore (UpdatableSignatureStore b') p (Some vk)),
      st_Close E (with_data d1 (AccessStore (UpdatableSignatureStore c) p' (Some vk))), [LogVal (Some meow)])"
proof -
  note E1 = replica_okD(1) [OF E(1)] and L = replica_okD(2) [OF E(1)]
  let ?ak = "accessKey E (Some vk) pid"
  have ne: "?ak \<noteq> []" using grant(1) by (auto elim: ac_Grant_ok)
  let ?kg = "CHR ''/'' # us_putKey E b0 ?ak @ CHR ''/'' # time_key now0"
  from Grant_updatable [OF E1 L _ _ grant] pair pid obtain rec where b: "sg_pub b = sg_pub b0" "sg_priv b = sg_priv b0"
    and tb: "sg_table els b = (sg_table els b0)(?kg \<mapsto> rec)" and g: "sg_grants E (sg_table els b) ?ak ?kg"
    by (metis option.inject store.inject(4))
  have aaa: "clean_path ''aaa''" by (simp add: clean_path_def)
  from us_Put_record [OF E1 L aaa put] obtain sKey msd where
    r: "signed_record E (sg_priv b) (sg_pub b) meow = Inr (sKey, msd)"
    and tb': "sg_table els b' = (sg_table els b)(CHR ''/'' # (sKey @ CHR ''/'' # ''aaa'') @ CHR ''/'' # time_key now1 \<mapsto> msd)"
    and clean: "clean_path (sKey @ CHR ''/'' # ''aaa'')" .
  have sKey: "sKey = pid" using r unfolding pid(1) b(1) by (rule signed_record_Inr)
  have plain: "plain_component pid" using signed_record_key [OF L r] by (simp add: sKey)
  have pk: "us_putKey E x key = pid @ CHR ''/'' # key" if "sg_pub x = sg_pub b0" for x key
    using plain that by (simp add: us_putKey_def Let_def pid(1) plain_component_def)
  let ?p = "pid @ CHR ''/'' # ''aaa''" and ?k = "CHR ''/'' # (pid @ CHR ''/'' # ''aaa'') @ CHR ''/'' # time_key now1"
  have kg: "?kg = CHR ''/'' # (pid @ CHR ''/'' # ?ak) @ CHR ''/'' # time_key now0" by (simp add: pk)
  have tk: "sg_table els b' = (sg_table els b0)(?kg \<mapsto> rec, ?k \<mapsto> msd)" unfolding tb' tb sKey ..
  have cats: "category_of ?kg = pid @ CHR ''/'' # ?ak" "category_of ?k = ?p" "pid @ CHR ''/'' # ?ak \<noteq> ?p"
    using accessKey_not_aaa [of E "Some vk" pid] unfolding kg category_of_stamped by simp_all
  have apart: "\<not> below ?p ?kg"
    using below_component [OF aaa_plain accessKey_plain [OF ne], of pid "time_key now0"] accessKey_not_aaa [of E "Some vk" pid]
    unfolding kg by metis
  have verify: "ac_Verify E (UpdatableSignatureStore w) (Some vk) key = None"
    if w: "sg_table els w = sg_table els b \<or> sg_table els w = sg_table els b'"
      and key: "us_accessFromKey (trim_prefix key ''/'') = pid" for w key
  proof (rule own_grant_verified [OF E Q pid plain pair grant fresh(1) now(1) _ _ key])
    show "sg_table els b \<subseteq>\<^sub>m sg_table els w"
      using w us_store.put_extends [OF E1, of b "(now1, ''aaa'', meow)"] put by auto
    fix k' assume k': "k' \<in> dom (sg_table els w)" "category_of k' = us_putKey E b0 ?ak"
    moreover have "category_of ?k \<noteq> us_putKey E b0 ?ak" using cats by (simp add: pk)
    ultimately have "k' \<noteq> ?k" by metis
    with k'(1) w show "k' \<in> dom (sg_table els b)" unfolding tb' sKey by auto
  qed
  define w where "w = c\<lparr>sg_base := (sg_base c)\<lparr>bs_dt := d1\<rparr>\<rparr>"
  have w: "sg_table els w = sg_table els b'" using tab by (simp add: w_def sg_table_def base_table_def)
  have acc: "with_data d1 (AccessStore (UpdatableSignatureStore c) p' (Some vk)) = AccessStore (UpdatableSignatureStore w) p' (Some vk)"
    by (simp add: with_data_def w_def)
  have from_key: "us_accessFromKey (pid @ CHR ''/'' # x) = pid" for x
    using plain by (cases pid)
      (auto simp: us_accessFromKey_def Let_def key_parts_def go_split_append go_split_no_sep plain_component_def)
  have trim: "trim_prefix (pid @ x) ''/'' = pid @ x" for x
    using plain by (cases pid) (auto simp: plain_component_def)
  have "us_Get E w ?p = Inr (Some meow)"
  proof (rule stored_version_read [OF E1 E(2) L r meow_nonempty(1) _ now(2)])
    show "clean_path ?p" using clean by (simp add: sKey)
    show "sg_table els w ?k = Some msd" by (simp add: w tk)
    fix k u assume k: "k \<in> dom (sg_table els w)" "below ?p k" "k \<noteq> ?k"
    moreover have "dom (sg_table els w) \<subseteq> insert ?k (insert ?kg (dom (sg_table els b0)))"
      unfolding w tk by auto
    moreover have "k \<noteq> ?kg" using k(2) apart by metis
    ultimately have "k \<in> dom (sg_table els b0)" by blast
    with fresh(2) k(2) show "instant_of u < instant_of now1" by (auto simp: untouched_def pk)
  qed
  then have get: "st_Get E (AccessStore (UpdatableSignatureStore w) p' (Some vk)) ?p = Inr (Some meow)"
    using verify [of w ?p] w from_key trim by (simp add: ac_gate_def)
  have put': "st_Put E now1 ''aaa'' meow (AccessStore (UpdatableSignatureStore b) p (Some vk)) =
      (AccessStore (UpdatableSignatureStore b') p (Some vk), None)"
    using put verify [of b ?p] from_key trim by (simp add: pk [OF b(1)])
  obtain rs0 where rs0: "st_Query E (UpdatableSignatureStore w) [] = Inr rs0" "\<And>r. r \<in> set rs0 \<Longrightarrow> r_error r = None"
    "\<exists>r \<in> set rs0. e_key r = ?k"
  proof (rule us_query_all [OF E1 E(2) _ _ now(2) signed_record_value [OF L r]])
    show "sg_table els w ?k = Some msd" by (simp add: w tk)
    fix k' assume k': "k' \<in> dom (sg_table els w)" "category_of k' = ?p"
    show "k' = ?k"
    proof (rule ccontr)
      assume "k' \<noteq> ?k"
      moreover have "dom (sg_table els w) \<subseteq> insert ?k (insert ?kg (dom (sg_table els b0)))"
        unfolding w tk by auto
      moreover have "k' \<noteq> ?kg" using k'(2) cats by metis
      ultimately have "k' \<in> dom (sg_table els b0)" using k'(1) by blast
      with fresh(2) k'(2) show False by (auto simp: untouched_def pk)
    qed
  qed simp_all
  then obtain r' where r': "r' \<in> set rs0" "e_key r' = ?k" by blast
  have "us_accessFromKey (trim_prefix ?k ''/'') = pid" using from_key [of "''aaa'' @ CHR ''/'' # time_key now1"] by simp
  with verify [of w ?k] w r' have "ac_Verify E (UpdatableSignatureStore w) (Some vk) (e_key r') = None" by simp
  then obtain rs l where q: "st_Query E (AccessStore (UpdatableSignatureStore w) p' (Some vk)) [] = Inr rs"
    "results_rest (lib_q E) rs = Inr l" "0 < length l"
    using access_query [OF Q rs0(1,2) r'(1)] by metis
  show ?thesis
    using get by (simp add: testSignatureAccess_def acc put' q pid(1) Let_def del: st_Put.simps st_Get.simps st_Query.simps)
      (use q(3) in simp)
qed

section \<open>A store that is opened after its limit\<close>

definition passed :: "gotime \<Rightarrow> gotime \<Rightarrow> bool" where
  "passed lim now \<longleftrightarrow> \<not> time_equal lim zero_time \<and> time_before lim now"

lemma with_limit_passed: "passed lim now \<Longrightarrow> \<not> bs_inTime (with_limit now lim st)"
  by (simp add: passed_def with_limit_def base_setTimeLimit_def)

lemma constructor_closed:
  assumes "selectNewStore E save name md A [opt] = (opened, Inr s, opts)" "passed (so_TimeLimit opt) (at_now A)"
  shows "\<not> bs_inTime (st_base s)"
  using assms
  by (auto simp: with_limit_passed [OF assms(2)] selectNewStore_def NewLogStore_def NewUpdatableStore_def NewSignatureStore_def
      NewUpdatableSignatureStore_def NewHashStore_def getLogOpts_def getSignatureOpts_def
      getUpdatableSignatureOpts_def getHashOpts_def Let_def split: if_splits prod.splits sum.splits)

lemma loadCheck_closed:
  "verse_loadCheck E evs s = Some (s', e) \<Longrightarrow> \<not> bs_inTime (st_base s) \<Longrightarrow> \<not> bs_inTime (st_base s')"
proof (induction evs arbitrary: s)
  case (Cons ev evs)
  have arrive: "\<not> bs_inTime (st_base (arrive d over s))" for d over
    using Cons.prems(2) by (simp add: arrive_def Let_def)
  from Cons show ?case
  proof (cases ev)
    case (Tick d over)
    with Cons.prems(1) Cons.IH [of "fst (st_Sync E (arrive d over s))"] arrive [of d over] show ?thesis
      by (auto simp: st_Sync_def base_Sync_def st_Close_def base_Close_def base_Cancel_def Let_def
          split: prod.splits option.splits if_splits)
  qed (auto simp: st_Cancel_def base_Cancel_def)
qed simp

lemma loadTries_closed:
  assumes "\<And>A evs. (A, evs) \<in> set tries \<Longrightarrow> passed lim (at_now A)"
  shows "loadTries E save name md tries w opt = Some (w', Some (Some s, eo), opt') \<Longrightarrow> so_TimeLimit opt = lim \<Longrightarrow>
    \<not> bs_inTime (st_base s)"
  using assms
proof (induction tries arbitrary: w opt)
  case (Cons trial tries)
  obtain A evs where trial: "trial = (A, evs)" by (cases trial)
  obtain opened r opts where sel: "selectNewStore E save name md A [opt] = (opened, r, opts)"
    by (metis prod.exhaust)
  have lim: "so_TimeLimit (hd opts) = lim"
  proof (cases r)
    case (Inl err)
    have "hd opts = opt"
      using sel [unfolded Inl] unfolding selectNewStore_def NewLogStore_def NewUpdatableStore_def
        NewSignatureStore_def NewUpdatableSignatureStore_def NewHashStore_def
      by (auto simp: Let_def split: if_splits prod.splits sum.splits)
    with Cons.prems(2) show ?thesis by simp
  next
    case (Inr s1)
    from selectNewStore_ok(4) [OF sel [unfolded Inr]] Cons.prems(2) show ?thesis by simp
  qed
  have IH: "\<not> bs_inTime (st_base s)"
    if "loadTries E save name md tries w1 (hd opts) = Some (w', Some (Some s, eo), opt')" for w1
    by (rule Cons.IH [OF that lim]) (use Cons.prems(3) in auto)
  show ?case
  proof (cases r)
    case (Inl err)
    with Cons.prems(1) sel trial IH show ?thesis by (auto split: if_splits)
  next
    case (Inr s1)
    have s1: "\<not> bs_inTime (st_base s1)"
      by (rule constructor_closed [OF sel [unfolded Inr]]) (use Cons.prems(2,3) trial in auto)
    obtain s2 eo2 where lc: "verse_loadCheck E evs s1 = Some (s2, eo2)"
      using Cons.prems(1) sel Inr trial by (auto split: option.splits prod.splits)
    from loadCheck_closed [OF lc s1] Cons.prems(1) sel Inr trial lc IH show ?thesis
      by (auto split: option.splits if_splits)
  qed
qed simp

lemma initPut_closed_window:
  "st_initPut E now s = (s', e) \<Longrightarrow> bs_inTime (st_base s') = bs_inTime (st_base s)"
proof (induction s arbitrary: s')
  case (AccessStore b priv pub)
  then show ?case by (auto split: prod.splits)
qed (auto simp: base_initPut_def upd_initPut_def sg_initPut_def us_initPut_def hs_initPut_def base_Put_def upd_Put_eq
    Let_def split: prod.splits sum.splits bool.splits)

lemma loadStore_closed:
  assumes run: "loadStore E save name md tries A opt = Some (w, (Some s, eo), opt')"
    and late: "\<And>i. passed (so_TimeLimit opt) (at_now (fst (tries i)))" "passed (so_TimeLimit opt) (at_now A)"
  shows "\<not> bs_inTime (st_base s)"
proof -
  from run obtain w1 r opt1 where
    lt: "loadTries E save name md (map tries [0..<N_load]) clean_world opt = Some (w1, r, opt1)"
    by (auto simp: loadStore_def split: option.splits prod.splits)
  show ?thesis
  proof (cases r)
    case (Some p)
    with run lt have "loadTries E save name md (map tries [0..<N_load]) clean_world opt = Some (w1, Some (Some s, eo), opt1)"
      by (simp add: loadStore_def)
    then show ?thesis by (rule loadTries_closed [rotated, OF _ refl]) (use late(1) in \<open>auto simp: image_iff, metis fst_conv\<close>)
  next
    case None
    from run lt None obtain opened s1 opts where sel: "selectNewStore E save name md A [opt1] = (opened, Inr s1, opts)"
      and put: "st_initPut E (at_now A) s1 = (s, None)"
      by (auto simp: loadStore_def split: prod.splits sum.splits option.splits)
    have "\<not> bs_inTime (st_base s1)"
      by (rule constructor_closed [OF sel]) (use loadTries_opts(1) [OF lt] late(2) in simp)
    with initPut_closed_window [OF put] show ?thesis by simp
  qed
qed

lemma finishStore_closed:
  assumes "finishStore E rnd pid (w0, (Some s0, e0), opt) = (w, Some s, None)" "\<not> bs_inTime (st_base s0)"
  shows "\<not> bs_inTime (st_base s)"
  using assms
  by (auto simp: finishStore_def loadAccessStore_def st_autoSync_def base_autoSync_def Let_def
      split: prod.splits option.splits sum.splits if_splits)

lemma late_store:
  assumes addr: "parseAddress E name = Inr (stName, salt, pid, lim)"
    and late: "\<And>i. passed lim (at_now (fst (tries i)))" "passed lim (at_now A)"
    and run: "NewStore E save name md tries A rnd opts = Some (w, Some s, None)"
  shows "\<not> bs_inTime (st_base s)"
  using run
proof (cases rule: NewStore_cases)
  case (new err opt)
  with addr show ?thesis by simp
next
  case (load stName' salt' pid' lim' opt r)
  from load(1,3) addr have lim: "so_TimeLimit opt = lim" by simp
  obtain w0 so e0 opt' where r: "r = (w0, (so, e0), opt')" by (metis prod.exhaust)
  from load(5) obtain s0 where s0: "so = Some s0" by (cases so) (auto simp: r finishStore_def)
  have "\<not> bs_inTime (st_base s0)"
    by (rule loadStore_closed [OF load(4) [unfolded r s0]]) (use late lim in simp_all)
  with finishStore_closed [OF load(5) [unfolded r s0]] show ?thesis .
qed

text \<open>The scenario passes on a closed store that holds nothing.\<close>

lemma empty_results:
  assumes E: "env_ok E els" and tab: "sg_table els s = Map.empty" and run: "us_Query E s [empty_query] = Inr rs"
  shows "rs = []"
proof -
  from run obtain rs0 where rs0: "upd_Query E (sg_base s) [empty_query] = Inr rs0" "rs = decode_results (sig_value E) rs0"
    by (auto simp: us_Query_def us_baseQuery_def split: sum.splits)
  have "r \<notin> set rs0" for r
    using upd_Query_newest(2) [OF E key_query_empty(1) rs0(1), of r] tab by (auto simp: sg_table_def)
  then have "rs0 = []" by (cases rs0) auto
  then show ?thesis by (simp add: rs0(2))
qed

lemma empty_rest:
  assumes E: "env_ok E els" "ds_live (lib_ds E) els" and Q: "query_lib_ok nk (lib_q E)"
  shows "store_mode s = MUpdatableSignature \<Longrightarrow> st_table els s = Map.empty \<Longrightarrow> st_Query E s [] = Inr []"
proof (induction s)
  case (UpdatableSignatureStore b)
  obtain rs where rs: "us_Query E b [empty_query] = Inr rs" by (rule us_Query_live [OF E(2)])
  from empty_results [OF E(1) _ rs] UpdatableSignatureStore rs show ?case
    by (simp add: sg_table_def st_table_def us_Query_def)
next
  case (AccessStore b priv pub)
  then have "st_Query E b [] = Inr []" by (simp add: st_table_def)
  moreover have "naiveQueryApply (lib_q E) q [] = []" for q
    using query_lib_okD(2) [OF Q, of _ q "[]"] by (cases "naiveQueryApply (lib_q E) q []") auto
  ultimately show ?case by (simp add: Let_def)
qed simp_all

lemma empty_get:
  assumes E: "env_ok E els" and key: "clean_path key"
  shows "store_mode s = MUpdatableSignature \<Longrightarrow> st_table els s = Map.empty \<Longrightarrow> \<not> is_ok (st_Get E s key)"
proof (induction s)
  case (UpdatableSignatureStore b)
  have "\<not> is_ok (upd_Get E (sg_base b) key)"
  proof
    assume "is_ok (upd_Get E (sg_base b) key)"
    then obtain v where "upd_Get E (sg_base b) key = Inr v" by (auto simp: is_ok_iff)
    from upd_Get_newest [OF E key this] UpdatableSignatureStore(2) show False
      by (metis st_table_def st_base.simps(4) option.distinct(1))
  qed
  then show ?case by (auto simp: us_Get_def is_ok_def split: sum.splits)
next
  case (AccessStore b priv pub)
  then show ?case by (auto simp: st_table_def is_ok_def split: option.splits)
qed simp_all

lemma time_limit_passes:
  assumes E: "env_ok E els" "ds_live (lib_ds E) els" and Q: "query_lib_ok nk (lib_q E)"
    and key: "clean_path (PubKeyToStr (lib_id E) (crypto E) pub @ ''/aaa'')"
    and s: "store_mode s = MUpdatableSignature" "st_table els s = Map.empty" "\<not> bs_inTime (st_base s)"
  shows "BaseTestTimeLimit E pub db0 s = Inr (st_Close E db0, st_Close E s)"
proof -
  have "results_rest (lib_q E) [] = Inr []" using query_lib_okD(7) [OF Q, of "[]"] by simp
  with empty_rest [OF E Q s(1,2)] empty_get [OF E(1) key s(1,2)] s(3) show ?thesis
    by (simp add: BaseTestTimeLimit_def base_isInTime_def Let_def del: st_Query.simps st_Get.simps)
qed

end
