(* ===== verification/Reference.thy ===== *)
theory Reference
  imports Bstore DagSync Network AccessScenario
begin

text \<open>
  Small concrete libraries that satisfy every law the development names: an association list as the
  datastore, self-delimiting codecs, keys of one byte, printed peer IDs that start with a tilde. They
  show that the named laws hold together, and the concrete runs that accompany the properties are
  evaluated over them.
\<close>

section \<open>Codecs\<close>

text \<open>A field is its bytes, each after a 1, and a 0 at the end.\<close>

fun enc_field :: "bytes \<Rightarrow> bytes" where
  "enc_field [] = [0]"
| "enc_field (b # bs) = 1 # b # enc_field bs"

fun dec_field :: "bytes \<Rightarrow> bytes \<times> bytes" where
  "dec_field [] = ([], [])"
| "dec_field [b] = ([], [])"
| "dec_field (b # c # bs) =
     (if b = 0 then ([], c # bs) else let (x, r) = dec_field bs in (c # x, r))"

lemma dec_enc_field [simp]: "dec_field (enc_field x @ r) = (x, r)"
  by (induction x) (cases r; simp)+

definition dec_str :: "bytes \<Rightarrow> string" where "dec_str b = string_of_bytes b"

text \<open>An empty bytes field is nil.\<close>

definition dec_slice :: "bytes \<Rightarrow> slice" where "dec_slice b = (if b = [] then None else Some b)"

lemma dec_slice_contents [simp]: "dec_slice (contents s) = canon_slice s"
  by (cases s) (simp_all add: dec_slice_def canon_slice_def)

definition ref_address :: "base_address codec" where
  "ref_address =
     \<lparr>c_marshal = (\<lambda>m. Inr (enc_field (bytes_of_string (ba_name m)) @ enc_field (contents (ba_salt m))
         @ enc_field (bytes_of_string (ba_pid m)) @ enc_field (contents (ba_time m)))),
      c_unmarshal = (\<lambda>b. let (n, b) = dec_field b; (s, b) = dec_field b; (p, b) = dec_field b;
           (t, b) = dec_field b
         in Inr \<lparr>ba_name = dec_str n, ba_salt = dec_slice s, ba_pid = dec_str p, ba_time = dec_slice t\<rparr>)\<rparr>"

definition ref_access :: "access_key codec" where
  "ref_access =
     \<lparr>c_marshal = (\<lambda>m. Inr (enc_field (bytes_of_string (ak_masterKey m))
         @ enc_field (bytes_of_string (ak_access m)))),
      c_unmarshal = (\<lambda>b. let (k, b) = dec_field b; (a, b) = dec_field b
         in Inr \<lparr>ak_masterKey = dec_str k, ak_access = dec_str a\<rparr>)\<rparr>"

definition ref_hash :: "hash_data codec" where
  "ref_hash =
     \<lparr>c_marshal = (\<lambda>m. Inr (enc_field (bytes_of_string (hd_baseHash m)) @ enc_field (contents (hd_salt m))
         @ enc_field (contents (hd_value m)))),
      c_unmarshal = (\<lambda>b. let (h, b) = dec_field b; (s, b) = dec_field b; (v, b) = dec_field b
         in Inr \<lparr>hd_baseHash = dec_str h, hd_salt = dec_slice s, hd_value = dec_slice v\<rparr>)\<rparr>"

definition ref_sig :: "signature_data codec" where
  "ref_sig =
     \<lparr>c_marshal = (\<lambda>m. Inr (enc_field (contents (sd_value m)) @ enc_field (contents (sd_sign m)))),
      c_unmarshal = (\<lambda>b. let (v, b) = dec_field b; (s, b) = dec_field b
         in Inr \<lparr>sd_value = dec_slice v, sd_sign = dec_slice s\<rparr>)\<rparr>"

definition ref_protos :: protos where
  "ref_protos = \<lparr>pb_address = ref_address, pb_access = ref_access, pb_hash = ref_hash, pb_sig = ref_sig\<rparr>"

lemma dec_enc_last [simp]: "dec_field (enc_field x) = (x, [])"
  using dec_enc_field [of x "[]"] by simp

lemma dec_str_bytes [simp]: "dec_str (bytes_of_string s) = s"
  by (simp add: dec_str_def)

lemma dec_empty [simp]: "dec_str [] = []" "dec_slice [] = None"
  by (simp_all add: dec_str_def dec_slice_def string_of_bytes_def)

lemma ref_codecs:
  "codec_ok zero_address canon_address ref_address" "codec_ok zero_access (\<lambda>m. m) ref_access"
  "codec_ok zero_hash canon_hash ref_hash" "codec_ok zero_sig canon_sig ref_sig"
  by (simp_all add: codec_ok_def ref_address_def ref_access_def ref_hash_def ref_sig_def zero_address_def
      zero_access_def zero_hash_def zero_sig_def canon_address_def canon_hash_def canon_sig_def)

lemma ref_protos_ok: "protos_ok ref_protos"
  using ref_codecs by (simp add: protos_ok_def ref_protos_def)

lemma ref_protos_total: "protos_total ref_protos"
  by (simp add: protos_total_def ref_protos_def codec_total_def ref_address_def ref_access_def ref_hash_def
      ref_sig_def)

section \<open>Datastore\<close>

type_synonym assoc = "(string \<times> bytes) list"

definition ref_newKey :: "string \<Rightarrow> string" where
  "ref_newKey k = (if has_prefix k ''/'' then k else CHR ''/'' # k)"

definition ref_childString :: "string \<Rightarrow> string \<Rightarrow> string" where
  "ref_childString k s = k @ ''/'' @ trim_prefix s ''/''"

definition ref_entry :: "query \<Rightarrow> assoc \<Rightarrow> string \<Rightarrow> entry" where
  "ref_entry q d k =
     (let v = the (map_of d k)
      in \<lparr>e_key = k, e_value = (if q_keysOnly q then None else Some v),
          e_size = (if q_returnsSizes q then int (length v) else 0)\<rparr>)"

fun insert_by :: "('a \<Rightarrow> 'a \<Rightarrow> bool) \<Rightarrow> 'a \<Rightarrow> 'a list \<Rightarrow> 'a list" where
  "insert_by lt x [] = [x]"
| "insert_by lt x (y # ys) = (if lt y x then y # insert_by lt x ys else x # y # ys)"

fun sort_by :: "('a \<Rightarrow> 'a \<Rightarrow> bool) \<Rightarrow> 'a list \<Rightarrow> 'a list" where
  "sort_by lt [] = []"
| "sort_by lt (x # xs) = insert_by lt x (sort_by lt xs)"

definition ref_answer :: "query \<Rightarrow> assoc \<Rightarrow> entry list" where
  "ref_answer q d =
     (let es = filter (selects ref_newKey q) (map (ref_entry q d) (remdups (map fst d)))
      in if q_orders q = [] then es else sort_by (entry_less (q_orders q)) es)"

definition ref_ds :: "assoc datastore" where
  "ref_ds =
     \<lparr>newKey = ref_newKey, childString = ref_childString,
      ds_put = (\<lambda>d k v. ((k, v) # d, None)),
      ds_get = (\<lambda>d k. case map_of d k of None \<Rightarrow> Inl (ErrLib ''datastore: key not found'') | Some v \<Rightarrow> Inr (Some v)),
      ds_getSize = (\<lambda>d k. case map_of d k of None \<Rightarrow> Inl (ErrLib ''datastore: key not found'')
        | Some v \<Rightarrow> Inr (int (length v))),
      ds_has = (\<lambda>d k. Inr (map_of d k \<noteq> None)),
      ds_query = (\<lambda>d q. Inr (map ok_result (window q (ref_answer q d)))),
      ds_sync = (\<lambda>d. (d, None)), ds_close = (\<lambda>d. d)\<rparr>"

definition ref_query_lib :: query_lib where
  "ref_query_lib =
     \<lparr>naiveFilter = (\<lambda>rs f. filter (\<lambda>r. r_error r \<noteq> None \<or> f (entry_of r)) rs),
      naiveQueryApply = (\<lambda>q rs. window q (filter (\<lambda>r. r_error r \<noteq> None \<or> selects ref_newKey q (entry_of r)) rs)),
      results_rest = (\<lambda>rs. case filter (\<lambda>r. r_error r \<noteq> None) rs of
          [] \<Rightarrow> Inr (map entry_of rs) | r # _ \<Rightarrow> Inl (the (r_error r)))\<rparr>"

lemma clean_no_slash: "clean_path (c # k) \<Longrightarrow> c \<noteq> CHR ''/''"
  by (rule notI) (simp add: clean_path_def)

lemma ref_newKey_clean: "clean_path k \<Longrightarrow> ref_newKey k = CHR ''/'' # k"
proof (cases k)
  case (Cons c r)
  assume "clean_path k"
  then have "c \<noteq> CHR ''/''" unfolding Cons by (rule clean_no_slash)
  then show ?thesis by (simp add: Cons ref_newKey_def has_prefix_def)
qed (simp add: ref_newKey_def has_prefix_def)

lemma ref_newKey_slash: "ref_newKey (CHR ''/'' # k) = CHR ''/'' # k"
  by (simp add: ref_newKey_def has_prefix_def)

lemma ref_key_ok: "key_ok ref_newKey"
  by (simp add: key_ok_def ref_newKey_clean ref_newKey_slash)

lemma insert_by_set [simp]: "set (insert_by lt x xs) = insert x (set xs)"
  by (induction xs) auto

lemma sort_by_set [simp]: "set (sort_by lt xs) = set xs"
  by (induction xs) auto

lemma insert_by_distinct: "x \<notin> set xs \<Longrightarrow> distinct xs \<Longrightarrow> distinct (insert_by lt x xs)"
  by (induction xs) auto

lemma sort_by_distinct: "distinct xs \<Longrightarrow> distinct (sort_by lt xs)"
  by (induction xs) (simp_all add: insert_by_distinct)

text \<open>It is enough that the comparison is a weak order on the elements of the list.\<close>

definition weak_on :: "'a set \<Rightarrow> ('a \<Rightarrow> 'a \<Rightarrow> bool) \<Rightarrow> bool" where
  "weak_on S lt \<longleftrightarrow> (\<forall>a \<in> S. \<forall>b \<in> S. lt a b \<longrightarrow> \<not> lt b a)
     \<and> (\<forall>a \<in> S. \<forall>b \<in> S. \<forall>c \<in> S. lt a b \<longrightarrow> lt a c \<or> lt c b)"

lemma insert_by_sorted:
  assumes "weak_on S lt" "x \<in> S" "set xs \<subseteq> S" "sorted_wrt (\<lambda>a b. \<not> lt b a) xs"
  shows "sorted_wrt (\<lambda>a b. \<not> lt b a) (insert_by lt x xs)"
  using assms(3,4)
proof (induction xs)
  case (Cons y ys)
  show ?case
  proof (cases "lt y x")
    case True
    with Cons assms(1,2) show ?thesis by (auto simp: weak_on_def)
  next
    case False
    have "\<not> lt z x" if "z \<in> set ys" for z
      using Cons.prems that False assms(1,2) unfolding weak_on_def by (metis insert_subset list.simps(15) sorted_wrt.simps(2) subsetD)
    with Cons.prems False show ?thesis by auto
  qed
qed simp

lemma sort_by_sorted_on: "weak_on (set xs) lt \<Longrightarrow> sorted_wrt (\<lambda>a b. \<not> lt b a) (sort_by lt xs)"
proof (induction xs)
  case (Cons x xs)
  from Cons.prems have "weak_on (set xs) lt" unfolding weak_on_def by (meson list.set_intros(2))
  from insert_by_sorted [OF Cons.prems _ _ Cons.IH [OF this]] show ?case by auto
qed simp

lemma sort_by_sorted: "weak_order lt \<Longrightarrow> sorted_wrt (\<lambda>a b. \<not> lt b a) (sort_by lt xs)"
  by (rule sort_by_sorted_on) (simp add: weak_on_def weak_order_def)

lemma ref_entry_key [simp]: "e_key (ref_entry q d k) = k"
  by (simp add: ref_entry_def Let_def)

lemma ref_entry_exhibits: "map_of d k = Some v \<Longrightarrow> exhibits q (map_of d) (ref_entry q d k)"
  by (simp add: exhibits_def ref_entry_def)

lemma sort_by_keys: "distinct (map e_key es) \<Longrightarrow> distinct (map e_key (sort_by lt es))"
  using sort_by_distinct [of es lt] by (simp add: distinct_map)

lemma ref_answer_full: "full_answer ref_newKey q (map_of d) (ref_answer q d)"
  unfolding full_answer_def
proof (intro conjI)
  let ?es = "filter (selects ref_newKey q) (map (ref_entry q d) (remdups (map fst d)))"
  have set: "set (ref_answer q d) = set ?es" by (simp add: ref_answer_def Let_def)
  have "distinct (map e_key (map (ref_entry q d) (remdups (map fst d))))"
    by (simp add: comp_def)
  then have "distinct (map e_key ?es)" by (rule distinct_map_filter)
  then show "distinct (map e_key (ref_answer q d))"
    by (auto simp: ref_answer_def Let_def intro: sort_by_keys)
  show "\<forall>e \<in> set (ref_answer q d). exhibits q (map_of d) e \<and> selects ref_newKey q e"
  proof
    fix e assume "e \<in> set (ref_answer q d)"
    then obtain k where k: "k \<in> fst ` set d" "e = ref_entry q d k" "selects ref_newKey q e"
      unfolding set by auto
    then obtain v where "map_of d k = Some v" by (metis domD dom_map_of_conv_image_fst)
    with k ref_entry_exhibits show "exhibits q (map_of d) e \<and> selects ref_newKey q e" by blast
  qed
  show "\<forall>k \<in> dom (map_of d). (\<forall>e. e_key e = k \<longrightarrow> exhibits q (map_of d) e \<longrightarrow> selects ref_newKey q e) \<longrightarrow>
      k \<in> e_key ` set (ref_answer q d)"
  proof (intro ballI impI)
    fix k assume k: "k \<in> dom (map_of d)"
      and all: "\<forall>e. e_key e = k \<longrightarrow> exhibits q (map_of d) e \<longrightarrow> selects ref_newKey q e"
    then obtain v where "map_of d k = Some v" by blast
    from ref_entry_exhibits [OF this] all have "selects ref_newKey q (ref_entry q d k)" by simp
    moreover have "k \<in> fst ` set d" using k by (simp add: dom_map_of_conv_image_fst)
    ultimately have "ref_entry q d k \<in> set ?es" by simp
    then have "ref_entry q d k \<in> set (ref_answer q d)" by (simp only: set)
    then have "e_key (ref_entry q d k) \<in> e_key ` set (ref_answer q d)" by (rule imageI)
    then show "k \<in> e_key ` set (ref_answer q d)" by simp
  qed
  show "q_orders q \<noteq> [] \<longrightarrow> weak_order (entry_less (q_orders q)) \<longrightarrow>
      sorted_wrt (\<lambda>a b. \<not> entry_less (q_orders q) b a) (ref_answer q d)"
    by (simp add: ref_answer_def Let_def sort_by_sorted)
qed

lemma ref_ds_ok: "ds_ok ref_ds map_of"
  unfolding ds_ok_def
proof (intro conjI allI impI)
  fix d q rs assume "ds_query ref_ds d q = Inr rs"
  then have "rs = map ok_result (window q (ref_answer q d))" by (simp add: ref_ds_def)
  with ref_answer_full [of q d] show "answers (newKey ref_ds) q (map_of d) rs"
    by (auto simp: answers_def ref_ds_def)
next
  fix d k s assume "ds_get ref_ds d k = Inr s"
  then show "map_of d k = Some (contents s)" by (cases "map_of d k") (auto simp: ref_ds_def)
qed (auto simp: ref_ds_def ref_key_ok split: option.splits)

lemma ref_ds_live: "ds_live ref_ds map_of"
  by (simp add: ds_live_def ds_has_total_def ref_ds_def)

lemma ref_query_lib_ok: "query_lib_ok ref_newKey ref_query_lib"
  unfolding query_lib_ok_def
proof (intro conjI allI impI)
  fix q rs r
  assume "r \<in> set (naiveQueryApply ref_query_lib q rs)"
  then have "r \<in> set (filter (\<lambda>r. r_error r \<noteq> None \<or> selects ref_newKey q (entry_of r)) rs)"
    by (simp only: ref_query_lib_def query_lib.simps) (rule subsetD [OF set_window_subset])
  then show "r \<in> set rs" "r_error r = None \<Longrightarrow> selects ref_newKey q (entry_of r)" by auto
next
  fix rs :: "result list" and es
  assume rest: "results_rest ref_query_lib rs = Inr es"
  then have none: "filter (\<lambda>r. r_error r \<noteq> None) rs = []"
    by (auto simp: ref_query_lib_def split: list.splits)
  with rest show "es = map entry_of rs" by (simp add: ref_query_lib_def)
  from none show "\<forall>r \<in> set rs. r_error r = None" by (simp add: filter_empty_conv)
next
  fix rs :: "result list"
  assume "\<forall>r \<in> set rs. r_error r = None"
  then have "filter (\<lambda>r. r_error r \<noteq> None) rs = []" by simp
  then show "results_rest ref_query_lib rs = Inr (map entry_of rs)" by (simp add: ref_query_lib_def)
qed (simp_all add: ref_query_lib_def)

section \<open>Keys\<close>

definition ref_id :: id_lib where
  "ref_id =
     \<lparr>mh_sum = (\<lambda>b code len. of_nat code # b),
      mh_decode = (\<lambda>m. case m of [] \<Rightarrow> Inl (ErrLib ''multihash too short'') | c # b \<Rightarrow> Inr (unat c, b)),
      pid_pretty = (\<lambda>b. CHR ''~'' # b64_encode b),
      pid_decode = (\<lambda>s. case s of [] \<Rightarrow> Inl (ErrLib ''failed to parse peer ID'')
        | c # r \<Rightarrow> if c = CHR ''~'' then b64_decode r else Inl (ErrLib ''failed to parse peer ID''))\<rparr>"

definition ref_keys :: "(byte, byte) key_iface" where
  "ref_keys = \<lparr>k_sign = (\<lambda>sk m. Inr (sk # m)), k_verify = (\<lambda>pk m s. Inr (s = pk # m))\<rparr>"

definition ref_crypto :: "(byte, byte) crypto_funcs" where
  "ref_crypto =
     \<lparr>generateKeyPair = (\<lambda>rnd. case rnd of [] \<Rightarrow> Inl (ErrLib ''EOF'') | b # _ \<Rightarrow> Inr (b, b)),
      marshalPubKey = (\<lambda>pub. case pub of None \<Rightarrow> Inl (ErrNew ''invalid pubKey'') | Some pk \<Rightarrow> Inr [pk]),
      unmarshalPubKey = (\<lambda>b. case b of [pk] \<Rightarrow> Inr pk | _ \<Rightarrow> Inl (ErrLib ''bad key''))\<rparr>"

lemma ref_id_ok: "id_ok ref_id"
  by (auto simp: id_ok_def ref_id_def plain_component_def mh_IDENTITY_def)

lemma ref_marshal_ok: "marshal_ok ref_crypto"
  by (simp add: marshal_ok_def ref_crypto_def)

lemma ref_key_pair: "key_pair ref_keys k k"
  by (simp add: key_pair_def ref_keys_def)

text \<open>A stand-in for Argon2: inputs below 63 bytes are kept, with their length, the others are not.\<close>

definition ref_argon :: "bytes \<Rightarrow> bytes \<Rightarrow> nat \<Rightarrow> nat \<Rightarrow> nat \<Rightarrow> nat \<Rightarrow> bytes" where
  "ref_argon pw salt t m p n =
     (if length pw < 63 then take n ((of_nat (length pw) # pw) @ replicate n 0) else replicate n 255)"

lemma ref_argon_length: "length (ref_argon pw salt t m p n) = n"
  by (simp add: ref_argon_def)

definition E0 :: "(assoc, byte, byte) env" where
  "E0 = \<lparr>lib_ds = ref_ds, lib_q = ref_query_lib, lib_pb = ref_protos, lib_id = ref_id,
         argonIDKey = ref_argon, key_ops = ref_keys, crypto = ref_crypto,
         local_zone = (''UTC'', \<lambda>_. 0)\<rparr>"

lemma E0_simps [simp]:
  "lib_ds E0 = ref_ds" "lib_q E0 = ref_query_lib" "lib_pb E0 = ref_protos" "lib_id E0 = ref_id"
  "argonIDKey E0 = ref_argon" "key_ops E0 = ref_keys" "crypto E0 = ref_crypto"
  by (simp_all add: E0_def)

lemma E0_env_ok: "env_ok E0 map_of"
  using ref_ds_live by (simp add: env_ok_def ref_ds_ok ds_live_def)

lemma E0_live: "ds_live (lib_ds E0) map_of"
  by (simp add: ref_ds_live)

lemma E0_libs_ok: "libs_ok E0"
  by (simp add: libs_ok_def ref_protos_ok ref_id_ok ref_marshal_ok)

lemma E0_kdf_ok: "kdf_ok E0"
  by (simp add: kdf_ok_def ref_argon_length)

lemma E0_query: "query_lib_ok (newKey (lib_ds E0)) (lib_q E0)"
  using ref_query_lib_ok by (simp add: ref_ds_def)

lemma E0_pair: "signed_ok E0 (Some k) (Some k)"
  by (simp add: signed_ok_def ref_key_pair)

lemma E0_replica: "replica_ok E0 map_of"
  by (simp add: replica_ok_def E0_env_ok E0_libs_ok E0_kdf_ok)

text \<open>An empty store of each kind, open and within its time window.\<close>

definition B0 :: "assoc base_store" where
  "B0 = \<lparr>bs_name = ''s'', bs_timeLimit = zero_time, bs_inTime = True, bs_dt = [], bs_ctxDone = False,
         bs_closed = [], bs_save = True, bs_dirRemoved = False, bs_watch = False, bs_syncer = False\<rparr>"

definition SG0 :: "byte \<Rightarrow> (assoc, byte, byte) signature_store" where
  "SG0 k = \<lparr>sg_base = B0, sg_priv = Some k, sg_pub = Some k\<rparr>"

definition HS0 :: "assoc hash_store" where
  "HS0 = \<lparr>hs_base = B0, hs_salt = Some [7]\<rparr>"

section \<open>Runs\<close>

lemma ref_Put [simp]:
  "base_Put E0 key val s =
     (if map_of (bs_dt s) (ref_newKey key) \<noteq> None then (s, Some ErrAlreadyExist)
      else (s\<lparr>bs_dt := (ref_newKey key, val) # bs_dt s\<rparr>, None))"
  by (simp add: base_Put_def base_Has_def ref_ds_def split: bool.split)

lemma ref_signed [simp]:
  "signed_record E0 (Some k) (Some p) val =
     Inr (CHR ''~'' # b64_encode [0, p], enc_field val @ enc_field (k # val))"
  by (simp add: signed_record_def ref_keys_def ref_protos_def ref_sig_def PubKeyToStr_def idFromPubKey_def
      ref_crypto_def ref_id_def mh_IDENTITY_def)

text \<open>Badger's lookup of a value, for a store named \<open>s\<close>, and a DAG whose heads carry \<open>recs\<close>.\<close>

definition ref_has :: "assoc \<Rightarrow> string \<Rightarrow> bool res" where
  "ref_has d k = Inr (map_of d (butlast (butlast (drop 6 k))) \<noteq> None)"

lemma ref_has_exact: "has_exact E0 map_of ref_has ''s''"
  by (auto simp: has_exact_def ref_has_def vkey_def ref_ds_def ref_childString_def ref_newKey_def
      has_prefix_iff butlast_append split: if_splits)

definition ref_dag :: "(string \<times> bytes) list \<Rightarrow> (bytes, bytes) dag_lib" where
  "ref_dag recs =
     \<lparr>unmarshalBroadcast = (\<lambda>b. Inr \<lparr>bc_unknown = [], bc_heads = [b]\<rparr>), cidCast = Inr, dagGet = Inr,
      protoNodeData = Some, unmarshalDelta = (\<lambda>_. Inr \<lparr>dl_elements = recs, dl_tombstones = []\<rparr>)\<rparr>"

lemma ref_dag_heads [simp]: "msgToCRDTHeads (ref_dag recs) msg = Inr [msg]"
  by (simp add: msgToCRDTHeads_def ref_dag_def)

lemma ref_dag_simps [simp]:
  "dagGet (ref_dag recs) = Inr" "protoNodeData (ref_dag recs) = Some"
  "unmarshalDelta (ref_dag recs) = (\<lambda>_. Inr \<lparr>dl_elements = recs, dl_tombstones = []\<rparr>)"
  by (simp_all add: ref_dag_def)

lemma ref_dag_readable [simp]: "\<not> unreadable (ref_dag recs) c"
  by (simp add: unreadable_def ref_dag_def)

text \<open>
  A signature store that puts a record, merges one that the key 6 has signed, and closes its window.
\<close>

definition R0 :: "(assoc, byte, byte) store" where "R0 = SignatureStore (SG0 5)"

definition R1 :: "(assoc, byte, byte) store" where "R1 = fst (st_Put E0 zero_time ''a'' [1] R0)"

definition ref_rec :: "string \<times> bytes" where
  "ref_rec = (CHR ''/'' # (CHR ''~'' # b64_encode [0, 6]) @ CHR ''/'' # ''b'', enc_field [2] @ enc_field [6, 2])"

definition R2 :: "(assoc, byte, byte) store" where "R2 = with_data (ref_rec # bs_dt (st_base R1)) R1"

lemma R1_eq: "R1 = SignatureStore ((SG0 5)\<lparr>sg_base := B0\<lparr>bs_dt :=
    [(CHR ''/'' # (CHR ''~'' # b64_encode [0, 5]) @ CHR ''/'' # ''a'', enc_field [1] @ enc_field [5, 1])]\<rparr>\<rparr>)"
  by (simp add: R1_def R0_def SG0_def B0_def sg_Put_def ref_newKey_def has_prefix_def del: b64_encode.simps)

lemma ref_rec_authentic: "authentic E0 (fst ref_rec) (snd ref_rec)"
  unfolding ref_rec_def fst_conv snd_conv
  by (rule signed_record_authentic [OF E0_libs_ok E0_pair [of 6] ref_signed])

lemma R_start: "own_pair E0 R0" "good_store E0 map_of R0" "bs_name (st_base R0) = ''s''"
  by (simp_all add: R0_def SG0_def B0_def E0_pair good_store_def st_table_def base_table_def)

lemma R2_accepts: "accepts E0 ref_has ''me'' zero_time R1 (ref_dag [ref_rec]) ''p'' []"
proof -
  have "map_of (bs_dt (st_base R1)) (fst ref_rec) = None"
    by (simp add: R1_eq ref_rec_def)
  then have "ref_has (bs_dt (st_base R1)) (vkey (lib_ds E0) (newKey (lib_ds E0) ''s'') (fst ref_rec)) \<noteq> Inr True"
    using ref_has_exact by (simp add: has_exact_def ref_rec_def ref_ds_def ref_newKey_slash del: b64_encode.simps)
  moreover have "newSignatureValidator E0 (st_base R1) (fst ref_rec) (snd ref_rec)"
    by (simp add: newSignatureValidator_def signature_Validate_iff ref_rec_authentic R1_eq B0_def SG0_def
        base_Validate_def base_isInTime_def)
  ultimately show ?thesis
    by (simp add: accepts_def foreign_messages msgToDeltas_def R1_eq SG0_def B0_def delta_records_def
        split_beta)
qed

lemma R_steps:
  "replica_step E0 map_of ref_has ''me'' (ref_dag []) R0 R1"
  "replica_step E0 map_of ref_has ''me'' (ref_dag [ref_rec]) R1 R2"
  "replica_step E0 map_of ref_has ''me'' (ref_dag []) R2 (end_window R2)"
proof -
  show "replica_step E0 map_of ref_has ''me'' (ref_dag []) R0 R1"
    by (rule step_put [of "''a''" zero_time E0 "[1]" R0 R1 None])
      (simp_all add: R1_def R0_def SG0_def B0_def sg_Put_def clean_path_def)
  show "replica_step E0 map_of ref_has ''me'' (ref_dag [ref_rec]) R1 R2"
    unfolding R2_def
    by (rule step_merge [OF _ R2_accepts ref_dag_heads])
      (simp_all add: delta_records_def merged_def st_table_def base_table_def ref_rec_def
        ref_ds_def ref_newKey_slash del: b64_encode.simps)
  show "replica_step E0 map_of ref_has ''me'' (ref_dag []) R2 (end_window R2)" by (rule step_window)
qed

lemma R_run:
  "replica_run E0 map_of ref_has ''me'' R0 [ref_dag [], ref_dag [ref_rec], ref_dag []] (end_window R2)"
  "replica_run E0 map_of ref_has ''me'' R1 [ref_dag [ref_rec], ref_dag []] (end_window R2)"
  using run_snoc [OF run_snoc [OF run_snoc [OF run_nil R_steps(1)] R_steps(2)] R_steps(3)]
    run_snoc [OF run_snoc [OF run_nil R_steps(2)] R_steps(3)]
  by simp_all

lemma R1_record: "st_table map_of R1 (CHR ''/'' # (CHR ''~'' # b64_encode [0, 5]) @ CHR ''/'' # ''a'') =
    Some (enc_field [1] @ enc_field [5, 1])"
  by (simp add: R1_eq st_table_def base_table_def del: b64_encode.simps)

lemma R2_record: "st_table map_of (end_window R2) (fst ref_rec) = Some (snd ref_rec)"
  by (simp add: R2_def)

text \<open>The record the first step adds, and the message that brings it to the store of the key 6.\<close>

definition R1_rec :: "string \<times> bytes" where
  "R1_rec = (CHR ''/'' # (CHR ''~'' # b64_encode [0, 5]) @ CHR ''/'' # ''a'', enc_field [1] @ enc_field [5, 1])"

lemma R1_new: "new_records map_of R0 R1 = {R1_rec}"
  by (auto simp: new_records_def R1_eq R0_def R1_rec_def st_table_def base_table_def SG0_def B0_def
      simp del: b64_encode.simps split: if_splits)

lemma R1_rec_key: "(k, v) = R1_rec \<Longrightarrow> newKey ref_ds k = k" "R1_rec = (k, v) \<Longrightarrow> newKey ref_ds k = k"
  by (auto simp: R1_rec_def ref_ds_def ref_newKey_slash simp del: b64_encode.simps)

lemma R0_mode: "store_mode R0 = MSignature" by (simp add: R0_def)

lemma R1_put: "st_Put E0 zero_time ''a'' [1] R0 = (R1, None)"
  by (simp add: R1_def R0_def SG0_def B0_def sg_Put_def)

lemma R1_accepted: "accepts E0 ref_has ''me'' \<lparr>t_wall = 0, t_ext = 1, t_loc = UTC\<rparr> (SignatureStore (SG0 6)) (ref_dag [R1_rec]) ''p'' []"
  by (rule put_message_accepted [OF E0_replica _ _ _ _ R_start(1) R1_put, where deltas = "[\<lparr>dl_elements = [R1_rec], dl_tombstones = []\<rparr>]"])
    (auto simp: R1_new R0_mode ref_has_exact SG0_def B0_def clean_path_def instant_of_def less_instant_def
      zero_time_def t_sec_def wf_time_def msgToDeltas_def delta_records_def st_table_def base_table_def R1_rec_key
      simp del: b64_encode.simps)

text \<open>Two peers: the first one puts the record, the second one merges it.\<close>

definition NET0 :: "(bool, assoc, byte, byte) network" where
  "NET0 = \<lparr>nw_copy = (\<lambda>i. SignatureStore (SG0 (if i then 5 else 6))), nw_signed = [], nw_unchecked = (\<lambda>_. {})\<rparr>"

definition NET1 :: "(bool, assoc, byte, byte) network" where
  "NET1 = nw_call True R1 None [(True, Some 5, ''a'', [1])] {} NET0"

definition NET2 :: "(bool, assoc, byte, byte) network" where
  "NET2 = nw_call False (with_data [R1_rec] (SignatureStore (SG0 6))) None [] {} NET1"

lemma NET0_safe: "net_safe E0 map_of H NET0"
  by (simp add: net_safe_def safe_copy_def NET0_def SG0_def B0_def E0_pair signed_mode_def st_table_def base_table_def)

lemma NET0_copy: "nw_copy NET0 True = R0" "nw_copy NET1 False = SignatureStore (SG0 6)"
  by (simp_all add: NET0_def NET1_def R0_def)

abbreviation ref_links :: "(bytes, bytes) dag_lib \<Rightarrow> bytes \<Rightarrow> bytes list" where
  "ref_links \<equiv> (\<lambda>_ _. [])"

lemma NET_steps:
  "net_step E0 map_of ref_has (\<lambda>_. ''me'') {5} ref_links NET0 NET1"
  "net_step E0 map_of ref_has (\<lambda>_. ''me'') {5} ref_links NET1 NET2"
proof -
  have "net_step E0 map_of ref_has (\<lambda>_. ''me'') {5} ref_links NET0
      (nw_call True R1 None [(True, signing_pub (nw_copy NET0 True), ''a'', [1])]
        (put_unchecked map_of ''a'' (nw_copy NET0 True) R1) NET0)"
    by (rule net_put [of E0 zero_time]) (simp add: NET0_copy R1_put)
  moreover have "clean_path ''a''" by (simp add: clean_path_def)
  ultimately show "net_step E0 map_of ref_has (\<lambda>_. ''me'') {5} ref_links NET0 NET1"
    by (simp add: NET1_def NET0_copy) (simp add: R0_def SG0_def)
  have "unforged E0 {5} (signed_values (nw_signed NET1)) (fst R1_rec) (snd R1_rec)"
    unfolding R1_rec_def prod.sel
    by (rule signed_record_unforged [OF E0_libs_ok ref_signed]) (simp add: NET1_def NET0_def)
  then have real: "R1_rec = (k, v) \<Longrightarrow> unforged E0 {5} (signed_values (nw_signed NET1)) k v" for k v by (metis prod.sel)
  have keys: "list_all (\<lambda>(k, v). newKey (lib_ds E0) k = k) (delta_records (headDeltas (ref_dag [R1_rec]) [[]]))"
    by (auto simp: delta_records_def R1_rec_key)
  have "merged (delta_records (headDeltas (ref_dag [R1_rec]) [[]])) (st_table map_of (nw_copy NET1 False))
      (map_of [R1_rec])"
    by (auto simp: NET0_copy delta_records_def merged_def st_table_def base_table_def SG0_def B0_def)
  note m = merged_message [OF keys this, of "\<lambda>k. k"]
  have real: "list_all (\<lambda>(k, v). unforged E0 {5} (signed_values (nw_signed NET1)) k v)
      (checked_records (newKey (lib_ds E0)) (ref_dag [R1_rec]) [[]])"
    unfolding checked_normal(1) [OF keys] by (auto simp: delta_records_def real)
  have "net_step E0 map_of ref_has (\<lambda>_. ''me'') {5} ref_links NET1
      (nw_call False (with_data [R1_rec] (nw_copy NET1 False)) None []
        (unchecked_keys (newKey (lib_ds E0)) (\<lambda>k. k) (ref_dag [R1_rec]) [[]] (ref_dag [R1_rec]) []) NET1)"
    by (rule net_receive [OF _ _ ref_dag_heads _ _ real m(1)]) (use R1_accepted in \<open>simp_all add: NET0_copy\<close>)
  then show "net_step E0 map_of ref_has (\<lambda>_. ''me'') {5} ref_links NET1 NET2"
    unfolding m(2) by (simp add: NET2_def NET0_copy)
qed

lemma NET_run: "net_run E0 map_of ref_has (\<lambda>_. ''me'') {5} ref_links NET0 NET2"
  by (rule net_snoc [OF net_snoc [OF net_nil NET_steps(1)] NET_steps(2)])

lemma NET2_unchecked: "nw_unchecked NET2 i = {}"
  by (simp add: NET2_def NET1_def NET0_def)

section \<open>Cleaning of keys\<close>

text \<open>What \<open>path.Clean\<close> does with the components of an absolute path, and the key it gives.\<close>

fun clean_parts :: "string list \<Rightarrow> string list \<Rightarrow> string list" where
  "clean_parts done [] = rev done"
| "clean_parts done (p # ps) =
     (if p = [] \<or> p = ''.'' then clean_parts done ps
      else if p = ''..'' then clean_parts (drop 1 done) ps
      else clean_parts (p # done) ps)"

definition clean_newKey :: "string \<Rightarrow> string" where
  "clean_newKey k = CHR ''/'' # go_join ''/'' (clean_parts [] (go_split (CHR ''/'') k))"

lemma clean_parts_clean:
  "list_all (\<lambda>p. p \<noteq> [] \<and> p \<noteq> ''.'' \<and> p \<noteq> ''..'') ps \<Longrightarrow> clean_parts done ps = rev done @ ps"
  by (induction ps arbitrary: "done") auto

lemma clean_newKey_clean:
  assumes "clean_path k"
  shows "clean_newKey k = CHR ''/'' # k" "clean_newKey (CHR ''/'' # k) = CHR ''/'' # k"
proof -
  from assms have "list_all (\<lambda>p. p \<noteq> [] \<and> p \<noteq> ''.'' \<and> p \<noteq> ''..'') (go_split (CHR ''/'') k)"
    by (simp add: clean_path_def list_all_iff)
  then have "clean_parts [] (go_split (CHR ''/'') k) = go_split (CHR ''/'') k"
    by (simp add: clean_parts_clean)
  then show "clean_newKey k = CHR ''/'' # k" "clean_newKey (CHR ''/'' # k) = CHR ''/'' # k"
    by (simp_all add: clean_newKey_def)
qed

lemma clean_key_ok: "key_ok clean_newKey"
  by (simp add: key_ok_def clean_newKey_clean)

lemma clean_key_dots: "key_dots clean_newKey"
  unfolding key_dots_def
proof (intro allI impI)
  fix a b
  assume a: "plain_component a" and b: "clean_path b"
  have "go_split (CHR ''/'') (CHR ''/'' # a @ ''/../'' @ b) =
      [] # a # ''..'' # go_split (CHR ''/'') b"
    using a go_split_append [of "CHR ''/''" a "''..'' @ CHR ''/'' # b"]
      go_split_append [of "CHR ''/''" "''..''" b]
    by (simp add: plain_component_def go_split_no_sep)
  with a have "clean_newKey (CHR ''/'' # a @ ''/../'' @ b) = clean_newKey b"
    by (simp add: clean_newKey_def plain_component_def)
  with b show "clean_newKey (CHR ''/'' # a @ ''/../'' @ b) = CHR ''/'' # b"
    by (simp add: clean_newKey_clean)
qed

definition E1 :: "(assoc, byte, byte) env" where "E1 = E0\<lparr>lib_ds := ref_ds\<lparr>newKey := clean_newKey\<rparr>\<rparr>"

lemma E1_simps [simp]:
  "newKey (lib_ds E1) = clean_newKey" "lib_pb E1 = ref_protos" "lib_id E1 = ref_id"
  "key_ops E1 = ref_keys" "crypto E1 = ref_crypto"
  by (simp_all add: E1_def)

lemma E1_libs_ok: "libs_ok E1"
  using E0_libs_ok by (simp add: libs_ok_def)

lemma E1_pair: "signed_ok E1 (Some k) (Some k)"
  using E0_pair [of k] by (simp add: signed_ok_def)

lemma E1_live: "ds_live (lib_ds E1) map_of"
  using E0_live by (simp add: E1_def ds_live_def ds_has_total_def)

lemma E1_signed [simp]:
  "signed_record E1 (Some k) (Some p) val =
     Inr (CHR ''~'' # b64_encode [0, p], enc_field val @ enc_field (k # val))"
  by (simp add: signed_record_def ref_keys_def ref_protos_def ref_sig_def PubKeyToStr_def idFromPubKey_def
      ref_crypto_def ref_id_def mh_IDENTITY_def)

section \<open>Access keys\<close>

lemma ref_keyStr [simp]: "PubKeyToStr ref_id ref_crypto (Some p) = CHR ''~'' # b64_encode [0, p]"
  by (simp add: PubKeyToStr_def idFromPubKey_def ref_crypto_def ref_id_def mh_IDENTITY_def)

lemma enc_field_nonempty [simp]: "enc_field x \<noteq> []"
  by (cases x) simp_all

definition ref_ak :: "byte \<Rightarrow> string \<Rightarrow> bytes" where
  "ref_ak p access = enc_field (bytes_of_string (CHR ''~'' # b64_encode [0, p])) @ enc_field (bytes_of_string access)"

lemma ref_ak_nonempty [simp]: "ref_ak p access \<noteq> []"
  by (simp add: ref_ak_def)

lemma ref_accessKey [simp]: "accessKey E0 (Some p) access = b64_encode (ref_ak p access)"
  by (simp add: accessKey_def ref_protos_def ref_access_def ref_ak_def)

lemma ref_own_key [simp]: "component_key E0 (CHR ''~'' # b64_encode [0, p]) = None"
proof -
  have "b64_quanta (CHR ''~'' # x) = b64_corrupt" for x
  proof -
    have "b64_index (CHR ''~'') = None" by (simp add: b64_index_def b64_alphabet_def)
    then show ?thesis by (cases x rule: b64_quanta.cases) (auto split: option.splits)
  qed
  then show ?thesis
    by (simp add: component_key_def b64_decode_def is_newline_def b64_corrupt_def)
qed

lemma enc_field_length: "length (enc_field x) = 2 * length x + 1"
  by (induction x) simp_all

text \<open>The stand-in for Argon2 tells the short inputs apart from all others.\<close>

lemma ref_hash_inject:
  assumes "length b < 63" "MakeHashKey E0 b' salt' = MakeHashKey E0 b salt"
  shows "b' = b"
proof -
  have eq: "ref_argon (bytes_of_string b') (contents salt') 1 65536 4 64 =
      ref_argon (bytes_of_string b) (contents salt) 1 65536 4 64"
    using assms(2) by (simp add: MakeHashKey_def)
  have len: "length (bytes_of_string x) = length x" for x by (simp add: bytes_of_string_def)
  have small: "unat (word_of_nat (length x) :: byte) = length x" if "length x < 63" for x :: string
    using that by (simp add: unat_of_nat)
  show ?thesis
  proof (cases "length b' < 63")
    case True
    with eq assms(1) have "(word_of_nat (length b') :: byte) = word_of_nat (length b)"
      and tails: "take 63 (bytes_of_string b' @ replicate 64 0) = take 63 (bytes_of_string b @ replicate 64 0)"
      by (simp_all add: ref_argon_def len)
    then have "length b' = length b" using small [OF True] small [OF assms(1)] by metis
    with tails True assms(1) have "bytes_of_string b' = bytes_of_string b" by (simp add: len)
    then show ?thesis by simp
  next
    case False
    with eq assms(1) have "(255 :: byte) = word_of_nat (length b)"
      by (simp add: ref_argon_def len) (metis list.inject replicate_Suc numeral_eq_Suc)
    then have "unat (255 :: byte) = length b" using small [OF assms(1)] by simp
    with assms(1) show ?thesis by simp
  qed
qed

text \<open>A hash store in which the key 5 has granted \<open>x\<close>.\<close>

definition HS1 :: "assoc hash_store" where
  "HS1 = HS0\<lparr>hs_base := B0\<lparr>bs_dt :=
     [(CHR ''/'' # MakeHashKey E0 (b64_encode (ref_ak 5 ''x'')) (Some [7]),
       enc_field (bytes_of_string (b64_encode (ref_ak 5 ''x''))) @ enc_field [7]
         @ enc_field (enc_field [1] @ enc_field [5, 1]))]\<rparr>\<rparr>"

lemma HS1_grant:
  "ac_Grant E0 zero_time [1] ''x'' (Some 5) (Some 5) (HashStore HS0) = (HashStore HS1, None)"
proof -
  have "ref_newKey (MakeHashKey E0 b salt) = CHR ''/'' # MakeHashKey E0 b salt" for b salt
    using newKey_hash [OF ref_key_ok E0_kdf_ok] .
  then show ?thesis
    by (simp add: ac_Grant_def ref_keys_def ref_protos_def ref_sig_def ref_hash_def hs_Put_def HS0_def
        HS1_def B0_def Let_def del: b64_encode.simps)
qed

section \<open>Opening\<close>

text \<open>A set-up in which no call fails, and a network on which no data arrives in time.\<close>

definition RUN0 :: "assoc setup_run" where
  "RUN0 = \<lparr>run_hGenerator = None, run_mkdirAll = None, run_newDHT = None, run_newBadger = None,
     run_newIpfs = None, run_newGossip = None, run_register = None, run_newBroadcaster = None,
     run_crdtNew = Inr [], run_bootstrap = None\<rparr>"

definition A0 :: "assoc attempt" where
  "A0 = \<lparr>at_run = RUN0, at_now = zero_time, at_rnd = [5]\<rparr>"

lemma ref_initCRDT [simp]:
  "initCRDT save name RUN0 = ([RHost, RDHT, RBadger, RDatastore],
     Inr \<lparr>bs_name = name, bs_timeLimit = zero_time, bs_inTime = True, bs_dt = [], bs_ctxDone = False,
          bs_closed = [], bs_save = save, bs_dirRemoved = False, bs_watch = False, bs_syncer = False\<rparr>)"
  by (simp add: initCRDT_def setupStore_def RUN0_def)

lemma A0_simps [simp]: "at_run A0 = RUN0" "at_now A0 = zero_time" "at_rnd A0 = [5]"
  by (simp_all add: A0_def)

lemma timeout_reload [simp]: "has_prefix (err_text err_sync_timeout) timeout_msg"
  by (simp add: has_prefix_def err_sync_timeout_def timeout_msg_def)

lemma with_limit_zero [simp]: "with_limit now zero_time st = st\<lparr>bs_timeLimit := zero_time\<rparr>"
  by (simp add: with_limit_def base_setTimeLimit_def time_equal_def both_mono_def zero_time_def)

lemma E0_address_limit:
  "ascii pid \<Longrightarrow> wf_time lim \<Longrightarrow> t_loc lim = UTC \<Longrightarrow> no_mono lim \<Longrightarrow>
    parseAddress E0 (MakeAddress E0 ''s'' pid None [lim]) = Inr (''s'', None, pid, lim)"
  using parse_MakeAddress_UTC [of E0 "''s''" pid lim None] ref_protos_ok ref_protos_total
  by (simp add: ascii_def strip_mono_id canon_slice_def)

lemma E0_address_parse:
  "ascii pid \<Longrightarrow> parseAddress E0 (MakeAddress E0 ''s'' pid None [zero_time]) = Inr (''s'', None, pid, zero_time)"
  by (rule E0_address_limit) simp_all

lemma pid5_ascii: "ascii (CHR ''~'' # b64_encode [0, 5])"
  using b64_encode_ascii [of "[0, 5]"] by (simp add: ascii_def del: b64_encode.simps)

lemma pid5_decodes: "StrToPubKey ref_id ref_crypto (CHR ''~'' # b64_encode [0, 5]) = Inr 5"
  by (simp add: StrToPubKey_def extractPubKey_def ref_id_def ref_crypto_def mh_IDENTITY_def del: b64_encode.simps)

lemma upt_load [simp]: "[0..<N_load] = [0, 1, 2]"
  by (simp add: N_load_def upt_rec numeral_3_eq_3)

lemma gen_five: "gen_pair E0 [5] = (Some 5, Some 5)"
  by (simp add: gen_pair_def ref_crypto_def)

lemma E0_total: "protos_total (lib_pb E0)"
  by (simp add: ref_protos_total)

text \<open>The clock at a whole second.\<close>

definition tick :: "64 word \<Rightarrow> gotime" where "tick n = \<lparr>t_wall = 0, t_ext = n, t_loc = UTC\<rparr>"

lemma tick_simps [simp]: "wf_time (tick n)" "instant_of (tick n) = Instant (sint n) 0"
  by (simp_all add: tick_def wf_time_def instant_of_def t_sec_def t_nsec_def)

lemma tick_key: "sint m \<noteq> sint n \<Longrightarrow> time_key (tick m) \<noteq> time_key (tick n)"
proof
  assume ne: "sint m \<noteq> sint n" and "time_key (tick m) = time_key (tick n)"
  with key_time_stamped [of "tick m" "local_zone E0" "''a''"] key_time_stamped [of "tick n" "local_zone E0" "''a''"]
  have "to_utc (tick m) = to_utc (tick n)" by simp
  then have "instant_of (tick m) = instant_of (tick n)" by (metis instant_of_to_utc)
  with ne show False by simp
qed

end
