(* ===== verification/Replica_Properties.thy ===== *)
theory Replica_Properties
  imports Reference
begin

text \<open>
  What a peer's copy of a store can hold: the properties of the topic validator of crdt/setup.go and of
  the stores it guards, over the runs \<open>open_run\<close> of theory OpenRuns, in which a copy merges whatever
  go-ds-crdt brings in with an accepted message. The validator checks the records of the heads it can
  read; every other element or tombstone of a merge, and a put under a key that is not clean, touches its
  key unchecked. The set \<open>U\<close> of a run collects those keys, and the guarantees are for the others.
\<close>

text \<open>
  C1: in every state a copy of a store, which starts with good records and, where it signs, a real key
  pair, reaches through puts of its owner under any keys, merges of messages of other peers that passed the
  topic validator, with whatever ancestors, late heads, tombstones and unclean keys they bring in, and the
  end of its time window, every record satisfies what the store's
  validator checks, or it is stored under a key that has been touched unchecked: by such an element or
  tombstone, or by a put of the owner under a key that is not clean or with a clock that is not well
  formed. What the validator checks is a signature of the key that the record's own key names (signature
  stores), a timestamp (updatable stores), the hash of what the record carries as its key (hash stores).
  When no key has been touched unchecked, every record is good.
\<close>

theorem replica_records_good:
  assumes "replica_ok E els" and "own_pair E s0" and "good_store E els s0"
    and "open_run E els has hid links s0 U s" and "st_table els s k = Some v"
  shows "good_record E (store_mode s0) k v \<or> k \<in> U"
  using good_offD [OF open_run_good [OF assms(1-4)] assms(5)] same_kind_mode [OF open_run_kind [OF assms(4)]]
  by simp

theorem replica_records_good_witness:
  "good_record E0 MSignature (fst ref_rec) (snd ref_rec)"
  using replica_records_good [OF E0_replica R_start(1,2) run_open [OF R_run(1), of ref_links] R2_record]
  by (simp add: R0_def)










text \<open>
  C4: what one peer writes, another accepts. After a put under a clean key that reports success, on any
  kind of store whose key pair, where it signs, is a real one, a message with exactly the records the put
  has added and no tombstones passes the topic validator of every peer whose copy is of the same kind, is
  in time, has a later clock and does not hold the records yet, when the lookup in badger is exact and the
  clocks are well formed. (A put under a key with dots can succeed and yet be refused by every peer:
  lemma \<open>dotted_put_refused\<close>.)
\<close>

theorem put_accepted_by_peers:
  assumes "replica_ok E els" and "has_exact E els has (bs_name (st_base t))"
    and "clean_path key" and "wf_time now" and "instant_of now < instant_of now'"
    and "own_pair E s" and "st_Put E now key val s = (s', None)"
    and "store_mode t = store_mode s" and "bs_inTime (st_base t)"
    and "msgToDeltas G msg = Inr deltas" and "set (delta_records deltas) = new_records els s s'"
    and "\<And>d. d \<in> set deltas \<Longrightarrow> dl_tombstones d = []"
    and "\<And>k v. (k, v) \<in> new_records els s s' \<Longrightarrow> st_table els t k = None"
    and "pid \<noteq> hid"
  shows "accepts E has hid now' t G pid msg"
  by (rule put_message_accepted [OF assms])

theorem put_accepted_by_peers_witness:
  "accepts E0 ref_has ''me'' \<lparr>t_wall = 0, t_ext = 1, t_loc = UTC\<rparr> (SignatureStore (SG0 6)) (ref_dag [R1_rec]) ''p'' []"
  by (rule put_accepted_by_peers [OF E0_replica _ _ _ _ R_start(1) R1_put, where deltas = "[\<lparr>dl_elements = [R1_rec], dl_tombstones = []\<rparr>]"])
    (auto simp: R1_new R0_mode ref_has_exact SG0_def B0_def clean_path_def instant_of_def less_instant_def
      zero_time_def t_sec_def wf_time_def msgToDeltas_def delta_records_def st_table_def base_table_def R1_rec_key
      simp del: b64_encode.simps)

text \<open>
  In every state a copy of a store with signed records reaches without a key being touched unchecked, a
  value that is read under a writer's key string carries a signature which that writer's key verifies,
  also through an access store and for the newest of many versions.
\<close>

theorem reads_authentic:
  assumes "replica_ok E els" and "own_pair E s0" and "good_store E els s0"
    and "replica_run E els has hid s0 Gs s" and "signed_mode (store_mode s0)"
    and "PubKeyToStr (lib_id E) (crypto E) (Some vk) = pid" and "pid \<noteq> []" and "clean_path path"
    and "st_Get E s (pid @ ''/'' @ path) = Inr (Some val)"
  shows "\<exists>sign. k_verify (key_ops E) vk val sign = Inr True"
proof -
  note libs = libs_okD(2,3) [OF replica_okD(2) [OF assms(1)]]
  have good: "good_store E els s" "store_mode s = store_mode s0"
    using run_good [OF assms(1-4)] by simp_all
  have pid: "plain_component pid" using PubKeyToStr_plain [OF libs(1)] assms(6,7) by blast
  have "StrToPubKey (lib_id E) (crypto E) pid = Inr vk"
    using StrToPubKey_PubKeyToStr [OF libs, of "Some vk"] assms(6,7) by auto
  from st_Get_authentic [OF replica_okD(1) [OF assms(1)] pid this assms(8) _ good(1) assms(9)] assms(5) good(2)
  show ?thesis by simp
qed

theorem reads_authentic_witness: "\<exists>sign. k_verify (key_ops E0) 5 [1] sign = Inr True"
proof -
  have run: "replica_run E0 map_of ref_has ''me'' R0 [ref_dag []] R1"
    using run_snoc [OF run_nil R_steps(1)] by simp
  have put: "sg_Put E0 ''a'' [1] (SG0 5) = (fst (sg_Put E0 ''a'' [1] (SG0 5)), None)"
    by (simp add: sg_Put_def SG0_def B0_def)
  have R1: "R1 = SignatureStore (fst (sg_Put E0 ''a'' [1] (SG0 5)))"
    by (simp add: R1_def R0_def split_beta)
  have "st_Get E0 R1 ((CHR ''~'' # b64_encode [0, 5]) @ ''/'' @ ''a'') = Inr (Some [1])"
    unfolding R1 using sg_Put_Get [OF E0_env_ok E0_live E0_libs_ok put] by (simp add: sg_putKey_def SG0_def)
  from reads_authentic [OF E0_replica R_start(1,2) run _ _ _ _ this, of 5] show ?thesis
    by (simp add: R0_mode signed_mode_def clean_path_def)
qed

text \<open>
  However puts are interleaved, on any kind of store, each one that reports success has added
  exactly one record and the others none, and every record stored before is still there.
\<close>

theorem puts_counted:
  assumes "env_ok E els" and "finite (dom (st_table els s))"
  shows "card (dom (st_table els (run_puts (\<lambda>(now, key, val). st_Put E now key val) as s))) =
      puts_done (\<lambda>(now, key, val). st_Put E now key val) as s + card (dom (st_table els s))
    \<and> st_table els s \<subseteq>\<^sub>m st_table els (run_puts (\<lambda>(now, key, val). st_Put E now key val) as s)"
  using st_store.run_size [OF assms, of as] st_store.run_extends [OF assms(1), of s as] by simp

theorem puts_counted_witness:
  "card (dom (st_table map_of (run_puts (\<lambda>(now, key, val). st_Put E0 now key val)
      [(zero_time, ''a'', [1]), (zero_time, ''a'', [2]), (zero_time, ''b'', [3])] (LogStore B0)))) = 2"
proof -
  have fin: "finite (dom (st_table map_of (LogStore B0)))"
    by (simp add: st_table_def base_table_def finite_dom_map_of)
  show ?thesis
    using puts_counted [OF E0_env_ok fin,
        of "[(zero_time, ''a'', [1]), (zero_time, ''a'', [2]), (zero_time, ''b'', [3])]"]
    by (simp add: st_table_def base_table_def B0_def ref_newKey_def has_prefix_def)
qed

text \<open>
  The topic validator lets a message of another peer pass exactly when its heads can be read
  from the message, every record of their deltas passes the store's validator and is not yet in
  badger, and no delta deletes anything.
\<close>

theorem topic_validator_exact:
  assumes "pid \<noteq> hid"
  shows "validatorFunc hid v D has ns G pid msg \<longleftrightarrow>
    (\<exists>deltas. msgToDeltas G msg = Inr deltas
       \<and> (\<forall>(key, val) \<in> set (delta_records deltas). v key val \<and> has (vkey D ns key) \<noteq> Inr True)
       \<and> (\<forall>delta \<in> set deltas. dl_tombstones delta = []))"
  by (rule foreign_messages [OF assms])

theorem topic_validator_exact_witness:
  "validatorFunc ''me'' (\<lambda>key val. val = [1]) ref_ds (\<lambda>_. Inr False) ''/s'' (ref_dag [(''/a'', [1])]) ''p'' []
   \<and> \<not> validatorFunc ''me'' (\<lambda>key val. val = [1]) ref_ds (\<lambda>_. Inr False) ''/s'' (ref_dag [(''/a'', [2])]) ''p'' []"
  by (simp add: topic_validator_exact msgToDeltas_def delta_records_def)

text \<open>
  C29: heads that cannot be fetched or read from the DAG within the time allowed are left out of the
  check, so a message all of whose heads are unreadable passes whatever the store's validator says.
\<close>

theorem unreadable_heads_accepted:
  assumes "msgToCRDTHeads G msg = Inr heads" and "list_all (unreadable G) heads"
  shows "validatorFunc hid (\<lambda>_ _. False) D has ns G pid msg"
  by (rule unreadable_accepted [OF assms])

theorem unreadable_heads_accepted_witness:
  "validatorFunc ''me'' (\<lambda>_ _. False) ref_ds (\<lambda>_. Inr False) ''/s''
     ((ref_dag [(''/a'', [1])])\<lparr>dagGet := (\<lambda>_. Inl ErrDeadlineExceeded)\<rparr>) ''p'' []"
proof (rule unreadable_heads_accepted)
  show "msgToCRDTHeads ((ref_dag [(''/a'', [1])])\<lparr>dagGet := (\<lambda>_. Inl ErrDeadlineExceeded)\<rparr>) [] = Inr [[]]"
    by (simp add: msgToCRDTHeads_get)
qed (simp add: unreadable_def)

text \<open>
  C23: the signature validator reads the key as it is written, while the datastore cleans it. So a
  record that is signed by one key, under a key that steps back out of that writer's part, passes the
  validator of every peer in time, is stored under a key in another writer's part, and a reader who
  asks for that writer's value is given it.
\<close>

theorem dotted_key_forgery:
  assumes "libs_ok E" and "key_dots (newKey (lib_ds E))" and "key_ok (newKey (lib_ds E))"
    and "ds_live (lib_ds E) els" and "signed_ok E priv pub"
    and "signed_record E priv pub val = Inr (sKey, msd)" and "val \<noteq> []" and "clean_path path"
    and "bs_inTime (sg_base s)"
    and "sg_table els s (newKey (lib_ds E) (CHR ''/'' # sKey @ ''/../'' @ path)) = Some msd"
  shows "newSignatureValidator E (sg_base s) (CHR ''/'' # sKey @ ''/../'' @ path) msd
    \<and> sg_Get E s path = Inr (Some val)"
  using dotted_accepted [OF assms(1,2,5,6,8,9)] dotted_read [OF assms(3,4,1,6,7,8)] assms(10)
  by (simp add: dotted_def)

theorem dotted_key_forgery_witness:
  "sg_Get E1 ((SG0 5)\<lparr>sg_base := B0\<lparr>bs_dt :=
      [(CHR ''/'' # (CHR ''~'' # b64_encode [0, 9]) @ ''/x'', enc_field [1] @ enc_field [5, 1])]\<rparr>\<rparr>)
     ((CHR ''~'' # b64_encode [0, 9]) @ ''/x'') = Inr (Some [1])"
  (is "sg_Get E1 ?s ?path = _")
proof -
  have path: "clean_path ?path"
    by (simp add: clean_path_def b64_digit_def b64_alphabet_def)
  have dots: "clean_newKey (CHR ''/'' # (CHR ''~'' # b64_encode [0, 5]) @ ''/../'' @ ?path) = CHR ''/'' # ?path"
  proof -
    have "plain_component (CHR ''~'' # b64_encode [0, 5])" by (simp add: plain_component_def del: b64_encode.simps)
    with path show ?thesis using clean_key_dots unfolding key_dots_def by blast
  qed
  show ?thesis
    using dotted_key_forgery [OF E1_libs_ok _ _ E1_live E1_pair E1_signed _ path, of "[1]" ?s 5] dots
    by (simp add: clean_key_dots clean_key_ok sg_table_def base_table_def B0_def SG0_def del: b64_encode.simps)
qed

text \<open>
  C30: whatever puts, synchronisations and goroutine steps follow, a store whose window has closed
  has a time limit and the clock has reached it; and while the limit is watched and has been reached,
  the step that closes the window is enabled.
\<close>

theorem time_window_exact:
  assumes "bs_inTime s0" and "\<not> bs_watch s0" and "no_mono (bs_timeLimit s0)"
    and "base_run E t0 (base_setTimeLimit t0 s0) t s"
  shows "(\<not> bs_inTime s \<longrightarrow> \<not> time_equal (bs_timeLimit s0) zero_time \<and> \<not> time_before t (bs_timeLimit s0))
    \<and> (bs_watch s \<and> \<not> time_before t (bs_timeLimit s0) \<longrightarrow> (\<exists>s'. base_step E t s s' \<and> \<not> bs_inTime s'))"
proof -
  have lim: "bs_timeLimit (base_setTimeLimit t0 s0) = bs_timeLimit s0"
    by (simp add: setTimeLimit_cases [OF assms(1)])
  with run_timeLimit [OF assms(4)] have lim': "bs_timeLimit s = bs_timeLimit s0" by simp
  have "window_inv t s"
    by (rule run_window_inv [OF assms(4) window_inv_start [OF assms(1,2)]]) (simp add: lim assms(3))
  with lim' deadline_enabled [of s t E] show ?thesis
    by (auto simp: window_inv_def expired_def)
qed

theorem time_window_exact_witness:
  "\<not> time_before \<lparr>t_wall = 0, t_ext = 7, t_loc = UTC\<rparr> \<lparr>t_wall = 0, t_ext = 5, t_loc = UTC\<rparr>"
proof -
  let ?T = "\<lambda>n. \<lparr>t_wall = 0, t_ext = n, t_loc = UTC\<rparr>"
  let ?s0 = "B0\<lparr>bs_timeLimit := ?T 5\<rparr>"
  have s1: "base_setTimeLimit (?T 3) ?s0 = ?s0\<lparr>bs_watch := True\<rparr>"
    by (simp add: setTimeLimit_cases B0_def time_equal_def time_before_def both_mono_def t_sec_def
        t_nsec_def zero_time_def nsecMask_def)
  let ?s1 = "?s0\<lparr>bs_watch := True\<rparr>"
  have "base_step E0 (?T 7) ?s1
      (?s1\<lparr>bs_dt := fst (ds_sync (lib_ds E0) (bs_dt ?s1)), bs_inTime := False, bs_watch := False\<rparr>)"
    by (rule watch_deadline) (simp_all add: B0_def time_before_def both_mono_def t_sec_def)
  moreover have "instant_of (?T 3) \<le> instant_of (?T 7)"
    by (simp add: instant_of_def less_eq_instant_def t_sec_def)
  ultimately have "base_run E0 (?T 3) (base_setTimeLimit (?T 3) ?s0) (?T 7)
      (?s1\<lparr>bs_dt := fst (ds_sync (lib_ds E0) (bs_dt ?s1)), bs_inTime := False, bs_watch := False\<rparr>)"
    unfolding s1 by (rule run_step [OF run_start, rotated])
  from time_window_exact [OF _ _ _ this] show ?thesis
    by (simp add: B0_def no_mono_def)
qed

end
