(* ===== verification/Peers.thy ===== *)
theory Peers
  imports Util
begin

text \<open>
  discovery.go and bootstrap.go: connecting a host to the bootstrap peers and to the peers that
  advertise a keyword, and running a bootstrap node. The libp2p host and the Kademlia DHT are
  parameters (\<open>net\<close>, over an abstract host state); a run returns, with the host's state, the list
  of the peers \<open>Connect\<close> was called for, in order.
\<close>

record ('h, 'ma) net =
  nt_id :: "'h \<Rightarrow> bytes"
  nt_addrs :: "'h \<Rightarrow> 'ma list"
  nt_peers :: "'h \<Rightarrow> bytes list"
  nt_connected :: "'h \<Rightarrow> bytes \<Rightarrow> bool"
  nt_connect :: "'h \<Rightarrow> 'ma addr_info \<Rightarrow> 'h \<times> goerror option"
  nt_kadNew :: "'h \<Rightarrow> 'h \<times> goerror option"
  nt_dhtBootstrap :: "'h \<Rightarrow> 'h \<times> goerror option"
  nt_advertise :: "'h \<Rightarrow> string \<Rightarrow> 'h"
  nt_findPeers :: "'h \<Rightarrow> string \<Rightarrow> 'ma addr_info list res"
  nt_dhtClose :: "'h \<Rightarrow> 'h"
  nt_hostClose :: "'h \<Rightarrow> 'h"

definition HostToAddrInfo :: "('h, 'ma) net \<Rightarrow> 'h \<Rightarrow> 'ma addr_info" where
  "HostToAddrInfo N h = \<lparr>ai_ID = nt_id N h, ai_Addrs = nt_addrs N h\<rparr>"

section \<open>Bootstrap peers\<close>

fun connectLoop ::
  "('h, 'ma) net \<Rightarrow> 'ma addr_info list \<Rightarrow> 'h \<Rightarrow> bool \<Rightarrow> 'h \<times> bool \<times> 'ma addr_info list" where
  "connectLoop N [] h isSuccess = (h, isSuccess, [])"
| "connectLoop N (other # others) h isSuccess =
     (if nt_connected N h (ai_ID other) then connectLoop N others h True
      else case nt_connect N h other of
        (h, None) \<Rightarrow> (let (h, ok, log) = connectLoop N others h True in (h, ok, other # log))
      | (h, Some err) \<Rightarrow> (let (h, ok, log) = connectLoop N others h isSuccess in (h, ok, other # log)))"

definition err_no_bootstraps :: goerror where
  "err_no_bootstraps = ErrNew ''no bootstraps are connected''"

definition connectBootstraps ::
  "('h, 'ma) net \<Rightarrow> 'h \<Rightarrow> 'ma addr_info list \<Rightarrow> 'h \<times> goerror option" where
  "connectBootstraps N self others =
     (let (h, isSuccess, _) = connectLoop N others self False
      in (h, if isSuccess then None else Some err_no_bootstraps))"

section \<open>Peers found by keyword\<close>

definition maxSuccess :: nat where "maxSuccess = 5"

fun findLoop ::
  "('h, 'ma) net \<Rightarrow> 'ma addr_info list \<Rightarrow> nat \<Rightarrow> 'h \<Rightarrow> 'h \<times> 'ma addr_info list" where
  "findLoop N [] nSuccess h = (h, [])"
| "findLoop N (peer # peersCh) nSuccess h =
     (if nSuccess \<ge> maxSuccess then (h, [])
      else if ai_ID peer = nt_id N h then findLoop N peersCh nSuccess h
      else if length (ai_Addrs peer) \<le> 0 then findLoop N peersCh nSuccess h
      else if nt_connected N h (ai_ID peer) then findLoop N peersCh (nSuccess + 1) h
      else let (h, err) = nt_connect N h peer;
               (h, log) = findLoop N peersCh (nSuccess + 1) h
           in (h, peer # log))"

text \<open>\<open>DiscoveryDHT.Bootstrap\<close>; \<open>Discovery\<close> is the same after making the DHT.\<close>

definition dht_Bootstrap ::
  "('h, 'ma) net \<Rightarrow> 'h \<Rightarrow> string \<Rightarrow> 'ma addr_info list \<Rightarrow> 'h \<times> goerror option \<times> 'ma addr_info list" where
  "dht_Bootstrap N h keyword bootstraps =
     (case connectBootstraps N h bootstraps of
        (h, Some err) \<Rightarrow> (h, Some err, [])
      | (h, None) \<Rightarrow>
          (case nt_dhtBootstrap N h of
             (h, Some err) \<Rightarrow> (h, Some err, [])
           | (h, None) \<Rightarrow>
               (let h = nt_advertise N h keyword in
                case nt_findPeers N h keyword of
                  Inl err \<Rightarrow> (h, Some err, [])
                | Inr peersCh \<Rightarrow> (let (h, log) = findLoop N peersCh 0 h in (h, None, log)))))"

definition NewDHT :: "('h, 'ma) net \<Rightarrow> 'h \<Rightarrow> 'h \<times> goerror option" where
  "NewDHT N h = nt_kadNew N h"

definition dht_Close :: "('h, 'ma) net \<Rightarrow> 'h \<Rightarrow> 'h" where
  "dht_Close N h = nt_dhtClose N h"

definition Discovery ::
  "('h, 'ma) net \<Rightarrow> 'h \<Rightarrow> string \<Rightarrow> 'ma addr_info list \<Rightarrow> 'h \<times> goerror option \<times> 'ma addr_info list" where
  "Discovery N h keyword bootstraps =
     (case nt_kadNew N h of
        (h, Some err) \<Rightarrow> (h, Some err, [])
      | (h, None) \<Rightarrow>
     (case connectBootstraps N h bootstraps of
        (h, Some err) \<Rightarrow> (h, Some err, [])
      | (h, None) \<Rightarrow>
     (case nt_dhtBootstrap N h of
        (h, Some err) \<Rightarrow> (h, Some err, [])
      | (h, None) \<Rightarrow>
     (let h = nt_advertise N h keyword in
      case nt_findPeers N h keyword of
        Inl err \<Rightarrow> (h, Some err, [])
      | Inr peersCh \<Rightarrow> (let (h, log) = findLoop N peersCh 0 h in (h, None, log))))))"

section \<open>Bootstrap nodes (bootstrap.go)\<close>

record ('h, 'ma) bootstrap =
  bt_h :: 'h
  bt_peers :: "'ma addr_info list"

text \<open>The loop over the connected peers, looked up among the ones given.\<close>

fun knownPeers :: "(bytes \<rightharpoonup> 'ma addr_info) \<Rightarrow> bytes list \<Rightarrow> 'ma addr_info list" where
  "knownPeers m [] = []"
| "knownPeers m (pid # pids) = (case m pid of None \<Rightarrow> knownPeers m pids | Some ai \<Rightarrow> ai # knownPeers m pids)"

text \<open>The host generator's result is \<open>hGen\<close>; on an error the DHT is closed, the host is not.\<close>

definition NewBootstrap ::
  "('h, 'ma) net \<Rightarrow> 'h res \<Rightarrow> 'ma addr_info list \<Rightarrow> 'h option \<times> ('h, 'ma) bootstrap res" where
  "NewBootstrap N hGen others =
     (case hGen of
        Inl err \<Rightarrow> (None, Inl err)
      | Inr h \<Rightarrow>
          (case nt_kadNew N h of
             (h, Some err) \<Rightarrow> (Some h, Inl err)
           | (h, None) \<Rightarrow>
               if 0 < length others
               then (case connectBootstraps N h others of
                       (h, Some err) \<Rightarrow> (Some (nt_dhtClose N h), Inl err)
                     | (h, None) \<Rightarrow>
                         (let othersMap = AddrInfoSliceToMap others
                          in (None, Inr \<lparr>bt_h = h, bt_peers = knownPeers othersMap (nt_peers N h)\<rparr>)))
               else (None, Inr \<lparr>bt_h = h, bt_peers = []\<rparr>)))"

definition bootstrap_Close :: "('h, 'ma) net \<Rightarrow> ('h, 'ma) bootstrap \<Rightarrow> ('h, 'ma) bootstrap" where
  "bootstrap_Close N b = b\<lparr>bt_h := nt_hostClose N (nt_dhtClose N (bt_h b))\<rparr>"

definition bootstrap_AddrInfo :: "('h, 'ma) net \<Rightarrow> ('h, 'ma) bootstrap \<Rightarrow> 'ma addr_info" where
  "bootstrap_AddrInfo N b = HostToAddrInfo N (bt_h b)"

definition ConnectedPeers :: "('h, 'ma) bootstrap \<Rightarrow> 'ma addr_info list" where
  "ConnectedPeers b = bt_peers b"

section \<open>Connecting to bootstraps\<close>

text \<open>A host that reports a peer it connected to, and loses none by connecting to another.\<close>

definition net_ok :: "('h, 'ma) net \<Rightarrow> bool" where
  "net_ok N \<longleftrightarrow>
     (\<forall>h p h'. nt_connect N h p = (h', None) \<longrightarrow> nt_connected N h' (ai_ID p))
     \<and> (\<forall>h p i. nt_connected N h i \<longrightarrow> nt_connected N (fst (nt_connect N h p)) i)
     \<and> (\<forall>h p. nt_id N (fst (nt_connect N h p)) = nt_id N h)
     \<and> (\<forall>h i. nt_connected N h i \<longleftrightarrow> i \<in> set (nt_peers N h))"

lemma net_okD [lib_laws]:
  assumes "net_ok N"
  shows "nt_connect N h p = (h', None) \<Longrightarrow> nt_connected N h' (ai_ID p)"
    and "nt_connected N h i \<Longrightarrow> nt_connected N (fst (nt_connect N h p)) i"
    and "nt_id N (fst (nt_connect N h p)) = nt_id N h"
    and "nt_connected N h i \<longleftrightarrow> i \<in> set (nt_peers N h)"
  using assms unfolding net_ok_def by blast+

lemma connectLoop_keeps:
  assumes "net_ok N"
  shows "nt_connected N h i \<Longrightarrow> nt_connected N (fst (connectLoop N others h ok)) i"
proof (induction others arbitrary: h ok)
  case (Cons other others)
  obtain h' err where c: "nt_connect N h other = (h', err)" by (cases "nt_connect N h other")
  from net_okD(2) [OF assms Cons.prems, of other] c have "nt_connected N h' i" by simp
  from Cons.IH [OF this] Cons.IH [OF Cons.prems] c show ?case
    by (cases err) (simp_all add: split_beta Let_def)
qed simp

lemma connectLoop_mono: "ok \<Longrightarrow> fst (snd (connectLoop N others h ok))"
  by (induction others arbitrary: h ok) (auto simp: split_beta Let_def split: option.split)

text \<open>Success means that one of the peers given is connected at the end.\<close>

lemma connectLoop_success:
  assumes "net_ok N"
  shows "connectLoop N others h False = (h', True, log) \<Longrightarrow> \<exists>o' \<in> set others. nt_connected N h' (ai_ID o')"
proof (induction others arbitrary: h log)
  case (Cons other others)
  show ?case
  proof (cases "nt_connected N h (ai_ID other)")
    case True
    with Cons.prems have "h' = fst (connectLoop N others h True)" by simp
    with connectLoop_keeps [OF assms True, of others True] show ?thesis by simp
  next
    case False
    obtain h1 err where c: "nt_connect N h other = (h1, err)" by (cases "nt_connect N h other")
    show ?thesis
    proof (cases err)
      case None
      with Cons.prems False c have "h' = fst (connectLoop N others h1 True)" by (auto split: prod.splits)
      with connectLoop_keeps [OF assms net_okD(1) [OF assms c [unfolded None]], of others True]
      show ?thesis by simp
    next
      case (Some e)
      with Cons.prems False c obtain log' where "connectLoop N others h1 False = (h', True, log')"
        by (auto split: prod.splits)
      from Cons.IH [OF this] show ?thesis by simp
    qed
  qed
qed simp

lemma connectBootstraps_connected:
  assumes "net_ok N" "connectBootstraps N h others = (h', None)"
  shows "\<exists>o' \<in> set others. nt_connected N h' (ai_ID o')"
proof -
  obtain h1 ok log where c: "connectLoop N others h False = (h1, ok, log)" by (metis prod.exhaust)
  with assms(2) have "h1 = h'" "ok" by (auto simp: connectBootstraps_def split: if_splits)
  with connectLoop_success [OF assms(1), of others h h' log] c show ?thesis by simp
qed

lemma connectBootstraps_none: "connectBootstraps N h [] = (h, Some err_no_bootstraps)"
  by (simp add: connectBootstraps_def)

text \<open>Failure means that \<open>Connect\<close> was tried, and failed, for every peer given.\<close>

lemma connectBootstraps_failed:
  assumes "connectBootstraps N h others = (h', Some err)"
  shows "snd (snd (connectLoop N others h False)) = others" "err = err_no_bootstraps"
proof -
  have "\<not> fst (snd (connectLoop N os h False)) \<Longrightarrow> snd (snd (connectLoop N os h False)) = os" for os h
  proof (induction os arbitrary: h)
    case (Cons other os)
    show ?case
    proof (cases "nt_connected N h (ai_ID other)")
      case True
      with Cons.prems connectLoop_mono [of True N os h] show ?thesis by simp
    next
      case False
      obtain h1 e where c: "nt_connect N h other = (h1, e)" by (cases "nt_connect N h other")
      with Cons.prems False connectLoop_mono [of True N os h1] Cons.IH [of h1] show ?thesis
        by (cases e) (auto simp: split_beta Let_def)
    qed
  qed simp
  with assms show "snd (snd (connectLoop N others h False)) = others" "err = err_no_bootstraps"
    by (auto simp: connectBootstraps_def split_beta Let_def split: if_splits)
qed

section \<open>Dialling the peers found\<close>

text \<open>At most five peers are dialled, none of them the host itself and all with addresses.\<close>

lemma findLoop_log:
  assumes "net_ok N"
  shows "length (snd (findLoop N ps n h)) \<le> maxSuccess - n"
    and "p \<in> set (snd (findLoop N ps n h)) \<Longrightarrow> p \<in> set ps \<and> ai_ID p \<noteq> nt_id N h \<and> ai_Addrs p \<noteq> []"
proof -
  have "length (snd (findLoop N ps n h)) \<le> maxSuccess - n \<and>
    (\<forall>p \<in> set (snd (findLoop N ps n h)). p \<in> set ps \<and> ai_ID p \<noteq> nt_id N h \<and> ai_Addrs p \<noteq> [])"
  proof (induction ps arbitrary: n h)
    case (Cons p ps)
    have id: "nt_id N (fst (nt_connect N h p)) = nt_id N h" by (rule net_okD(3) [OF assms])
    from Cons.IH [of n h] Cons.IH [of "n + 1" h] Cons.IH [of "n + 1" "fst (nt_connect N h p)"]
    show ?case by (auto simp: split_beta Let_def id)
  qed simp
  then show "length (snd (findLoop N ps n h)) \<le> maxSuccess - n"
    and "p \<in> set (snd (findLoop N ps n h)) \<Longrightarrow> p \<in> set ps \<and> ai_ID p \<noteq> nt_id N h \<and> ai_Addrs p \<noteq> []"
    by simp_all
qed

text \<open>
  A \<open>Connect\<close> that fails counts like one that succeeds: after \<open>maxSuccess\<close> peers that cannot be
  reached the loop stops, however many reachable ones follow.
\<close>

lemma findLoop_gives_up:
  assumes "list_all (\<lambda>p. ai_ID p \<noteq> nt_id N h \<and> ai_Addrs p \<noteq> [] \<and> \<not> nt_connected N h (ai_ID p)
      \<and> nt_connect N h p = (h, Some err)) dead"
    and "length dead + n = maxSuccess"
  shows "findLoop N (dead @ rest) n h = (h, dead)"
  using assms
proof (induction dead arbitrary: n)
  case Nil
  then show ?case by (cases rest) simp_all
qed simp

section \<open>Bootstrap nodes\<close>

lemma knownPeers_set: "set (knownPeers m pids) = {ai. \<exists>pid \<in> set pids. m pid = Some ai}"
  by (induction pids) (auto split: option.splits)

lemma NewBootstrap_peers:
  assumes N: "net_ok N" and run: "NewBootstrap N hGen others = (left_open, Inr b)"
  shows "set (ConnectedPeers b) \<subseteq> set others"
    and "ai \<in> set (ConnectedPeers b) \<Longrightarrow> nt_connected N (bt_h b) (ai_ID ai)"
    and "others \<noteq> [] \<Longrightarrow> ConnectedPeers b \<noteq> []"
    and "left_open = None"
proof -
  from run obtain h h1 where hg: "hGen = Inr h" "nt_kadNew N h = (h1, None)" and open': "left_open = None"
    by (auto simp: NewBootstrap_def split: sum.splits prod.splits option.splits if_splits)
  show "left_open = None" by (rule open')
  have known: "others = [] \<and> ConnectedPeers b = [] \<or>
      (\<exists>h2. connectBootstraps N h1 others = (h2, None) \<and> bt_h b = h2
         \<and> ConnectedPeers b = knownPeers (AddrInfoSliceToMap others) (nt_peers N h2))"
    using run hg
    by (auto simp: NewBootstrap_def ConnectedPeers_def Let_def split: prod.splits option.splits if_splits)
  then show "set (ConnectedPeers b) \<subseteq> set others"
    by (auto simp: knownPeers_set dest: AddrInfoSliceToMap_Some)
  from known show "nt_connected N (bt_h b) (ai_ID ai)" if "ai \<in> set (ConnectedPeers b)"
    using that by (auto simp: knownPeers_set net_okD(4) [OF N] dest: AddrInfoSliceToMap_Some)
  assume "others \<noteq> []"
  with known obtain h2 where h2: "connectBootstraps N h1 others = (h2, None)" "bt_h b = h2"
    "ConnectedPeers b = knownPeers (AddrInfoSliceToMap others) (nt_peers N h2)" by blast
  from connectBootstraps_connected [OF N h2(1)] obtain o' where
    o': "o' \<in> set others" "nt_connected N h2 (ai_ID o')" by blast
  then have "ai_ID o' \<in> dom (AddrInfoSliceToMap others)" by (simp add: AddrInfoSliceToMap_dom)
  then obtain ai where "AddrInfoSliceToMap others (ai_ID o') = Some ai" by blast
  moreover have "ai_ID o' \<in> set (nt_peers N h2)" using o'(2) by (simp add: net_okD(4) [OF N])
  ultimately have "ai \<in> set (ConnectedPeers b)" unfolding h2(3) knownPeers_set by blast
  then show "ConnectedPeers b \<noteq> []" by auto
qed

end
