(* ===== verification/Ipfs.thy ===== *)
theory Ipfs
  imports Messages
begin

text \<open>
  ipfs/ipfsverse.go and ipfs/cidgetter.go: files are split into the blocks their reader delivers,
  each block is added as a file of its own, and the list of the blocks' CIDs is added as a file
  whose CID stands for the whole. Reading goes the other way.

  ipfs-lite is a parameter (\<open>ipfs_lib\<close>, over an abstract state). A reader is the list of what its
  successive \<open>Read\<close> calls return; \<open>None\<close> says that the calls given do not decide.
\<close>

section \<open>Readers and blocks\<close>

datatype read_err = EOF | ReadErr goerror

type_synonym reads = "(bytes \<times> read_err option) list"

text \<open>The size of the buffer handed to \<open>Read\<close>, and the bound it puts on what one call returns.\<close>

definition block_size :: nat where "block_size = 2 ^ 18"

definition reads_ok :: "reads \<Rightarrow> bool" where
  "reads_ok rs \<longleftrightarrow> list_all (\<lambda>(bs, _). length bs \<le> block_size) rs"

fun splitLoop :: "bytes list \<Rightarrow> reads \<Rightarrow> bytes list res option" where
  "splitLoop rs [] = None"
| "splitLoop rs ((bs, err) # reads) =
     (case err of
        Some (ReadErr e) \<Rightarrow> Some (Inl e)
      | _ \<Rightarrow>
          (let rs = (if 0 < length bs then rs @ [bs] else rs)
           in if err = Some EOF then Some (Inr rs) else splitLoop rs reads))"

definition splitToBlocks :: "reads \<Rightarrow> bytes list res option" where
  "splitToBlocks r = splitLoop [] r"

definition mergeFromBlocks :: "bytes list \<Rightarrow> bytes" where
  "mergeFromBlocks rs = concat rs"

text \<open>How a \<open>bytes.Buffer\<close> reads: full blocks while there are bytes, then EOF.\<close>

function buffer_reads :: "bytes \<Rightarrow> reads" where
  "buffer_reads data =
     (if data = [] then [([], Some EOF)]
      else (take block_size data, None) # buffer_reads (drop block_size data))"
  by auto
termination
  by (relation "measure length") (auto simp: block_size_def)

declare buffer_reads.simps [simp del]

section \<open>CID lists\<close>

record blockCids = bc_cids :: "string list"

definition blockCids_Marshal :: "string list codec \<Rightarrow> blockCids \<Rightarrow> bytes res" where
  "blockCids_Marshal c bc = c_marshal c (bc_cids bc)"

definition blockCids_Unmarshal :: "string list codec \<Rightarrow> bytes \<Rightarrow> blockCids \<Rightarrow> blockCids \<times> goerror option" where
  "blockCids_Unmarshal c m bc =
     (case c_unmarshal c m of Inl err \<Rightarrow> (bc, Some err) | Inr cids \<Rightarrow> (bc\<lparr>bc_cids := cids\<rparr>, None))"

section \<open>The store\<close>

record 'i ipfs_lib =
  ip_addFile :: "'i \<Rightarrow> bytes \<Rightarrow> 'i \<times> string res"
  ip_getFile :: "'i \<Rightarrow> string \<Rightarrow> bytes res"
  ip_cidDecode :: "string \<Rightarrow> string res"
  ip_hasBlock :: "'i \<Rightarrow> string \<Rightarrow> bool \<times> goerror option"
  ip_cids :: "string list codec"

definition addReader :: "'i ipfs_lib \<Rightarrow> bytes \<Rightarrow> 'i \<Rightarrow> 'i \<times> string res" where
  "addReader L r s = ip_addFile L s r"

fun newBlockCids :: "'i ipfs_lib \<Rightarrow> bytes list \<Rightarrow> 'i \<Rightarrow> 'i \<times> blockCids res" where
  "newBlockCids L [] s = (s, Inr \<lparr>bc_cids = []\<rparr>)"
| "newBlockCids L (r # rs) s =
     (case addReader L r s of
        (s, Inl err) \<Rightarrow> (s, Inl err)
      | (s, Inr c) \<Rightarrow>
          (case newBlockCids L rs s of
             (s, Inl err) \<Rightarrow> (s, Inl err)
           | (s, Inr bc) \<Rightarrow> (s, Inr \<lparr>bc_cids = c # bc_cids bc\<rparr>)))"

definition AddReader :: "'i ipfs_lib \<Rightarrow> reads \<Rightarrow> 'i \<Rightarrow> ('i \<times> string res) option" where
  "AddReader L r s =
     (case splitToBlocks r of
        None \<Rightarrow> None
      | Some (Inl err) \<Rightarrow> Some (s, Inl err)
      | Some (Inr rs) \<Rightarrow>
          (case newBlockCids L rs s of
             (s, Inl err) \<Rightarrow> Some (s, Inl err)
           | (s, Inr bc) \<Rightarrow>
               (case blockCids_Marshal (ip_cids L) bc of
                  Inl err \<Rightarrow> Some (s, Inl err)
                | Inr m \<Rightarrow> Some (addReader L m s))))"

definition ipfs_Add :: "'i ipfs_lib \<Rightarrow> bytes \<Rightarrow> 'i \<Rightarrow> ('i \<times> string res) option" where
  "ipfs_Add L data s = AddReader L (buffer_reads data) s"

definition getReader :: "'i ipfs_lib \<Rightarrow> 'i \<Rightarrow> string \<Rightarrow> bytes res" where
  "getReader L s cidStr =
     (case ip_cidDecode L cidStr of Inl err \<Rightarrow> Inl err | Inr c \<Rightarrow> ip_getFile L s c)"

fun getReadersFromBlockCids :: "'i ipfs_lib \<Rightarrow> 'i \<Rightarrow> string list \<Rightarrow> bytes list res" where
  "getReadersFromBlockCids L s [] = Inr []"
| "getReadersFromBlockCids L s (c # cids) =
     (case getReader L s c of
        Inl err \<Rightarrow> Inl err
      | Inr r \<Rightarrow>
          (case getReadersFromBlockCids L s cids of Inl err \<Rightarrow> Inl err | Inr rs \<Rightarrow> Inr (r # rs)))"

definition GetReader :: "'i ipfs_lib \<Rightarrow> 'i \<Rightarrow> string \<Rightarrow> bytes res" where
  "GetReader L s cidStr =
     (case getReader L s cidStr of
        Inl err \<Rightarrow> Inl err
      | Inr m \<Rightarrow>
          (case blockCids_Unmarshal (ip_cids L) m \<lparr>bc_cids = []\<rparr> of
             (_, Some err) \<Rightarrow> Inl err
           | (bc, None) \<Rightarrow>
               (case getReadersFromBlockCids L s (bc_cids bc) of
                  Inl err \<Rightarrow> Inl err
                | Inr rs \<Rightarrow> Inr (mergeFromBlocks rs))))"

definition ipfs_Get :: "'i ipfs_lib \<Rightarrow> 'i \<Rightarrow> string \<Rightarrow> bytes res" where
  "ipfs_Get L s cidStr = GetReader L s cidStr"

text \<open>A lookup that runs into the deadline reports what it has found, without the error.\<close>

definition ipfs_Has :: "'i ipfs_lib \<Rightarrow> 'i \<Rightarrow> string \<Rightarrow> bool res" where
  "ipfs_Has L s cidStr =
     (case ip_cidDecode L cidStr of
        Inl err \<Rightarrow> Inl err
      | Inr c \<Rightarrow>
          (case ip_hasBlock L s c of
             (has, None) \<Rightarrow> Inr has
           | (has, Some err) \<Rightarrow> if err \<noteq> ErrDeadlineExceeded then Inl err else Inr has))"

section \<open>Opening and closing the store\<close>

text \<open>
  What the calls of \<open>NewIpfsStore\<close> return, in their order. The first component of the result lists
  the resources the run has opened.
\<close>

datatype ipfs_resource = IHost | IBadger | IDHT

record ipfs_run =
  ir_hGen :: "goerror option"
  ir_mkdirAll :: "goerror option"
  ir_newBadger :: "goerror option"
  ir_newDHT :: "goerror option"
  ir_newPeer :: "goerror option"
  ir_bootstrap :: "goerror option"

record ipfs_store =
  is_cancelled :: bool
  is_closed :: "ipfs_resource list"
  is_save :: bool
  is_dirRemoved :: bool

definition NewIpfsStore :: "bool \<Rightarrow> ipfs_run \<Rightarrow> ipfs_resource list \<times> ipfs_store res" where
  "NewIpfsStore save R =
     (case ir_hGen R of
        Some err \<Rightarrow> ([], Inl err)
      | None \<Rightarrow>
     (case ir_mkdirAll R of
        Some err \<Rightarrow> ([IHost], Inl err)
      | None \<Rightarrow>
     (case ir_newBadger R of
        Some err \<Rightarrow> ([IHost], Inl err)
      | None \<Rightarrow>
     (case ir_newDHT R of
        Some err \<Rightarrow> ([IHost, IBadger], Inl err)
      | None \<Rightarrow>
     (case ir_newPeer R of
        Some err \<Rightarrow> ([IHost, IBadger, IDHT], Inl err)
      | None \<Rightarrow>
     (case ir_bootstrap R of
        Some err \<Rightarrow> ([IHost, IBadger, IDHT], Inl err)
      | None \<Rightarrow>
          ([IHost, IBadger, IDHT],
           Inr \<lparr>is_cancelled = False, is_closed = [], is_save = save, is_dirRemoved = False\<rparr>)))))))"

definition ipfs_Close :: "ipfs_store \<Rightarrow> ipfs_store" where
  "ipfs_Close s = s\<lparr>is_cancelled := True, is_closed := is_closed s @ [IBadger, IDHT, IHost],
     is_dirRemoved := (is_dirRemoved s \<or> \<not> is_save s)\<rparr>"

definition defaultDuration :: nat where "defaultDuration = 5 * 60 * 1000000000"

definition getDurationFromDurations :: "nat list \<Rightarrow> nat" where
  "getDurationFromDurations durations = (case durations of [] \<Rightarrow> defaultDuration | d # _ \<Rightarrow> d)"

text \<open>Closing an opened store closes all it opened, and removes the directory unless it is to be kept.\<close>

lemma ipfs_Close_releases:
  assumes "NewIpfsStore save R = (opened, Inr s)"
  shows "set (is_closed (ipfs_Close s)) = set opened" "is_dirRemoved (ipfs_Close s) \<longleftrightarrow> \<not> save"
  using assms by (auto simp: NewIpfsStore_def ipfs_Close_def split: option.splits)

section \<open>The CID getter (ipfs/cidgetter.go)\<close>

text \<open>A getter has a host and a DHT; its datastore is in memory. What \<open>NewCidGetter\<close> calls returns comes first.\<close>

record cg_run =
  cr_sampleHost :: "goerror option"
  cr_newDHT :: "goerror option"
  cr_newPeer :: "goerror option"

record cidGetter = cg_closed :: "ipfs_resource list"

definition NewCidGetter :: "cg_run \<Rightarrow> ipfs_resource list \<times> cidGetter res" where
  "NewCidGetter R =
     (case cr_sampleHost R of
        Some err \<Rightarrow> ([], Inl err)
      | None \<Rightarrow>
     (case cr_newDHT R of
        Some err \<Rightarrow> ([IHost], Inl err)
      | None \<Rightarrow>
     (case cr_newPeer R of
        Some err \<Rightarrow> ([IHost, IDHT], Inl err)
      | None \<Rightarrow> ([IHost, IDHT], Inr \<lparr>cg_closed = []\<rparr>))))"

definition cg_Close :: "cidGetter \<Rightarrow> cidGetter" where
  "cg_Close cg = cg\<lparr>cg_closed := cg_closed cg @ [IDHT, IHost]\<rparr>"

lemma cg_Close_releases:
  assumes "NewCidGetter R = (opened, Inr cg)"
  shows "set (cg_closed (cg_Close cg)) = set opened"
  using assms by (auto simp: NewCidGetter_def cg_Close_def split: option.splits)

text \<open>The getter runs the same steps on a peer of its own, with an in-memory datastore.\<close>

definition cg_addReader :: "'i ipfs_lib \<Rightarrow> bytes \<Rightarrow> 'i \<Rightarrow> 'i \<times> string res" where
  "cg_addReader L r s = ip_addFile L s r"

fun cg_newBlockCids :: "'i ipfs_lib \<Rightarrow> bytes list \<Rightarrow> 'i \<Rightarrow> 'i \<times> blockCids res" where
  "cg_newBlockCids L [] s = (s, Inr \<lparr>bc_cids = []\<rparr>)"
| "cg_newBlockCids L (r # rs) s =
     (case cg_addReader L r s of
        (s, Inl err) \<Rightarrow> (s, Inl err)
      | (s, Inr c) \<Rightarrow>
          (case cg_newBlockCids L rs s of
             (s, Inl err) \<Rightarrow> (s, Inl err)
           | (s, Inr bc) \<Rightarrow> (s, Inr \<lparr>bc_cids = c # bc_cids bc\<rparr>)))"

definition cg_GetReader :: "'i ipfs_lib \<Rightarrow> reads \<Rightarrow> 'i \<Rightarrow> ('i \<times> string res) option" where
  "cg_GetReader L r s =
     (case splitToBlocks r of
        None \<Rightarrow> None
      | Some (Inl err) \<Rightarrow> Some (s, Inl err)
      | Some (Inr rs) \<Rightarrow>
          (case cg_newBlockCids L rs s of
             (s, Inl err) \<Rightarrow> Some (s, Inl err)
           | (s, Inr bc) \<Rightarrow>
               (case blockCids_Marshal (ip_cids L) bc of
                  Inl err \<Rightarrow> Some (s, Inl err)
                | Inr m \<Rightarrow> Some (cg_addReader L m s))))"

definition cg_Get :: "'i ipfs_lib \<Rightarrow> bytes \<Rightarrow> 'i \<Rightarrow> ('i \<times> string res) option" where
  "cg_Get L data s = cg_GetReader L (buffer_reads data) s"

section \<open>Splitting and merging\<close>

lemma splitLoop_content:
  "splitLoop rs reads = Some (Inr rs') \<Longrightarrow>
     \<exists>n. rs' = rs @ filter (\<lambda>b. b \<noteq> []) (map fst (take (Suc n) reads))
       \<and> n < length reads \<and> snd (reads ! n) = Some EOF"
proof (induction reads arbitrary: rs)
  case (Cons rd reads)
  obtain bs err where rd: "rd = (bs, err)" by (cases rd)
  show ?case
  proof (cases "err = Some EOF")
    case True
    with Cons.prems rd show ?thesis by (intro exI [of _ 0]) (auto simp: Let_def split: if_splits)
  next
    case False
    with Cons.prems rd have none: "err = None"
      by (auto split: option.splits read_err.splits)
    with Cons.prems rd have "splitLoop (if bs \<noteq> [] then rs @ [bs] else rs) reads = Some (Inr rs')"
      by (simp add: Let_def)
    from Cons.IH [OF this] obtain n where
      "rs' = (if bs \<noteq> [] then rs @ [bs] else rs) @ filter (\<lambda>b. b \<noteq> []) (map fst (take (Suc n) reads))"
      "n < length reads" "snd (reads ! n) = Some EOF" by blast
    then show ?thesis by (intro exI [of _ "Suc n"]) (simp add: rd)
  qed
qed simp

text \<open>The bytes a reader delivers up to its first end of file.\<close>

fun read_all :: "reads \<Rightarrow> bytes" where
  "read_all [] = []"
| "read_all ((bs, err) # reads) = (if err = None then bs @ read_all reads else bs)"

lemma splitLoop_read_all:
  "splitLoop rs reads = Some (Inr rs') \<Longrightarrow> concat rs' = concat rs @ read_all reads"
proof (induction reads arbitrary: rs)
  case (Cons rd reads)
  obtain bs err where rd: "rd = (bs, err)" by (cases rd)
  show ?case
  proof (cases err)
    case None
    with Cons.prems rd have "splitLoop (if bs \<noteq> [] then rs @ [bs] else rs) reads = Some (Inr rs')"
      by (simp add: Let_def)
    from Cons.IH [OF this] None rd show ?thesis by (auto split: if_splits)
  next
    case (Some e)
    with Cons.prems rd show ?thesis
      by (cases e) (auto simp: Let_def split: if_splits)
  qed
qed simp

lemma splitLoop_nonempty:
  "splitLoop rs reads = Some (Inr rs') \<Longrightarrow> [] \<notin> set rs \<Longrightarrow> [] \<notin> set rs'"
proof (induction reads arbitrary: rs)
  case (Cons rd reads)
  obtain bs err where rd: "rd = (bs, err)" by (cases rd)
  let ?rs = "if bs \<noteq> [] then rs @ [bs] else rs"
  have ne: "[] \<notin> set ?rs" using Cons.prems(2) by auto
  show ?case
  proof (cases err)
    case None
    with Cons.prems(1) rd have "splitLoop ?rs reads = Some (Inr rs')" by (simp add: Let_def)
    from Cons.IH [OF this ne] show ?thesis .
  next
    case (Some e)
    with Cons.prems(1) rd have "rs' = ?rs" by (cases e) (auto simp: Let_def)
    with ne show ?thesis by simp
  qed
qed simp

lemma split_merge: "splitToBlocks r = Some (Inr rs) \<Longrightarrow> mergeFromBlocks rs = read_all r"
  using splitLoop_read_all [of "[]" r rs] by (simp add: splitToBlocks_def mergeFromBlocks_def)

lemma buffer_reads_ok: "reads_ok (buffer_reads data)"
proof (induction data rule: buffer_reads.induct)
  case (1 data)
  then show ?case by (subst buffer_reads.simps) (simp add: reads_ok_def)
qed

lemma read_all_buffer [simp]: "read_all (buffer_reads data) = data"
proof (induction data rule: buffer_reads.induct)
  case (1 data)
  then show ?case by (subst buffer_reads.simps) simp
qed

lemma split_buffer: "\<exists>rs'. splitLoop rs (buffer_reads data) = Some (Inr rs')"
proof (induction data arbitrary: rs rule: buffer_reads.induct)
  case (1 data)
  then show ?case by (subst buffer_reads.simps) (simp add: Let_def)
qed

section \<open>What is added can be read\<close>

text \<open>
  ipfs-lite is content-addressed: the CID of a file is a function of its bytes, adding keeps what
  is there, and a file that was added is found under its CID, which decodes to itself.
\<close>

definition ipfs_ok :: "(bytes \<Rightarrow> string) \<Rightarrow> ('i \<Rightarrow> bytes set) \<Rightarrow> 'i ipfs_lib \<Rightarrow> bool" where
  "ipfs_ok cid files L \<longleftrightarrow>
     (\<forall>s b s' c. ip_addFile L s b = (s', Inr c) \<longrightarrow> c = cid b \<and> b \<in> files s')
     \<and> (\<forall>s b. files s \<subseteq> files (fst (ip_addFile L s b)))
     \<and> (\<forall>s b. b \<in> files s \<longrightarrow> ip_getFile L s (cid b) = Inr b)
     \<and> (\<forall>b. ip_cidDecode L (cid b) = Inr (cid b))
     \<and> codec_ok [] (\<lambda>m. m) (ip_cids L)"

lemma ipfs_okD [lib_laws]:
  assumes "ipfs_ok cid files L"
  shows "ip_addFile L s b = (s', Inr c) \<Longrightarrow> c = cid b"
    and "ip_addFile L s b = (s', Inr c) \<Longrightarrow> b \<in> files s'"
    and "files s \<subseteq> files (fst (ip_addFile L s b))"
    and "b \<in> files s \<Longrightarrow> ip_getFile L s (cid b) = Inr b"
    and "ip_cidDecode L (cid b) = Inr (cid b)"
    and "c_marshal (ip_cids L) cids = Inr m \<Longrightarrow> c_unmarshal (ip_cids L) m = Inr cids"
  using assms unfolding ipfs_ok_def codec_ok_def by blast+

lemma getReader_added: "ipfs_ok cid files L \<Longrightarrow> b \<in> files s \<Longrightarrow> getReader L s (cid b) = Inr b"
  by (simp add: getReader_def ipfs_okD)

lemma newBlockCids_added:
  assumes L: "ipfs_ok cid files L"
  shows "newBlockCids L rs s = (s', Inr bc) \<Longrightarrow>
    bc_cids bc = map cid rs \<and> files s \<union> set rs \<subseteq> files s'"
proof (induction rs arbitrary: s bc)
  case (Cons r rs)
  from Cons.prems obtain s1 c bc1 where a: "ip_addFile L s r = (s1, Inr c)"
    and rest: "newBlockCids L rs s1 = (s', Inr bc1)" and bc: "bc_cids bc = c # bc_cids bc1"
    by (auto simp: addReader_def split: prod.splits sum.splits)
  from ipfs_okD(1,2) [OF L a] ipfs_okD(3) [OF L, of s r] a Cons.IH [OF rest] bc
  show ?case by auto
qed simp

lemma getReaders_added:
  assumes L: "ipfs_ok cid files L"
  shows "set rs \<subseteq> files s \<Longrightarrow> getReadersFromBlockCids L s (map cid rs) = Inr rs"
  by (induction rs) (simp_all add: getReader_added [OF L])

lemma AddReader_parts:
  assumes L: "ipfs_ok cid files L" and add: "AddReader L r s = Some (s', Inr c)"
  obtains rs m where "splitToBlocks r = Some (Inr rs)" "c_marshal (ip_cids L) (map cid rs) = Inr m"
    "c = cid m" "m \<in> files s'" "set rs \<subseteq> files s'"
proof -
  from add obtain rs s1 bc m where rs: "splitToBlocks r = Some (Inr rs)"
    and bc: "newBlockCids L rs s = (s1, Inr bc)" and m: "c_marshal (ip_cids L) (bc_cids bc) = Inr m"
    and last: "ip_addFile L s1 m = (s', Inr c)"
    by (auto simp: AddReader_def blockCids_Marshal_def addReader_def split: option.splits prod.splits sum.splits)
  note n = newBlockCids_added [OF L bc]
  show thesis
  proof (rule that [OF rs])
    show "c_marshal (ip_cids L) (map cid rs) = Inr m" using m n by simp
    show "c = cid m" by (rule ipfs_okD(1) [OF L last])
    show "m \<in> files s'" by (rule ipfs_okD(2) [OF L last])
    show "set rs \<subseteq> files s'" using n ipfs_okD(3) [OF L, of s1 m] last by auto
  qed
qed

lemma AddReader_GetReader:
  assumes L: "ipfs_ok cid files L" and add: "AddReader L r s = Some (s', Inr c)"
  shows "GetReader L s' c = Inr (read_all r)"
proof -
  from AddReader_parts [OF L add] obtain rs m where rs: "splitToBlocks r = Some (Inr rs)"
    and m: "c_marshal (ip_cids L) (map cid rs) = Inr m" "c = cid m" "m \<in> files s'" "set rs \<subseteq> files s'" .
  have un: "c_unmarshal (ip_cids L) m = Inr (map cid rs)"
    by (rule ipfs_okD(6) [OF L m(1)])
  have "getReader L s' c = Inr m" unfolding m(2) by (rule getReader_added [OF L m(3)])
  then show ?thesis
    by (simp add: GetReader_def blockCids_Unmarshal_def un getReaders_added [OF L m(4)] split_merge [OF rs])
qed

lemma Add_Get:
  assumes "ipfs_ok cid files L" "ipfs_Add L data s = Some (s', Inr c)"
  shows "ipfs_Get L s' c = Inr data"
  using AddReader_GetReader [OF assms(1) assms(2) [unfolded ipfs_Add_def]] by (simp add: ipfs_Get_def)

text \<open>Adding more keeps what can be read.\<close>

lemma newBlockCids_keeps:
  assumes L: "ipfs_ok cid files L"
  shows "files s \<subseteq> files (fst (newBlockCids L rs s))"
proof (induction rs arbitrary: s)
  case (Cons r rs)
  obtain s1 c where a: "ip_addFile L s r = (s1, c)" by (cases "ip_addFile L s r")
  with ipfs_okD(3) [OF L, of s r] Cons.IH [of s1] show ?case
    by (cases c) (auto simp: addReader_def split: prod.splits sum.splits)
qed simp

lemma AddReader_keeps:
  assumes L: "ipfs_ok cid files L" and add: "AddReader L r s = Some (s', res)"
  shows "files s \<subseteq> files s'"
proof -
  consider "s' = s" | rs where "s' = fst (newBlockCids L rs s)"
    | rs m where "s' = fst (ip_addFile L (fst (newBlockCids L rs s)) m)"
    using add
    by (auto simp: AddReader_def addReader_def split: option.splits prod.splits sum.splits) (metis fst_conv)+
  then show ?thesis
  proof cases
    case 3
    from newBlockCids_keeps [OF L, of s rs] ipfs_okD(3) [OF L, of "fst (newBlockCids L rs s)" m] 3
    show ?thesis by auto
  qed (use newBlockCids_keeps [OF L] in auto)
qed

section \<open>One file, one CID\<close>

lemma cg_addReader_eq: "cg_addReader = addReader"
  by (intro ext) (simp add: cg_addReader_def addReader_def)

lemma cg_newBlockCids_eq: "cg_newBlockCids = newBlockCids"
proof (intro ext)
  fix L :: "'a ipfs_lib" and rs s
  show "cg_newBlockCids L rs s = newBlockCids L rs s"
    by (induction rs arbitrary: s) (simp_all add: cg_addReader_eq)
qed

lemma cg_GetReader_eq: "cg_GetReader L r s = AddReader L r s"
  unfolding cg_GetReader_def AddReader_def cg_newBlockCids_eq cg_addReader_eq ..

text \<open>
  The CID depends on the blocks only, not on the peer: the getter predicts the CID another peer's
  \<open>Add\<close> gives, when both peers hash the same way.
\<close>

lemma getter_predicts:
  assumes "ipfs_ok cid files L" "ipfs_ok cid files' L'" "ip_cids L = ip_cids L'"
    and "AddReader L r s = Some (s1, Inr c)" "cg_GetReader L' r s' = Some (s2, Inr c')"
  shows "c = c'"
proof -
  from AddReader_parts [OF assms(1,4)] obtain rs m where 1: "splitToBlocks r = Some (Inr rs)"
    "c_marshal (ip_cids L) (map cid rs) = Inr m" "c = cid m" by metis
  from AddReader_parts [OF assms(2) assms(5) [unfolded cg_GetReader_eq]] obtain rs' m' where
    2: "splitToBlocks r = Some (Inr rs')" "c_marshal (ip_cids L') (map cid rs') = Inr m'" "c' = cid m'" by metis
  from 1 2 assms(3) show ?thesis by simp
qed

text \<open>
  But the blocks are what single \<open>Read\<close> calls return, so two readers of the same bytes that deliver
  them in different pieces get different CIDs.
\<close>

lemma blocks_decide:
  assumes L: "ipfs_ok cid files L" and inj: "inj_on cid (files s1 \<union> files s2)"
    and 1: "AddReader L r s = Some (s1, Inr c)" "splitToBlocks r = Some (Inr rs)"
    and 2: "AddReader L r' s' = Some (s2, Inr c')" "splitToBlocks r' = Some (Inr rs')"
  shows "c = c' \<longleftrightarrow> rs = rs'"
proof -
  from AddReader_parts [OF L 1(1)] 1(2) obtain m where
    m: "c_marshal (ip_cids L) (map cid rs) = Inr m" "c = cid m" "m \<in> files s1" "set rs \<subseteq> files s1"
    by force
  from AddReader_parts [OF L 2(1)] 2(2) obtain m' where
    m': "c_marshal (ip_cids L) (map cid rs') = Inr m'" "c' = cid m'" "m' \<in> files s2" "set rs' \<subseteq> files s2"
    by force
  have "c = c' \<longleftrightarrow> m = m'"
    using m(2,3) m'(2,3) inj by (auto dest: inj_onD)
  also have "m = m' \<longleftrightarrow> map cid rs = map cid rs'"
    using m(1) m'(1) ipfs_okD(6) [OF L] by (metis sum.inject(2))
  also have "\<dots> \<longleftrightarrow> rs = rs'"
    using m(4) m'(4) by (intro inj_on_map_eq_map inj_on_subset [OF inj]) blast
  finally show ?thesis .
qed

end
