(* ===== verification/FileScenario.thy ===== *)
theory FileScenario
  imports Scenario Ipfs Peers
begin

text \<open>
  The scenario of ipfs/test_util.go: a file that is added in two ways has one CID, another peer reads
  it in two ways, and a CID getter predicts the CID. The first peer is closed and opened again in
  between, so that the second one reads what its directory has kept.
\<close>

text \<open>
  \<open>s\<close> holds the first peer's files, \<open>t\<close> what the second peer can fetch, \<open>g\<close> the getter's own; the runs
  say what the calls of each opening return. The result are all that the scenario has closed, and
  what was read.
\<close>

definition BaseTestIpfs ::
  "('h, 'ma) net \<Rightarrow> 'h res \<Rightarrow> 'i ipfs_lib \<Rightarrow> 'i ipfs_lib \<Rightarrow> ipfs_run \<Rightarrow> ipfs_run \<Rightarrow> ipfs_run \<Rightarrow> cg_run \<Rightarrow>
    'i \<Rightarrow> 'i \<Rightarrow> 'i \<Rightarrow> (('h, 'ma) bootstrap \<times> ipfs_store list \<times> cidGetter \<times> bytes) test option" where
  "BaseTestIpfs N hGen L Lg R1 R2 R3 Rg s t g =
     await (Some (checked (snd (NewBootstrap N hGen [])))) (\<lambda>bstrp.
     await (Some (checked (snd (NewIpfsStore True R1)))) (\<lambda>ipfs.
     await (stopped (ipfs_Add L meow s)) (\<lambda>(s, c).
     await (stopped (AddReader L (buffer_reads meow) s)) (\<lambda>(s, c_2).
     await (Some (assertError (c = c_2) ''Add and AddReader must return the same cid'')) (\<lambda>_.
     let closed = ipfs_Close ipfs in
     await (Some (checked (snd (NewIpfsStore False R2)))) (\<lambda>ipfs.
     await (Some (checked (snd (NewIpfsStore False R3)))) (\<lambda>ipfs2.
     await (Some (checked (ipfs_Get L t c))) (\<lambda>v.
     await (Some (checked (GetReader L t c))) (\<lambda>b.
     await (Some (assertError (v = b) ''Get and GetReader must return the same bytes'')) (\<lambda>_.
     await (Some (checked (snd (NewCidGetter Rg)))) (\<lambda>cg.
     await (stopped (cg_Get Lg meow g)) (\<lambda>(g, c2).
     await (Some (assertError (c = c2) ''different cid for the same []byte'')) (\<lambda>_.
     Some (Inr (bootstrap_Close N bstrp, [closed, ipfs_Close ipfs, ipfs_Close ipfs2], cg_Close cg, v)))))))))))))))"

text \<open>
  It passes when the openings and the three calls that add report no error, all peers hash the same way,
  and the second peer can fetch what the first one holds. What the openings have opened is closed in
  the end, and only the directory of the first of them is kept.
\<close>

lemma ipfs_scenario_passes:
  assumes L: "ipfs_ok cid files L" and Lg: "ipfs_ok cid files' Lg" "ip_cids L = ip_cids Lg"
    and bst: "NewBootstrap N hGen [] = (left_open, Inr b)"
    and ipfs: "NewIpfsStore True R1 = (o1, Inr i1)" "NewIpfsStore False R2 = (o2, Inr i2)" "NewIpfsStore False R3 = (o3, Inr i3)"
    and cg: "NewCidGetter Rg = (o4, Inr cg)"
    and add: "ipfs_Add L meow s = Some (s1, Inr c)" "AddReader L (buffer_reads meow) s1 = Some (s2, Inr c')"
    and getter: "cg_Get Lg meow g = Some (g1, Inr c'')" and fetch: "files s2 \<subseteq> files t"
  shows "BaseTestIpfs N hGen L Lg R1 R2 R3 Rg s t g =
      Some (Inr (bootstrap_Close N b, map ipfs_Close [i1, i2, i3], cg_Close cg, meow))"
    and "map (set \<circ> is_closed \<circ> ipfs_Close) [i1, i2, i3] = map set [o1, o2, o3]"
    and "set (cg_closed (cg_Close cg)) = set o4"
    and "map (is_dirRemoved \<circ> ipfs_Close) [i1, i2, i3] = [False, True, True]"
proof -
  note add' = add(1) [unfolded ipfs_Add_def] and getter' = getter [unfolded cg_Get_def]
  have c: "c = c''" "c' = c''"
    using getter_predicts [OF L Lg add' getter'] getter_predicts [OF L Lg add(2) getter'] .
  from AddReader_parts [OF L add'] obtain rs m where rs: "splitToBlocks (buffer_reads meow) = Some (Inr rs)"
    and m: "c_marshal (ip_cids L) (map cid rs) = Inr m" "c = cid m" "m \<in> files s1" "set rs \<subseteq> files s1" .
  have "files s1 \<subseteq> files t" using AddReader_keeps [OF L add(2)] fetch by blast
  with m have "getReader L t c = Inr m" "getReadersFromBlockCids L t (map cid rs) = Inr rs"
    using getReader_added [OF L, of m t] getReaders_added [OF L, of rs t] by auto
  then have "GetReader L t c = Inr meow"
    using ipfs_okD(6) [OF L m(1)] split_merge [OF rs] by (simp add: GetReader_def blockCids_Unmarshal_def)
  then show "BaseTestIpfs N hGen L Lg R1 R2 R3 Rg s t g =
      Some (Inr (bootstrap_Close N b, map ipfs_Close [i1, i2, i3], cg_Close cg, meow))"
    using add getter c by (simp add: BaseTestIpfs_def ipfs_Get_def bst ipfs cg Let_def)
  note close = ipfs_Close_releases [OF ipfs(1)] ipfs_Close_releases [OF ipfs(2)] ipfs_Close_releases [OF ipfs(3)]
  then show "map (set \<circ> is_closed \<circ> ipfs_Close) [i1, i2, i3] = map set [o1, o2, o3]"
    "map (is_dirRemoved \<circ> ipfs_Close) [i1, i2, i3] = [False, True, True]" by simp_all
  show "set (cg_closed (cg_Close cg)) = set o4" by (rule cg_Close_releases [OF cg])
qed

end
