(* ===== verification/PubSub.thy ===== *)
theory PubSub
  imports Messages "HOL-Library.Multiset"
begin

text \<open>
  pubsub/pubsub.go: rooms of a gossip topic. Every message carries the publisher's clock; \<open>Publish\<close>
  and \<open>Get\<close> first make sure the room has peers, by making the whole pubsub stack anew up to fifty
  times, and \<open>GetAll\<close> collects what arrives until a second passes without a message, in the order of
  the publishers' clocks.

  The pubsub library, the host and the DHT are seen through what their calls return
  (\<open>ps_run\<close>, \<open>reset_obs\<close>, \<open>next_obs\<close>). A nil pointer that is dereferenced is the outcome \<open>Panic\<close>.
\<close>

datatype 'a outcome = Panic | Ret 'a

section \<open>Messages\<close>

record ps_message =
  pm_data :: slice
  pm_time :: slice

definition zero_ps_message :: ps_message where
  "zero_ps_message = \<lparr>pm_data = None, pm_time = None\<rparr>"

definition canon_ps_message :: "ps_message \<Rightarrow> ps_message" where
  "canon_ps_message m = m\<lparr>pm_data := canon_slice (pm_data m), pm_time := canon_slice (pm_time m)\<rparr>"

text \<open>The fields of \<open>p2ppubsub.Message\<close> the code uses: the data and who sent it.\<close>

record raw_message =
  rm_data :: slice
  rm_from :: bytes

record recievedMessage =
  rcv_data :: slice
  rcv_from :: bytes
  rcv_time :: gotime

definition encodeTopicName :: "string \<Rightarrow> string" where
  "encodeTopicName topicName = ''pubsub topic: '' @ topicName"

text \<open>The bytes \<open>Publish\<close> sends: the error of \<open>MarshalBinary\<close> is dropped.\<close>

definition publish_bytes :: "ps_message codec \<Rightarrow> gotime \<Rightarrow> slice \<Rightarrow> bytes res" where
  "publish_bytes c now data =
     (let t = marshal_or_nil (to_utc now) in c_marshal c \<lparr>pm_data = data, pm_time = t\<rparr>)"

definition convertMessage ::
  "ps_message codec \<Rightarrow> zone \<Rightarrow> raw_message option \<Rightarrow> recievedMessage res outcome" where
  "convertMessage c local mes =
     (case mes of
        None \<Rightarrow> Panic
      | Some m \<Rightarrow>
          Ret (case c_unmarshal c (contents (rm_data m)) of
             Inl err \<Rightarrow> Inl err
           | Inr rawMes \<Rightarrow>
               (case time_unmarshal local (contents (pm_time rawMes)) of
                  Inl err \<Rightarrow> Inl err
                | Inr t \<Rightarrow> Inr \<lparr>rcv_data = pm_data rawMes, rcv_from = rm_from m, rcv_time = t\<rparr>)))"

section \<open>Making the stack\<close>

record ps_run =
  pr_hGen :: "goerror option"
  pr_newDHT :: "goerror option"
  pr_newGossip :: "goerror option"
  pr_bootstrap :: "goerror option"
  pr_join :: "goerror option"
  pr_subscribe :: "goerror option"

text \<open>
  A \<open>pubSub\<close> is shared: the caller of \<open>NewPubSub\<close> holds it, and so does every room joined on it. So
  the objects live in a heap, a list whose indices are the addresses. \<open>px_ps\<close> says whether the field
  \<open>ps\<close> is non-nil, \<open>px_open\<close> whether the DHT and the host are open.
\<close>

record pubsub =
  px_ps :: bool
  px_open :: bool

type_synonym heap = "pubsub list"

definition NewPubSub :: "ps_run \<Rightarrow> heap \<Rightarrow> heap \<times> nat res" where
  "NewPubSub R H =
     (case pr_hGen R of
        Some err \<Rightarrow> (H, Inl err)
      | None \<Rightarrow>
     (case pr_newDHT R of
        Some err \<Rightarrow> (H, Inl err)
      | None \<Rightarrow>
     (case pr_newGossip R of
        Some err \<Rightarrow> (H, Inl err)
      | None \<Rightarrow>
     (case pr_bootstrap R of
        Some err \<Rightarrow> (H, Inl err)
      | None \<Rightarrow> (H @ [\<lparr>px_ps = True, px_open = True\<rparr>], Inr (length H))))))"

definition pubSub_Close :: "nat \<Rightarrow> heap \<Rightarrow> heap" where
  "pubSub_Close a H = H[a := (H ! a)\<lparr>px_ps := False, px_open := False\<rparr>]"

text \<open>
  A room: the topic, whether its topic and subscription are open, and the address in \<open>r.ps\<close>, nil
  once the room is closed.
\<close>

record room =
  rm_topicName :: string
  rm_open :: bool
  rm_ps :: "nat option"

text \<open>\<open>Join\<close> of go-libp2p-pubsub reads fields of its receiver, so on a nil one it panics.\<close>

definition JoinTopic :: "ps_run \<Rightarrow> heap \<Rightarrow> nat \<Rightarrow> string \<Rightarrow> room res outcome" where
  "JoinTopic R H a topicName =
     (if \<not> px_ps (H ! a) then Panic
      else Ret (case pr_join R of
        Some err \<Rightarrow> Inl err
      | None \<Rightarrow>
     (case pr_subscribe R of
        Some err \<Rightarrow> Inl err
      | None \<Rightarrow> Inr \<lparr>rm_topicName = topicName, rm_open = True, rm_ps = Some a\<rparr>)))"

definition room_Close :: "room \<Rightarrow> room" where
  "room_Close r = r\<lparr>rm_open := False, rm_ps := None\<rparr>"

text \<open>
  \<open>baseReset\<close> closes the old stack first; \<open>r.ps.Close()\<close> on a closed room dereferences nil. On an
  error the room is left with what it had, which is closed.
\<close>

definition baseReset :: "ps_run \<Rightarrow> heap \<Rightarrow> room \<Rightarrow> (heap \<times> room \<times> goerror option) outcome" where
  "baseReset R H r =
     (case rm_ps r of
        None \<Rightarrow> Panic
      | Some a \<Rightarrow>
          (let r1 = r\<lparr>rm_open := False\<rparr>
           in case NewPubSub R (pubSub_Close a H) of
             (H, Inl err) \<Rightarrow> Ret (H, r1, Some err)
           | (H, Inr ps) \<Rightarrow>
               (case JoinTopic R H ps (rm_topicName r) of
                  Panic \<Rightarrow> Panic
                | Ret (Inl err) \<Rightarrow> Ret (H, r1, Some err)
                | Ret (Inr r2) \<Rightarrow> Ret (H, r2, None))))"

text \<open>One turn of the loop of \<open>reset\<close>: the peers listed, and the run a reset would meet.\<close>

record reset_obs =
  ro_peers :: nat
  ro_run :: ps_run

definition N_reset :: nat where "N_reset = 50"

definition err_reset_timeout :: goerror where "err_reset_timeout = ErrNew ''connection reset timeout''"

fun resetLoop :: "reset_obs list \<Rightarrow> heap \<Rightarrow> room \<Rightarrow> (heap \<times> room \<times> goerror option) outcome" where
  "resetLoop [] H r = Ret (H, r, Some err_reset_timeout)"
| "resetLoop (ob # obs) H r =
     (if 0 < ro_peers ob then Ret (H, r, None)
      else case baseReset (ro_run ob) H r of
        Panic \<Rightarrow> Panic
      | Ret (H, r, Some err) \<Rightarrow> Ret (H, r, Some err)
      | Ret (H, r, None) \<Rightarrow> resetLoop obs H r)"

definition reset :: "(nat \<Rightarrow> reset_obs) \<Rightarrow> heap \<Rightarrow> room \<Rightarrow> (heap \<times> room \<times> goerror option) outcome" where
  "reset world H r = resetLoop (map world [0..<N_reset]) H r"

text \<open>\<open>publish\<close> is the result of the topic's \<open>Publish\<close> for the bytes it is given.\<close>

definition room_Publish ::
  "ps_message codec \<Rightarrow> gotime \<Rightarrow> (nat \<Rightarrow> reset_obs) \<Rightarrow> (bytes \<Rightarrow> goerror option) \<Rightarrow> slice \<Rightarrow> heap \<Rightarrow> room \<Rightarrow>
    (heap \<times> room \<times> goerror option) outcome" where
  "room_Publish c now world publish data H r =
     (case publish_bytes c now data of
        Inl err \<Rightarrow> Ret (H, r, Some err)
      | Inr mm \<Rightarrow>
          (case reset world H r of
             Panic \<Rightarrow> Panic
           | Ret (H, r, Some err) \<Rightarrow> Ret (H, r, Some err)
           | Ret (H, r, None) \<Rightarrow> Ret (H, r, publish mm)))"

text \<open>
  What \<open>sub.Next\<close> returns, and whether the one-second context is done by then: \<open>Next\<close> returns nil
  and the context's error when no message came.
\<close>

record next_obs =
  nx_mes :: "raw_message option"
  nx_err :: "goerror option"
  nx_done :: bool

definition room_Get ::
  "ps_message codec \<Rightarrow> zone \<Rightarrow> (nat \<Rightarrow> reset_obs) \<Rightarrow> next_obs \<Rightarrow> heap \<Rightarrow> room \<Rightarrow>
    (heap \<times> room \<times> recievedMessage res) outcome" where
  "room_Get c local world nx H r =
     (case reset world H r of
        Panic \<Rightarrow> Panic
      | Ret (H, r, Some err) \<Rightarrow> Ret (H, r, Inl err)
      | Ret (H, r, None) \<Rightarrow>
          (case (if nx_done nx then convertMessage c local (nx_mes nx)
                 else case nx_err nx of
                   Some err \<Rightarrow> Ret (Inl err)
                 | None \<Rightarrow> convertMessage c local (nx_mes nx)) of
             Panic \<Rightarrow> Panic
           | Ret m \<Rightarrow> Ret (H, r, m)))"

text \<open>\<open>sort.Slice\<close> with the comparison \<open>mess[i].Time.Before(mess[j].Time)\<close>; \<open>sortSlice\<close> is the sort.\<close>

type_synonym sorter =
  "(recievedMessage \<Rightarrow> recievedMessage \<Rightarrow> bool) \<Rightarrow> recievedMessage list \<Rightarrow> recievedMessage list"

definition mess_less :: "recievedMessage \<Rightarrow> recievedMessage \<Rightarrow> bool" where
  "mess_less a b = time_before (rcv_time a) (rcv_time b)"

definition messSort :: "sorter \<Rightarrow> recievedMessage list \<Rightarrow> recievedMessage list" where
  "messSort sortSlice mess = sortSlice mess_less mess"

text \<open>The loop of \<open>GetAll\<close>; \<open>None\<close>: the calls of \<open>Next\<close> given do not decide.\<close>

fun getAllLoop ::
  "ps_message codec \<Rightarrow> zone \<Rightarrow> sorter \<Rightarrow> recievedMessage list \<Rightarrow> next_obs list \<Rightarrow>
    recievedMessage list res outcome option" where
  "getAllLoop c local srt mess [] = None"
| "getAllLoop c local srt mess (nx # nxs) =
     (if nx_done nx then Some (Ret (Inr (if 0 < length mess then messSort srt mess else mess)))
      else case nx_err nx of
        Some err \<Rightarrow> Some (Ret (Inl err))
      | None \<Rightarrow>
          (case convertMessage c local (nx_mes nx) of
             Panic \<Rightarrow> Some Panic
           | Ret (Inl _) \<Rightarrow> getAllLoop c local srt mess nxs
           | Ret (Inr rMes) \<Rightarrow> getAllLoop c local srt (mess @ [rMes]) nxs))"

definition room_GetAll ::
  "ps_message codec \<Rightarrow> zone \<Rightarrow> sorter \<Rightarrow> next_obs list \<Rightarrow> recievedMessage list res outcome option" where
  "room_GetAll c local srt nxs = getAllLoop c local srt [] nxs"

section \<open>Publish, then receive\<close>

lemma publish_convert:
  assumes c: "codec_ok zero_ps_message canon_ps_message c" and now: "wf_time now"
    and pub: "publish_bytes c now data = Inr mm"
  shows "convertMessage c local (Some \<lparr>rm_data = Some mm, rm_from = from\<rparr>) =
    Ret (Inr \<lparr>rcv_data = canon_slice data, rcv_from = from, rcv_time = strip_mono (to_utc now)\<rparr>)"
proof -
  from time_roundtrip_UTC [OF wf_time_to_utc [OF now], of local] obtain mt where
    mt: "time_marshal (to_utc now) = Inr mt" "time_unmarshal local mt = Inr (strip_mono (to_utc now))"
    by auto
  have "mt \<noteq> []" using mt(1) by (auto dest: time_marshal_zero_length)
  from codec_okD [OF c pub [unfolded publish_bytes_def Let_def]] mt \<open>mt \<noteq> []\<close> show ?thesis
    by (simp add: convertMessage_def marshal_or_nil_def canon_ps_message_def)
qed

section \<open>Resetting\<close>

definition run_ok :: "ps_run \<Rightarrow> bool" where
  "run_ok R \<longleftrightarrow> pr_hGen R = None \<and> pr_newDHT R = None \<and> pr_newGossip R = None
     \<and> pr_bootstrap R = None \<and> pr_join R = None \<and> pr_subscribe R = None"

lemma length_pubSub_Close [simp]: "length (pubSub_Close a H) = length H"
  by (simp add: pubSub_Close_def)

lemma nth_fresh [simp]: "(pubSub_Close a H @ [x]) ! length H = x"
  by (simp add: nth_append)

text \<open>
  A reset that succeeds closes the stack the room had, for everybody who holds it, and gives the room
  a stack of its own at a fresh address.
\<close>

lemma baseReset_ok:
  "rm_ps r = Some a \<Longrightarrow> run_ok R \<Longrightarrow>
     baseReset R H r = Ret (pubSub_Close a H @ [\<lparr>px_ps = True, px_open = True\<rparr>],
       r\<lparr>rm_open := True, rm_ps := Some (length H)\<rparr>, None)"
  by (cases r) (simp add: baseReset_def NewPubSub_def JoinTopic_def run_ok_def Let_def)

lemma NewPubSub_cases:
  obtains err where "NewPubSub R H = (H, Inl err)"
  | "NewPubSub R H = (H @ [\<lparr>px_ps = True, px_open = True\<rparr>], Inr (length H))"
  by (cases "pr_hGen R"; cases "pr_newDHT R"; cases "pr_newGossip R"; cases "pr_bootstrap R")
    (auto simp: NewPubSub_def)

text \<open>What a reset keeps: the room has a stack, and a stack that was closed stays closed.\<close>

definition px_dead :: "nat \<Rightarrow> heap \<Rightarrow> bool" where
  "px_dead a H \<longleftrightarrow> a < length H \<and> \<not> px_ps (H ! a) \<and> \<not> px_open (H ! a)"

lemma dead_Close: "px_dead a H \<Longrightarrow> px_dead a (pubSub_Close b H)" "a < length H \<Longrightarrow> px_dead a (pubSub_Close a H)"
  by (cases "a = b"; auto simp: px_dead_def pubSub_Close_def)+

lemma dead_append: "px_dead a H \<Longrightarrow> px_dead a (H @ Hs)"
  by (simp add: px_dead_def nth_append)

lemma baseReset_cases:
  assumes "rm_ps r = Some a"
  obtains (failed) err Hs where "baseReset R H r = Ret (pubSub_Close a H @ Hs, r\<lparr>rm_open := False\<rparr>, Some err)"
  | (made) "baseReset R H r = Ret (pubSub_Close a H @ [\<lparr>px_ps = True, px_open = True\<rparr>],
       r\<lparr>rm_open := True, rm_ps := Some (length H)\<rparr>, None)"
proof (cases rule: NewPubSub_cases [of R "pubSub_Close a H"])
  case (1 err)
  with assms show ?thesis by (intro failed [of "[]"]) (simp add: baseReset_def Let_def)
next
  case new: 2
  show ?thesis
  proof (cases "pr_join R = None \<and> pr_subscribe R = None")
    case True
    with assms new show ?thesis by (intro made) (simp add: baseReset_def Let_def JoinTopic_def)
  next
    case False
    then obtain err where "JoinTopic R (pubSub_Close a H @ [\<lparr>px_ps = True, px_open = True\<rparr>]) (length H) (rm_topicName r) =
        Ret (Inl err)"
      by (cases "pr_join R"; cases "pr_subscribe R") (auto simp: JoinTopic_def)
    with assms new show ?thesis by (intro failed) (simp add: baseReset_def Let_def)
  qed
qed

lemma baseReset_keeps:
  assumes "rm_ps r = Some a" "a < length H"
  obtains H' r' err b where "baseReset R H r = Ret (H', r', err)" "rm_ps r' = Some b" "b < length H'"
    "rm_topicName r' = rm_topicName r" "px_dead a H'" "length H \<le> length H'" "\<And>a. px_dead a H \<Longrightarrow> px_dead a H'"
  using assms(2) dead_Close dead_append
  by (cases rule: baseReset_cases [OF assms(1), of R H]) (force intro: that simp: assms(1))+

text \<open>A room with its stack never panics in a reset.\<close>

lemma resetLoop_no_panic: "rm_ps r = Some a \<Longrightarrow> a < length H \<Longrightarrow> resetLoop obs H r \<noteq> Panic"
proof (induction obs arbitrary: H r a)
  case (Cons ob obs)
  obtain H' r' err b where "baseReset (ro_run ob) H r = Ret (H', r', err)" "rm_ps r' = Some b" "b < length H'"
    by (rule baseReset_keeps [OF Cons.prems])
  with Cons.IH [of r' b H'] show ?case by (auto split: option.splits)
qed simp

text \<open>A reset keeps dead what is dead; and if its first turn finds no peers, it kills the room's stack.\<close>

lemma resetLoop_dead:
  "rm_ps r = Some a \<Longrightarrow> a < length H \<Longrightarrow> resetLoop obs H r = Ret (H', r', err) \<Longrightarrow> px_dead b H \<Longrightarrow> px_dead b H'"
proof (induction obs arbitrary: H r a)
  case (Cons ob obs)
  obtain H1 r1 err1 a1 where "baseReset (ro_run ob) H r = Ret (H1, r1, err1)" "rm_ps r1 = Some a1" "a1 < length H1"
    "px_dead b H1"
    by (rule baseReset_keeps [OF Cons.prems(1,2)]) (use Cons.prems(4) in blast)
  with Cons.IH [of r1 a1 H1] Cons.prems show ?case by (auto split: if_splits option.splits)
qed simp

lemma resetLoop_kills:
  assumes "rm_ps r = Some a" "a < length H" "ro_peers ob = 0" "resetLoop (ob # obs) H r = Ret (H', r', err)"
  shows "px_dead a H'"
proof -
  obtain H1 r1 err1 a1 where b: "baseReset (ro_run ob) H r = Ret (H1, r1, err1)" "rm_ps r1 = Some a1" "a1 < length H1"
    "px_dead a H1"
    by (rule baseReset_keeps [OF assms(1,2)]) blast
  with assms resetLoop_dead [OF b(2,3) _ b(4)] show ?thesis by (auto split: option.splits)
qed

text \<open>
  When every stack can be made, the reset succeeds exactly if some turn finds peers; it then has
  made as many stacks as turns found none.
\<close>

lemma resetLoop_peers:
  assumes "rm_ps r = Some a" "list_all (\<lambda>ob. run_ok (ro_run ob)) obs"
  shows "\<exists>H' r'. resetLoop obs H r =
      Ret (H', r', if (\<exists>ob \<in> set obs. 0 < ro_peers ob) then None else Some err_reset_timeout)
    \<and> length H' = length H + length (takeWhile (\<lambda>ob. ro_peers ob = 0) obs)"
  using assms
proof (induction obs arbitrary: H r a)
  case (Cons ob obs)
  show ?case
  proof (cases "ro_peers ob = 0")
    case True
    with Cons.prems baseReset_ok [of r a "ro_run ob" H]
      Cons.IH [of "r\<lparr>rm_open := True, rm_ps := Some (length H)\<rparr>" "length H"
        "pubSub_Close a H @ [\<lparr>px_ps = True, px_open = True\<rparr>]"]
    show ?thesis by simp
  qed simp
qed simp

lemma reset_count: "length (map world [0..<N_reset]) = 50"
  by (simp add: N_reset_def)

lemma reset_first: "map world [0..<N_reset] = world 0 # map world [1..<N_reset]"
  by (simp add: N_reset_def upt_rec)

section \<open>Reading one message\<close>

text \<open>
  When the second passes without a message, \<open>Next\<close> has returned nil and \<open>Get\<close> converts that nil
  message all the same, instead of returning the error.
\<close>

lemma room_Get_timeout:
  assumes "reset world H r = Ret (H', r', None)" "nx_mes nx = None" "nx_done nx"
  shows "room_Get c local world nx H r = Panic"
  using assms by (simp add: room_Get_def convertMessage_def)

lemma room_Get_message:
  assumes "reset world H r = Ret (H', r', None)" "nx_mes nx = Some m" "nx_err nx = None"
  obtains res where "convertMessage c local (Some m) = Ret res" "room_Get c local world nx H r = Ret (H', r', res)"
  using assms by (auto simp: room_Get_def convertMessage_def)

section \<open>Reading all messages\<close>

text \<open>The messages that can be read, in the order of arrival.\<close>

fun readable :: "ps_message codec \<Rightarrow> zone \<Rightarrow> next_obs list \<Rightarrow> recievedMessage list" where
  "readable c local [] = []"
| "readable c local (nx # nxs) =
     (case convertMessage c local (nx_mes nx) of
        Ret (Inr m) \<Rightarrow> m # readable c local nxs
      | _ \<Rightarrow> readable c local nxs)"

definition sorter_ok :: "sorter \<Rightarrow> bool" where
  "sorter_ok srt \<longleftrightarrow> (\<forall>lt xs. mset (srt lt xs) = mset xs
     \<and> ((\<forall>a \<in> set xs. \<forall>b \<in> set xs. lt a b \<longrightarrow> \<not> lt b a)
        \<and> (\<forall>a \<in> set xs. \<forall>b \<in> set xs. \<forall>c \<in> set xs. lt a b \<longrightarrow> lt a c \<or> lt c b)
        \<longrightarrow> sorted_wrt (\<lambda>a b. \<not> lt b a) (srt lt xs)))"

lemma getAllLoop_run:
  assumes "list_all (\<lambda>nx. \<not> nx_done nx \<and> nx_err nx = None \<and> nx_mes nx \<noteq> None) nxs" "nx_done fin"
  shows "getAllLoop c local srt mess (nxs @ fin # rest) =
    Some (Ret (Inr (let all = mess @ readable c local nxs
                    in if 0 < length all then messSort srt all else all)))"
  using assms
proof (induction nxs arbitrary: mess)
  case (Cons nx nxs)
  then obtain m where m: "nx_mes nx = Some m" "\<not> nx_done nx" "nx_err nx = None" by auto
  obtain res where res: "convertMessage c local (Some m) = Ret res" by (auto simp: convertMessage_def)
  from Cons m res show ?case by (cases res) (auto simp: Let_def)
qed (simp add: Let_def)

lemma convert_no_mono: "convertMessage c local mes = Ret (Inr m) \<Longrightarrow> no_mono (rcv_time m)"
  by (auto simp: convertMessage_def dest: time_unmarshal_no_mono split: option.splits sum.splits)

lemma readable_no_mono: "m \<in> set (readable c local nxs) \<Longrightarrow> no_mono (rcv_time m)"
  by (induction nxs) (auto dest: convert_no_mono split: outcome.splits sum.splits)

lemma mess_less_instant:
  "no_mono (rcv_time a) \<Longrightarrow> no_mono (rcv_time b) \<Longrightarrow>
     mess_less a b \<longleftrightarrow> instant_of (rcv_time a) < instant_of (rcv_time b)"
  by (simp add: mess_less_def time_before_instant)

text \<open>\<open>GetAll\<close> returns the readable messages sorted by the publishers' clocks.\<close>

lemma room_GetAll_sorted:
  assumes srt: "sorter_ok srt"
    and run: "list_all (\<lambda>nx. \<not> nx_done nx \<and> nx_err nx = None \<and> nx_mes nx \<noteq> None) nxs" "nx_done fin"
  obtains ms where "room_GetAll c local srt (nxs @ fin # rest) = Some (Ret (Inr ms))"
    "mset ms = mset (readable c local nxs)"
    "sorted_wrt (\<lambda>a b. instant_of (rcv_time a) \<le> instant_of (rcv_time b)) ms"
proof -
  let ?all = "readable c local nxs"
  let ?ms = "if 0 < length ?all then messSort srt ?all else ?all"
  have get: "room_GetAll c local srt (nxs @ fin # rest) = Some (Ret (Inr ?ms))"
    unfolding room_GetAll_def getAllLoop_run [OF run] by (simp add: Let_def)
  have perm: "mset ?ms = mset ?all"
    using srt by (simp add: sorter_ok_def messSort_def)
  have less: "mess_less a b \<longleftrightarrow> instant_of (rcv_time a) < instant_of (rcv_time b)"
    if "a \<in> set ?all" "b \<in> set ?all" for a b
    using mess_less_instant [OF readable_no_mono [OF that(1)] readable_no_mono [OF that(2)]] .
  have "sorted_wrt (\<lambda>a b. \<not> mess_less b a) ?ms"
  proof (cases "?all = []")
    case False
    have "sorted_wrt (\<lambda>a b. \<not> mess_less b a) (srt mess_less ?all)"
    proof -
      have asym: "\<forall>a \<in> set ?all. \<forall>b \<in> set ?all. mess_less a b \<longrightarrow> \<not> mess_less b a"
        by (auto simp: less)
      have trans: "\<forall>a \<in> set ?all. \<forall>b \<in> set ?all. \<forall>c \<in> set ?all. mess_less a b \<longrightarrow> mess_less a c \<or> mess_less c b"
        by (auto simp: less not_less intro: less_le_trans)
      from srt asym trans show ?thesis unfolding sorter_ok_def by blast
    qed
    with False show ?thesis by (simp add: messSort_def)
  qed simp
  moreover have "set ?ms = set ?all" using perm by (rule mset_eq_setD)
  ultimately have "sorted_wrt (\<lambda>a b. instant_of (rcv_time a) \<le> instant_of (rcv_time b)) ?ms"
    by (elim sorted_wrt_mono_rel [rotated]) (auto simp: less not_less)
  from that [OF get perm this] show thesis .
qed

end
