(* ===== verification/Acceptance.thy ===== *)
theory Acceptance
  imports AccessScenario FileScenario Peers
begin

text \<open>
  The scenarios of crdt/*_test_util.go as a whole: a bootstrap node is started and its address printed,
  one peer opens a store by name, another loads it by the address the first one gives, and then the
  scenario runs. The lemmas show that the second peer then holds the same store as the first, so that
  the scenarios of the other theories apply.
\<close>

section \<open>Opening the stores\<close>

text \<open>
  What one call of \<open>newStore\<close> meets, given the bootstrap peer it connects to: its turns, the last
  attempt, and the random bytes of \<open>loadAccessStore\<close>.
\<close>

record 'd open_run =
  op_tries :: "nat \<Rightarrow> 'd attempt \<times> 'd load_event list"
  op_last :: "'d attempt"
  op_rnd :: bytes

definition open_store ::
  "('d, 'priv, 'pub) env \<Rightarrow> 'ma util_lib \<Rightarrow> ('ma addr_info \<Rightarrow> 'd open_run) \<Rightarrow> string \<Rightarrow> string \<Rightarrow> string \<Rightarrow>
    ('priv, 'pub) store_opts list \<Rightarrow> (('d, 'priv, 'pub) world \<times> ('d, 'priv, 'pub) store) test option" where
  "open_store E U net name md bAddrInfo opts =
     (let bai = AddrInfoFromString U bAddrInfo
      in test_newStore E name md (op_tries (net bai)) (op_last (net bai)) (op_rnd (net bai)) opts)"

text \<open>The constructor of a new store fills in the options it is given through their pointer.\<close>

definition left_opts ::
  "('d, 'priv, 'pub) env \<Rightarrow> 'ma util_lib \<Rightarrow> ('ma addr_info \<Rightarrow> 'd open_run) \<Rightarrow> string \<Rightarrow> string \<Rightarrow> string \<Rightarrow>
    ('priv, 'pub) store_opts \<Rightarrow> ('priv, 'pub) store_opts" where
  "left_opts E U net name md bAddrInfo opt =
     (let bai = AddrInfoFromString U bAddrInfo
      in hd (snd (snd (selectNewStore E False name md (op_last (net bai)) [opt]))))"

text \<open>The bootstrap node every scenario starts, prints the address of, and closes in the end.\<close>

definition with_bootstrap ::
  "('h, 'ma) net \<Rightarrow> 'ma util_lib \<Rightarrow> 'h res \<Rightarrow> (string \<Rightarrow> 'a test option) \<Rightarrow>
    (('h, 'ma) bootstrap \<times> 'a) test option" where
  "with_bootstrap N U hGen body =
     await (Some (checked (snd (NewBootstrap N hGen [])))) (\<lambda>bstrp.
     let bAddrInfo = bootstrap_AddrInfo N bstrp; baiStr = AddrInfoToString U bAddrInfo in
     await (body baiStr) (\<lambda>a. Some (Inr (bootstrap_Close N bstrp, a))))"

section \<open>The scenarios\<close>

definition BaseTestLogStore_all ::
  "('d, 'priv, 'pub) env \<Rightarrow> 'ma util_lib \<Rightarrow> ('ma addr_info \<Rightarrow> 'd open_run) \<Rightarrow> ('ma addr_info \<Rightarrow> 'd open_run) \<Rightarrow>
    gotime \<Rightarrow> gotime \<Rightarrow> 'd \<Rightarrow> 'd \<Rightarrow> string \<Rightarrow>
    (('d, 'priv, 'pub) store \<times> ('d, 'priv, 'pub) store \<times> test_log list) test option" where
  "BaseTestLogStore_all E U net0 net1 now1 now2 d1 d2 baiStr =
     await (open_store E U net0 ''lg'' ''log'' baiStr []) (\<lambda>(_, db0).
     await (open_store E U net1 (st_Address E db0) ''log'' baiStr []) (\<lambda>(_, db1).
     Some (BaseTestLogStore E now1 now2 d1 d2 db0 db1)))"

definition BaseTestSignatureStore_all ::
  "('d, 'priv, 'pub) env \<Rightarrow> 'ma util_lib \<Rightarrow> ('ma addr_info \<Rightarrow> 'd open_run) \<Rightarrow> ('ma addr_info \<Rightarrow> 'd open_run) \<Rightarrow>
    gotime \<Rightarrow> gotime \<Rightarrow> 'd \<Rightarrow> 'd \<Rightarrow> string \<Rightarrow>
    (('d, 'priv, 'pub) store \<times> ('d, 'priv, 'pub) store \<times> test_log list) test option" where
  "BaseTestSignatureStore_all E U net0 net1 now1 now2 d1 d2 baiStr =
     (let opts0 = empty_opts in
      await (open_store E U net0 ''sg'' ''signature'' baiStr [opts0]) (\<lambda>(_, db0).
      let opts0 = left_opts E U net0 ''sg'' ''signature'' baiStr opts0 in
      await (open_store E U net1 (st_Address E db0) ''signature'' baiStr []) (\<lambda>(_, db1).
      Some (BaseTestSignatureStore E (so_Pub opts0) now1 now2 d1 d2 db0 db1))))"

definition BaseTestUpdatableSignatureStore_all ::
  "('d, 'priv, 'pub) env \<Rightarrow> 'ma util_lib \<Rightarrow> ('ma addr_info \<Rightarrow> 'd open_run) \<Rightarrow> ('ma addr_info \<Rightarrow> 'd open_run) \<Rightarrow>
    gotime \<Rightarrow> gotime \<Rightarrow> 'd \<Rightarrow> 'd \<Rightarrow> string \<Rightarrow>
    (('d, 'priv, 'pub) store \<times> ('d, 'priv, 'pub) store \<times> test_log list) test option" where
  "BaseTestUpdatableSignatureStore_all E U net0 net1 now1 now2 d1 d2 baiStr =
     (let opts0 = empty_opts in
      await (open_store E U net0 ''us'' ''updatableSignature'' baiStr [opts0]) (\<lambda>(_, db0).
      let opts0 = left_opts E U net0 ''us'' ''updatableSignature'' baiStr opts0 in
      await (open_store E U net1 (st_Address E db0) ''updatableSignature'' baiStr []) (\<lambda>(_, db1).
      Some (BaseTestUpdatableSignatureStore E (so_Pub opts0) now1 now2 d1 d2 db0 db1))))"

text \<open>Both openings of the hash scenario are given the same options.\<close>

definition BaseTestHashStore_all ::
  "('d, 'priv, 'pub) env \<Rightarrow> 'ma util_lib \<Rightarrow> ('ma addr_info \<Rightarrow> 'd open_run) \<Rightarrow> ('ma addr_info \<Rightarrow> 'd open_run) \<Rightarrow>
    gotime \<Rightarrow> gotime \<Rightarrow> 'd \<Rightarrow> 'd \<Rightarrow> string \<Rightarrow>
    (('d, 'priv, 'pub) store \<times> ('d, 'priv, 'pub) store \<times> test_log list) test option" where
  "BaseTestHashStore_all E U net0 net1 now1 now2 d1 d2 baiStr =
     (let opts = empty_opts in
      await (open_store E U net0 ''hs'' ''hash'' baiStr [opts]) (\<lambda>(_, db0).
      let opts = left_opts E U net0 ''hs'' ''hash'' baiStr opts in
      await (open_store E U net1 (st_Address E db0) ''hash'' baiStr [opts]) (\<lambda>(_, db1).
      Some (BaseTestHashStore E now1 now2 d1 d2 db0 db1))))"

definition testHashAccess_all ::
  "('d, 'priv, 'pub) env \<Rightarrow> 'ma util_lib \<Rightarrow> ('ma addr_info \<Rightarrow> 'd open_run) \<Rightarrow> ('ma addr_info \<Rightarrow> 'd open_run) \<Rightarrow>
    bytes \<Rightarrow> gotime \<times> bytes \<Rightarrow> gotime \<Rightarrow> gotime \<Rightarrow> 'd \<Rightarrow> 'd \<Rightarrow> string \<Rightarrow>
    (('d, 'priv, 'pub) store \<times> ('d, 'priv, 'pub) store \<times> test_log list) test option" where
  "testHashAccess_all E U net0 net1 rnd grant now1 now2 d1 d2 baiStr =
     (let opts = empty_opts in
      await (open_store E U net0 ''hs'' ''hash'' baiStr [opts]) (\<lambda>(_, db0).
      await (Some (newAccessStore E rnd db0 [(st_putKey E db0 ''aaa'', grant)])) (\<lambda>db0.
      await (open_store E U net1 (st_Address E db0) ''hash'' baiStr []) (\<lambda>(_, db1).
      Some (testHashAccess E now1 now2 d1 d2 db0 db1)))))"

definition testSignatureAccess_all ::
  "('d, 'priv, 'pub) env \<Rightarrow> 'ma util_lib \<Rightarrow> ('ma addr_info \<Rightarrow> 'd open_run) \<Rightarrow> ('ma addr_info \<Rightarrow> 'd open_run) \<Rightarrow>
    bytes \<Rightarrow> bytes \<Rightarrow> gotime \<times> bytes \<Rightarrow> gotime \<Rightarrow> 'd \<Rightarrow> string \<Rightarrow>
    (('d, 'priv, 'pub) store \<times> ('d, 'priv, 'pub) store \<times> test_log list) test option" where
  "testSignatureAccess_all E U net0 net1 rndKey rnd grant now1 d1 baiStr =
     (let (priv, pub) = gen_pair E rndKey;
          opts0 = empty_opts\<lparr>so_Priv := priv, so_Pub := pub\<rparr> in
      await (open_store E U net0 ''us'' ''updatableSignature'' baiStr [opts0]) (\<lambda>(_, db0).
      let opts0 = left_opts E U net0 ''us'' ''updatableSignature'' baiStr opts0;
          pid = PubKeyToStr (lib_id E) (crypto E) pub in
      await (Some (newAccessStore E rnd db0 [(pid, grant)])) (\<lambda>db0.
      await (open_store E U net1 (st_Address E db0) ''updatableSignature'' baiStr []) (\<lambda>(_, db1).
      Some (testSignatureAccess E (so_Pub opts0) now1 d1 db0 db1)))))"

text \<open>The two access scenarios are run one after the other, with the address of one bootstrap node.\<close>

definition BaseTestAccessController ::
  "('h, 'ma) net \<Rightarrow> 'ma util_lib \<Rightarrow> 'h res \<Rightarrow> (string \<Rightarrow> 'a test option) \<Rightarrow> (string \<Rightarrow> 'b test option) \<Rightarrow>
    (('h, 'ma) bootstrap \<times> 'a \<times> 'b) test option" where
  "BaseTestAccessController N U hGen hashAccess signatureAccess =
     with_bootstrap N U hGen (\<lambda>baiStr.
       await (hashAccess baiStr) (\<lambda>a.
       await (signatureAccess baiStr) (\<lambda>b.
       Some (Inr (a, b)))))"

text \<open>\<open>key\<close> is the key pair the scenario generates, \<open>end'\<close> thirty seconds after its start.\<close>

definition BaseTestTimeLimit_all ::
  "('d, 'priv, 'pub) env \<Rightarrow> 'ma util_lib \<Rightarrow> ('ma addr_info \<Rightarrow> 'd open_run) \<Rightarrow> ('ma addr_info \<Rightarrow> 'd open_run) \<Rightarrow>
    'priv option \<times> 'pub option \<Rightarrow> gotime \<Rightarrow> bytes \<Rightarrow> gotime \<times> bytes \<Rightarrow> gotime \<Rightarrow> string \<Rightarrow>
    (('d, 'priv, 'pub) store \<times> ('d, 'priv, 'pub) store) test option" where
  "BaseTestTimeLimit_all E U net0 net1 key end' rnd grant now1 baiStr =
     (let (priv, pub) = key;
          opts0 = \<lparr>so_Salt = None, so_Priv = priv, so_Pub = pub, so_TimeLimit = end'\<rparr> in
      await (open_store E U net0 ''us'' ''updatableSignature'' baiStr [opts0]) (\<lambda>(_, db0).
      let opts0 = left_opts E U net0 ''us'' ''updatableSignature'' baiStr opts0;
          pid = PubKeyToStr (lib_id E) (crypto E) pub in
      await (Some (newAccessStore E rnd db0 [(pid, grant)])) (\<lambda>db0.
      let (db0, err) = st_Put E now1 ''aaa'' meow db0 in
      await (Some (checkError err)) (\<lambda>_.
      await (open_store E U net1 (st_Address E db0) ''updatableSignature'' baiStr []) (\<lambda>(_, db1).
      Some (BaseTestTimeLimit E (so_Pub opts0) db0 db1))))))"

section \<open>A store that was opened by name\<close>

lemma with_limit_table [simp]: "base_table els (with_limit now lim st) = base_table els st"
  by (simp add: with_limit_def base_setTimeLimit_def base_table_def)

lemma initCRDT_data:
  assumes "initCRDT save name R = (opened, Inr s)" "run_crdtNew R = Inr d"
  shows "bs_dt s = d"
  using assms setupStore_ok(2) [of R]
  by (auto simp: initCRDT_def split: option.splits prod.splits sum.splits)

lemma selectNewStore_table:
  assumes sel: "selectNewStore E save name md A [opt] = (opened, Inr s, opts)" and d: "run_crdtNew (at_run A) = Inr d"
  shows "st_table els s = els d"
proof -
  obtain op r where i: "initCRDT save name (at_run A) = (op, r)" by (cases "initCRDT save name (at_run A)")
  have "bs_dt st = d" if "r = Inr st" for st
    by (rule initCRDT_data [OF i [unfolded that] d])
  then show ?thesis
    using sel i by (auto simp: selectNewStore_def NewLogStore_def NewUpdatableStore_def NewSignatureStore_def
        NewUpdatableSignatureStore_def NewHashStore_def st_table_def base_table_def with_limit_def base_setTimeLimit_def
        Let_def split: if_splits prod.splits sum.splits)
qed

lemma selectNewStore_keys:
  assumes "selectNewStore E save name md A [opt] = (opened, Inr s, opts)"
  shows "signed_mode (mode_of md) \<Longrightarrow> signing_pub s = so_Pub (hd opts)"
    and "signed_mode (mode_of md) \<Longrightarrow> so_Pub opt \<noteq> None \<Longrightarrow> so_Pub (hd opts) = so_Pub opt"
    and "mode_of md = MHash \<Longrightarrow> so_Salt opt = None \<Longrightarrow> salt_of s = Some (at_rnd A)"
    and "mode_of md = MHash \<Longrightarrow> so_Salt (hd opts) = salt_of s"
  using assms
  by (auto simp: selectNewStore_def NewLogStore_def NewUpdatableStore_def NewSignatureStore_def mode_of_def
      NewUpdatableSignatureStore_def NewHashStore_def getSignatureOpts_def getUpdatableSignatureOpts_def getHashOpts_def
      salt_of_def signed_mode_def Let_def split: if_splits prod.splits sum.splits)

text \<open>The first record of a store is a put of its name.\<close>

lemma initPut_Put:
  "\<nexists>b p q. s = AccessStore b p q \<Longrightarrow>
    st_initPut E now s = st_Put E now (bs_name (st_base s)) (bytes_of_string (bs_name (st_base s))) s"
  by (cases s) (simp_all add: base_initPut_def upd_initPut_def sg_initPut_def sg_Put_def us_initPut_def us_Put_def
      hs_initPut_def hs_Put_def Let_def)

lemma autoSync_table [simp]:
  assumes "env_ok E els"
  shows "st_table els (st_autoSync E s) = st_table els s"
proof -
  have "base_table els (base_autoSync E b) = base_table els b" for b
    using ds_okD(7) [OF env_okD(1) [OF assms], of "bs_dt b"]
    by (auto simp: base_autoSync_def base_table_def split: prod.split option.split)
  then show ?thesis by (simp add: st_autoSync_def st_table_def)
qed

text \<open>
  A store opened by name on empty data: it has the constructor's face, and holds what the put of its
  name wrote.
\<close>

lemma finishStore_new:
  "finishStore E rnd [] (newStore E save name md A opt) = (w, Some s, None) \<Longrightarrow>
    \<exists>opened s1 opts s2. selectNewStore E save name md A [opt] = (opened, Inr s1, opts)
      \<and> st_initPut E (at_now A) s1 = (s2, None) \<and> s = st_autoSync E s2"
  by (auto simp: finishStore_def newStore_def Let_def split: prod.splits sum.splits option.splits)

lemma opened_by_name:
  assumes E: "env_ok E els" and name: "parseAddress E name = Inl err"
    and run: "test_newStore E name md tries A rnd opts = Some (Inr (w, s))"
    and opt: "opt = (case opts of [] \<Rightarrow> empty_opts | o0 # _ \<Rightarrow> o0)"
    and d: "run_crdtNew (at_run A) = Inr d"
  obtains opened s1 opts' s2 where "selectNewStore E False name md A [opt] = (opened, Inr s1, opts')"
    "fresh_store md name opt s1" "st_table els s1 = els d"
    "st_Put E (at_now A) name (bytes_of_string name) s1 = (s2, None)" "st_table els s = st_table els s2" "same_face s1 s"
proof -
  from test_newStore_Some [OF run] name opt have "finishStore E rnd [] (newStore E False name md A opt) = (w, Some s, None)"
    by (simp add: NewStore_def)
  from finishStore_new [OF this] obtain opened s1 opts' s2 where sel: "selectNewStore E False name md A [opt] = (opened, Inr s1, opts')"
    and put: "st_initPut E (at_now A) s1 = (s2, None)" and s: "s = st_autoSync E s2" by blast
  note fresh = selectNewStore_ok(1) [OF sel]
  have "st_Put E (at_now A) name (bytes_of_string name) s1 = (s2, None)"
    using initPut_Put [of s1] fresh put by (simp add: fresh_store_def)
  moreover have "same_face s1 s"
    unfolding s by (rule same_face_trans [OF initPut_face [OF put] autoSync_face])
  ultimately show thesis
    by (intro that [OF sel fresh selectNewStore_table [OF sel d]]) (simp_all add: s autoSync_table [OF E])
qed

section \<open>Two peers with the same store\<close>

lemma plain_address:
  "\<nexists>b p q. s = AccessStore b p q \<Longrightarrow>
    st_Address E s = MakeAddress E (bs_name (st_base s)) [] (salt_of s) [bs_timeLimit (st_base s)]"
  by (cases s) (simp_all add: base_Address_def hs_Address_def salt_of_def)

lemma twinsI:
  "store_mode s = store_mode t \<Longrightarrow> store_mode s \<in> {MLog, MSignature, MHash} \<Longrightarrow> \<nexists>b p q. s = AccessStore b p q \<Longrightarrow>
    \<nexists>b p q. t = AccessStore b p q \<Longrightarrow> (store_mode s = MHash \<Longrightarrow> salt_of s = salt_of t) \<Longrightarrow> twins s t"
  by (cases s; cases t) (simp_all add: salt_of_def)

lemma fresh_face:
  assumes "fresh_store md name opt s1" "same_face s1 s"
  shows "store_mode s = mode_of md" "bs_name (st_base s) = name" "bs_timeLimit (st_base s) = so_TimeLimit opt"
    "\<nexists>b p q. s = AccessStore b p q" "salt_of s = salt_of s1"
  using assms same_face_salt [OF assms(2)] fresh_not_access [OF assms]
  by (auto simp: fresh_store_def same_face_def same_kind_mode)

text \<open>The peer that loads a store by the address of one without a master key holds its twin.\<close>

lemma loaded_twin:
  assumes P: "protos_ok (lib_pb E)" "protos_total (lib_pb E)"
    and s: "store_mode s = mode_of md" "mode_of md \<in> {MLog, MSignature, MHash}" "\<nexists>b p q. s = AccessStore b p q"
      "ascii (bs_name (st_base s))" "bs_timeLimit (st_base s) = zero_time"
      "mode_of md = MHash \<Longrightarrow> contents (salt_of s) \<noteq> []"
    and run: "test_newStore E (st_Address E s) md tries A rnd opts = Some (Inr (w, t))"
  shows "twins s t"
proof -
  have "parseAddress E (st_Address E s) = Inr (bs_name (st_base s), canon_slice (salt_of s), [], zero_time)"
    using parse_MakeAddress_UTC [OF P s(4), of "[]" zero_time "salt_of s"] s(5)
    by (simp add: plain_address [OF s(3)] ascii_def strip_mono_id)
  note load = NewStore_plain_address [OF this _ test_newStore_Some [OF run]]
  have salt: "canon_slice (salt_of s) = salt_of s \<and> salt_of s \<noteq> None" if "mode_of md = MHash"
    using s(6) that by (cases "salt_of s") (auto simp: canon_slice_def)
  show ?thesis
  proof (rule twinsI)
    show "store_mode s = store_mode t" using load(1) salt s(1) by simp
    show "\<nexists>b p q. t = AccessStore b p q" using load(4) salt by simp
    show "salt_of s = salt_of t" if "store_mode s = MHash" using load(3) salt that s(1) by simp
  qed (use s in auto)
qed

section \<open>Puts on a store that holds its first record\<close>

text \<open>Where a put lands in a store whose records are written once, and when nothing can refuse it.\<close>

definition put_slot :: "('d, 'priv, 'pub) env \<Rightarrow> ('d, 'priv, 'pub) store \<Rightarrow> string \<Rightarrow> string" where
  "put_slot E s key = newKey (lib_ds E)
     (if store_mode s = MSignature then PubKeyToStr (lib_id E) (crypto E) (signing_pub s) @ ''/'' @ key
      else if store_mode s = MHash then MakeHashKey E key (salt_of s) else key)"

definition signs :: "('d, 'priv, 'pub) env \<Rightarrow> bool" where
  "signs E \<longleftrightarrow> (\<forall>sk m. is_ok (k_sign (key_ops E) sk m))"

lemma signed_record_again:
  assumes "signs E" "protos_total (lib_pb E)" "signed_record E priv pub val = Inr (sKey, msd)"
  shows "\<exists>msd'. signed_record E priv pub val' = Inr (sKey, msd')"
proof -
  from assms(3) obtain sk sign where sk: "priv = Some sk" "sKey = PubKeyToStr (lib_id E) (crypto E) pub" "sKey \<noteq> []"
    by (auto elim: signed_record_Inr)
  from assms(1) obtain sign' where sign': "k_sign (key_ops E) sk val' = Inr sign'" by (auto simp: signs_def is_ok_iff)
  from assms(2) have "is_ok (c_marshal (pb_sig (lib_pb E)) \<lparr>sd_value = Some val', sd_sign = Some sign'\<rparr>)"
    by (simp add: protos_total_def codec_total_def is_ok_iff)
  with sk sign' show ?thesis by (auto simp: signed_record_def is_ok_iff)
qed

lemma put_slot_put:
  assumes E: "env_ok E els" and s: "store_mode s \<in> {MLog, MSignature, MHash}" "\<nexists>b p q. s = AccessStore b p q"
    and put: "st_Put E now key val s = (s', None)"
  shows "\<exists>v. st_table els s' = (st_table els s)(put_slot E s key \<mapsto> v)"
proof (cases s)
  case (LogStore b)
  with put obtain b' where b': "base_Put E key val b = (b', None)" "s' = LogStore b'" by (auto split: prod.splits)
  from base_Put_ok(2) [OF E b'(1)] show ?thesis by (simp add: LogStore b'(2) put_slot_def st_table_def) blast
next
  case (SignatureStore b)
  with put obtain b' where b': "sg_Put E key val b = (b', None)" "s' = SignatureStore b'" by (auto split: prod.splits)
  from sg_Put_ok [OF E b'(1)] obtain sKey msd where "signed_record E (sg_priv b) (sg_pub b) val = Inr (sKey, msd)"
    "sg_table els b' = (sg_table els b)(newKey (lib_ds E) (sKey @ ''/'' @ key) \<mapsto> msd)" .
  then show ?thesis
    by (auto simp: SignatureStore b'(2) put_slot_def st_table_def sg_table_def elim!: signed_record_Inr)
next
  case (HashStore b)
  with put obtain b' where b': "hs_Put E key val b = (b', None)" "s' = HashStore b'" by (auto split: prod.splits)
  from hs_Put_ok [OF E b'(1)] obtain m where
    "hs_table els b' = (hs_table els b)(newKey (lib_ds E) (MakeHashKey E key (hs_salt b)) \<mapsto> m)" .
  then show ?thesis by (auto simp: HashStore b'(2) put_slot_def st_table_def hs_table_def salt_of_def)
qed (use s in auto)

text \<open>A store that has put once puts again, if the slot is free.\<close>

lemma put_again:
  assumes E: "env_ok E els" "ds_live (lib_ds E) els" and L: "signs E" "protos_total (lib_pb E)"
    and s0: "store_mode s0 \<in> {MLog, MSignature, MHash}" "\<nexists>b p q. s0 = AccessStore b p q"
    and put: "st_Put E now key val s0 = (s1, None)" and face: "same_face s0 s"
    and free: "st_table els s (put_slot E s key') = None" and ascii: "ascii key'"
  shows "snd (st_Put E now' key' val' s) = None"
proof (cases s0)
  case (LogStore b)
  with face obtain c where c: "s = LogStore c" by (cases s) (auto simp: same_face_def)
  with free base_Put_live [OF E, of c key' val'] show ?thesis
    by (simp add: put_slot_def st_table_def split_beta)
next
  case (SignatureStore b)
  with face obtain c where c: "s = SignatureStore c" "sg_pub c = sg_pub b" "sg_priv c = sg_priv b"
    by (cases s) (auto simp: same_face_def)
  from put SignatureStore obtain sKey msd where "signed_record E (sg_priv b) (sg_pub b) val = Inr (sKey, msd)"
    by (auto simp: sg_Put_def split: sum.splits prod.splits)
  from signed_record_again [OF L this] obtain msd' where r: "signed_record E (sg_priv c) (sg_pub c) val' = Inr (sKey, msd')"
    using c by auto
  then have "sKey = PubKeyToStr (lib_id E) (crypto E) (sg_pub c)" by (auto elim: signed_record_Inr)
  with free base_Put_live [OF E, of "sg_base c" "sKey @ ''/'' @ key'" msd'] r c show ?thesis
    by (simp add: put_slot_def st_table_def sg_Put_def split_beta)
next
  case (HashStore b)
  with face obtain c where c: "s = HashStore c" by (cases s) (auto simp: same_face_def)
  from L(2) ascii obtain m where
    "c_marshal (pb_hash (lib_pb E)) \<lparr>hd_baseHash = key', hd_salt = hs_salt c, hd_value = Some val'\<rparr> = Inr m"
    by (force simp: protos_total_def codec_total_def is_ok_iff)
  with free base_Put_live [OF E, of "hs_base c" "MakeHashKey E key' (hs_salt c)" m] c show ?thesis
    by (simp add: put_slot_def st_table_def hs_Put_def salt_of_def split_beta)
qed (use s0 in auto)

lemma same_face_pub: "same_face s t \<Longrightarrow> signing_pub t = signing_pub s"
proof -
  have "same_kind s t \<Longrightarrow> signing_pub t = signing_pub s" by (induction s t rule: same_kind.induct) simp_all
  then show "same_face s t \<Longrightarrow> signing_pub t = signing_pub s" by (simp add: same_face_def)
qed

lemma put_slot_face: "same_face s t \<Longrightarrow> put_slot E t key = put_slot E s key"
  using same_kind_mode [of s t] same_face_salt [of s t] same_face_pub [of s t]
  by (simp add: put_slot_def same_face_def)

text \<open>Two paths without a slash have different slots, unless they hash alike.\<close>

lemma put_slot_inj:
  assumes E: "key_ok (newKey (lib_ds E))" "kdf_ok E" and plain: "plain_component a" "plain_component b" and ne: "a \<noteq> b"
    and s: "store_mode s \<in> {MLog, MSignature, MHash}"
    and key: "store_mode s = MSignature \<Longrightarrow> plain_component (PubKeyToStr (lib_id E) (crypto E) (signing_pub s))"
    and hash: "store_mode s = MHash \<Longrightarrow> MakeHashKey E a (salt_of s) \<noteq> MakeHashKey E b (salt_of s)"
  shows "put_slot E s a \<noteq> put_slot E s b"
proof -
  note nk = key_okD(1) [OF E(1)]
  have clean: "clean_path a" "clean_path b" using plain plain_clean by auto
  from s consider "store_mode s = MLog" | "store_mode s = MSignature" | "store_mode s = MHash" by blast
  then show ?thesis
  proof cases
    case 1
    with nk [OF clean(1)] nk [OF clean(2)] ne show ?thesis by (simp add: put_slot_def)
  next
    case 2
    let ?p = "PubKeyToStr (lib_id E) (crypto E) (signing_pub s)"
    have "clean_path (?p @ CHR ''/'' # a)" "clean_path (?p @ CHR ''/'' # b)"
      unfolding clean_path_append using clean plain_clean [OF key [OF 2]] by auto
    with nk ne show ?thesis by (simp add: put_slot_def 2)
  next
    case 3
    with hash newKey_hash [OF E] show ?thesis by (simp add: put_slot_def)
  qed
qed

section \<open>The scenarios of the stores whose records are written once\<close>

text \<open>The names of these scenarios are no addresses.\<close>

definition scenario :: "string \<Rightarrow> string \<Rightarrow> bool" where
  "scenario md nm \<longleftrightarrow> (md, nm) \<in> {(''log'', ''lg''), (''signature'', ''sg''), (''hash'', ''hs'')}"

lemma short_name: "b64_decode [a, b] = b64_corrupt" if "\<not> is_newline a" "\<not> is_newline b"
  using that by (simp add: b64_decode_def)

lemma scenario_name:
  assumes "scenario md nm"
  shows "plain_component nm" "ascii nm" "nm \<noteq> ''aaa''" "mode_of md \<in> {MLog, MSignature, MHash}" "\<not> is_ok (parseAddress E nm)"
  using assms
  by (auto simp: scenario_def plain_component_def ascii_def mode_of_def parseAddress_def short_name is_newline_def b64_corrupt_def is_ok_def)

lemma aaa_path: "ascii ''aaa''" "clean_path ''aaa''"
  by (simp_all add: ascii_def clean_path_def)

text \<open>
  A store of such a scenario, opened by name: it holds one record, that of its name, and it takes every
  put to another slot.
\<close>

lemma opened_once:
  assumes E: "replica_ok E els" "ds_live (lib_ds E) els" and L: "signs E" "protos_total (lib_pb E)"
    and sc: "scenario md nm" and opts: "opts = [] \<or> opts = [empty_opts]"
    and run0: "test_newStore E nm md tries A rnd opts = Some (Inr (w0, db0))"
    and d: "run_crdtNew (at_run A) = Inr d" "els d = Map.empty"
    and hash: "md = ''hash'' \<Longrightarrow> MakeHashKey E ''aaa'' (Some (at_rnd A)) \<noteq> MakeHashKey E nm (Some (at_rnd A))"
  shows "store_mode db0 = mode_of md" "\<nexists>b p q. db0 = AccessStore b p q"
    "bs_name (st_base db0) = nm" "bs_timeLimit (st_base db0) = zero_time"
    "md = ''hash'' \<Longrightarrow> salt_of db0 = Some (at_rnd A)"
    "signed_mode (mode_of md) \<Longrightarrow> signing_pub db0 = so_Pub (hd (snd (snd (selectNewStore E False nm md A [empty_opts]))))"
    "\<exists>v. st_table els db0 = [put_slot E db0 nm \<mapsto> v]"
    "put_slot E db0 ''aaa'' \<noteq> put_slot E db0 nm"
    "same_face db0 s \<Longrightarrow> st_table els s (put_slot E db0 key) = None \<Longrightarrow> ascii key \<Longrightarrow> snd (st_Put E now key val s) = None"
proof -
  note E1 = replica_okD(1) [OF E(1)] and libs = replica_okD(2) [OF E(1)] and kdf = replica_okD(3) [OF E(1)]
  note nk = ds_okD(1) [OF env_okD(1) [OF E1]]
  have h: "mode_of md = MHash \<longleftrightarrow> md = ''hash''" by (auto simp: mode_of_def)
  obtain err where name: "parseAddress E nm = Inl err"
    using scenario_name(5) [OF sc, of E] by (cases "parseAddress E nm") (auto simp: is_ok_def)
  have "empty_opts = (case opts of [] \<Rightarrow> empty_opts | o0 # _ \<Rightarrow> o0)" using opts by auto
  with E1 name run0 obtain opened s1 opts1 s2 where sel: "selectNewStore E False nm md A [empty_opts] = (opened, Inr s1, opts1)"
    and s1: "fresh_store md nm empty_opts s1" "st_table els s1 = els d"
    and put: "st_Put E (at_now A) nm (bytes_of_string nm) s1 = (s2, None)" "st_table els db0 = st_table els s2"
    and face: "same_face s1 db0"
    using d(1) by (rule opened_by_name)
  note f = fresh_face [OF s1(1) face] and f1 = fresh_face [OF s1(1) same_face_refl]
  have mode: "store_mode db0 \<in> {MLog, MSignature, MHash}" "store_mode s1 \<in> {MLog, MSignature, MHash}"
    using scenario_name(4) [OF sc] f(1) f1(1) by auto
  show "store_mode db0 = mode_of md" "\<nexists>b p q. db0 = AccessStore b p q" "bs_name (st_base db0) = nm" by (rule f)+
  show "bs_timeLimit (st_base db0) = zero_time" using f(3) by (simp add: empty_opts_def)
  show salt: "salt_of db0 = Some (at_rnd A)" if "md = ''hash''"
    using selectNewStore_keys(3) [OF sel] that unfolding f(5) h by (simp add: empty_opts_def)
  show tab: "\<exists>v. st_table els db0 = [put_slot E db0 nm \<mapsto> v]"
    using put_slot_put [OF E1 mode(2) f1(4) put(1)] put(2) s1(2) d(2) put_slot_face [OF face, of E nm] by auto
  show "put_slot E db0 ''aaa'' \<noteq> put_slot E db0 nm"
  proof (rule put_slot_inj [OF nk kdf aaa_plain scenario_name(1) [OF sc] scenario_name(3) [OF sc, symmetric] mode(1)])
    assume "store_mode db0 = MSignature"
    with f(1) f1(1,4) obtain b where b: "s1 = SignatureStore b" by (cases s1) auto
    with put(1) obtain x where "signed_record E (sg_priv b) (sg_pub b) (bytes_of_string nm) = Inr x"
      by (auto simp: sg_Put_def split: sum.splits)
    then have "plain_component (PubKeyToStr (lib_id E) (crypto E) (sg_pub b))"
      by (cases x) (auto elim!: signed_record_Inr intro: PubKeyToStr_plain [OF libs_okD(2) [OF libs]])
    moreover have "signing_pub db0 = sg_pub b" using face by (cases db0) (auto simp: same_face_def b)
    ultimately show "plain_component (PubKeyToStr (lib_id E) (crypto E) (signing_pub db0))" by simp
  qed (use hash salt f(1) h in auto)
  show "snd (st_Put E now key val s) = None" if "same_face db0 s" "st_table els s (put_slot E db0 key) = None" "ascii key"
    using that(2) put_slot_face [OF that(1)]
    by (intro put_again [OF E1 E(2) L mode(2) f1(4) put(1) same_face_trans [OF face that(1)] _ that(3)]) simp
  show "signing_pub db0 = so_Pub (hd (snd (snd (selectNewStore E False nm md A [empty_opts]))))" if "signed_mode (mode_of md)"
    using selectNewStore_keys(1) [OF sel that] same_face_pub [OF face] by (simp add: sel)
qed

text \<open>Over a hash store nothing is stored under a base string itself.\<close>

lemma hash_slot:
  assumes "key_ok (newKey (lib_ds E))" "kdf_ok E" "store_mode s = MHash"
  shows "put_slot E s key = CHR ''/'' # MakeHashKey E key (salt_of s)" "put_slot E s key \<noteq> newKey (lib_ds E) ''aaa''"
proof -
  show "put_slot E s key = CHR ''/'' # MakeHashKey E key (salt_of s)"
    by (simp add: put_slot_def assms(3) newKey_hash [OF assms(1,2)])
  moreover have "MakeHashKey E key (salt_of s) \<noteq> ''aaa''"
    by (simp add: MakeHashKey_def b64_not_aaa Let_def)
  ultimately show "put_slot E s key \<noteq> newKey (lib_ds E) ''aaa''"
    by (simp add: key_okD(1) [OF assms(1) aaa_path(2)])
qed

text \<open>
  After the two openings the peers hold the same store, a put of the first one succeeds, and over a hash
  store nothing is stored under the written path itself.
\<close>

lemma opened_pair:
  assumes E: "replica_ok E els" "ds_live (lib_ds E) els" and L: "signs E" "protos_total (lib_pb E)"
    and sc: "scenario md nm" and opts: "opts = [] \<or> opts = [empty_opts]"
    and run0: "test_newStore E nm md tries A rnd opts = Some (Inr (w0, db0))"
    and d: "run_crdtNew (at_run A) = Inr d" "els d = Map.empty"
    and hash: "md = ''hash'' \<Longrightarrow> at_rnd A \<noteq> []"
      "md = ''hash'' \<Longrightarrow> MakeHashKey E ''aaa'' (Some (at_rnd A)) \<noteq> MakeHashKey E nm (Some (at_rnd A))"
    and run1: "test_newStore E (st_Address E db0) md tries' A' rnd' opts' = Some (Inr (w1, db1))"
  shows "twins db0 db1" "snd (st_Put E now ''aaa'' val db0) = None"
    "store_mode db0 = MHash \<Longrightarrow> st_Put E now ''aaa'' val db0 = (s, None) \<Longrightarrow>
      st_table els s (newKey (lib_ds E) ''aaa'') = None"
    "store_mode db0 = mode_of md"
    "signed_mode (mode_of md) \<Longrightarrow> signing_pub db0 = so_Pub (hd (snd (snd (selectNewStore E False nm md A [empty_opts]))))"
proof -
  note E1 = replica_okD(1) [OF E(1)] and libs = replica_okD(2) [OF E(1)] and kdf = replica_okD(3) [OF E(1)]
  note nk = ds_okD(1) [OF env_okD(1) [OF E1]]
  note o = opened_once [OF E L sc opts run0 d hash(2)]
  have mode: "store_mode db0 \<in> {MLog, MSignature, MHash}" using scenario_name(4) [OF sc] o(1) by simp
  obtain v where tab: "st_table els db0 = [put_slot E db0 nm \<mapsto> v]" using o(7) by blast
  show "snd (st_Put E now ''aaa'' val db0) = None" for now val
    by (rule o(9) [OF _ same_face_refl _ aaa_path(1)]) (use tab o(8) in simp_all)
  show "twins db0 db1"
    by (rule loaded_twin [OF libs_okD(1) [OF libs] L(2) o(1) scenario_name(4) [OF sc] o(2) _ o(4) _ run1])
      (use o(3,5) scenario_name(2) [OF sc] hash(1) in \<open>auto simp: mode_of_def split: if_splits\<close>)
  show "store_mode db0 = mode_of md" by (rule o(1)) simp
  show "signing_pub db0 = so_Pub (hd (snd (snd (selectNewStore E False nm md A [empty_opts]))))" if "signed_mode (mode_of md)"
    by (rule o(6) [OF _ that]) simp
  assume m: "store_mode db0 = MHash" and put: "st_Put E now ''aaa'' val db0 = (s, None)"
  obtain v' where "st_table els s = [put_slot E db0 nm \<mapsto> v, put_slot E db0 ''aaa'' \<mapsto> v']"
    using put_slot_put [OF E1 mode o(2) put] tab by auto
  then show "st_table els s (newKey (lib_ds E) ''aaa'') = None" using hash_slot(2) [OF nk kdf m] by (simp add: eq_commute)
qed

definition acceptance_all ::
  "string \<Rightarrow> ('d, 'priv, 'pub) env \<Rightarrow> 'ma util_lib \<Rightarrow> ('ma addr_info \<Rightarrow> 'd open_run) \<Rightarrow> ('ma addr_info \<Rightarrow> 'd open_run) \<Rightarrow>
    gotime \<Rightarrow> gotime \<Rightarrow> 'd \<Rightarrow> 'd \<Rightarrow> string \<Rightarrow>
    (('d, 'priv, 'pub) store \<times> ('d, 'priv, 'pub) store \<times> test_log list) test option" where
  "acceptance_all md =
     (if md = ''signature'' then BaseTestSignatureStore_all
      else if md = ''hash'' then BaseTestHashStore_all else BaseTestLogStore_all)"

text \<open>The string the scenarios pass around is read as the address of the bootstrap node.\<close>

lemma bootstrap_passed_on:
  assumes "util_ok valid U" "NewBootstrap N hGen [] = (left_open, Inr b)" "valid (ai_ID (bootstrap_AddrInfo N b))"
    and "AddrInfoToString U (bootstrap_AddrInfo N b) \<noteq> []"
    and "body (AddrInfoToString U (bootstrap_AddrInfo N b)) = Some (Inr a)"
  shows "with_bootstrap N U hGen body = Some (Inr (bootstrap_Close N b, a))"
    and "AddrInfoFromString U (AddrInfoToString U (bootstrap_AddrInfo N b)) = bootstrap_AddrInfo N b"
  using AddrInfo_roundtrip [OF assms(1,3,4)] assms(2,5) by (simp_all add: with_bootstrap_def)

lemma acceptance_all_passes:
  assumes E: "replica_ok E els" "ds_live (lib_ds E) els" and L: "signs E" "protos_total (lib_pb E)"
    and sc: "scenario md nm" and bai: "AddrInfoFromString U baiStr = bai"
    and run0: "open_store E U net0 nm md baiStr (if md = ''log'' then [] else [empty_opts]) = Some (Inr (w0, db0))"
    and d: "run_crdtNew (at_run (op_last (net0 bai))) = Inr d" "els d = Map.empty"
    and hash: "md = ''hash'' \<Longrightarrow> at_rnd (op_last (net0 bai)) \<noteq> []"
      "md = ''hash'' \<Longrightarrow> MakeHashKey E ''aaa'' (Some (at_rnd (op_last (net0 bai)))) \<noteq>
        MakeHashKey E nm (Some (at_rnd (op_last (net0 bai))))"
    and run1: "open_store E U net1 (st_Address E db0) md baiStr
      (if md = ''hash'' then [left_opts E U net0 nm md baiStr empty_opts] else []) = Some (Inr (w1, db1))"
    and put: "st_Put E now1 ''aaa'' meow db0 = (s, err)" and tab: "els d1 = st_table els s" "els d2 = st_table els s"
  shows "\<exists>l1 l2. acceptance_all md E U net0 net1 now1 now2 d1 d2 baiStr =
    Some (Inr (st_Close E s, st_Close E (with_data d2 db1),
      LogVal (Some meow) # LogHas (Inr True) # l1 @ LogVal (Some meow) # l2))"
proof -
  note r = run0 [unfolded open_store_def Let_def bai] run1 [unfolded open_store_def Let_def bai]
  have opts: "(if md = ''log'' then [] else [empty_opts :: ('b, 'c) store_opts]) = [] \<or>
      (if md = ''log'' then [] else [empty_opts :: ('b, 'c) store_opts]) = [empty_opts]" by simp
  note pair = opened_pair [OF E L sc opts r(1) d hash r(2)]
  have err: "err = None" using pair(2) [of now1 meow] put by simp
  have "\<exists>l1 l2. acceptance_test E now1 now2 d1 d2 db0 db1 = Inr (st_Close E s, st_Close E (with_data d2 db1),
      LogVal (Some meow) # LogHas (Inr True) # l1 @ LogVal (Some meow) # l2)"
    by (rule acceptance_passes [OF E pair(1) put [unfolded err] pair(2) _ tab])
      (use pair(3) put err in auto)
  moreover have "acceptance_all md E U net0 net1 now1 now2 d1 d2 baiStr = Some (acceptance_test E now1 now2 d1 d2 db0 db1)"
  proof -
    from sc consider (log) "md = ''log''" "nm = ''lg''" | (sig) "md = ''signature''" "nm = ''sg''"
      | (hash) "md = ''hash''" "nm = ''hs''"
      by (auto simp: scenario_def)
    then show ?thesis
    proof cases
      case log
      with run0 run1 pair(4) show ?thesis
        by (simp add: acceptance_all_def acceptance_test_def mode_of_def BaseTestLogStore_all_def)
    next
      case sig
      then have "so_Pub (left_opts E U net0 ''sg'' ''signature'' baiStr empty_opts) = signing_pub db0"
        using pair(5) by (simp add: left_opts_def bai mode_of_def signed_mode_def)
      with sig run0 run1 pair(4) show ?thesis
        by (simp add: acceptance_all_def acceptance_test_def mode_of_def BaseTestSignatureStore_all_def)
    next
      case hash
      with run0 run1 pair(4) show ?thesis
        by (simp add: acceptance_all_def acceptance_test_def mode_of_def BaseTestHashStore_all_def)
    qed
  qed
  ultimately show ?thesis by simp
qed

section \<open>The scenario of the versioned store\<close>

lemma us_put_live:
  assumes E: "env_ok E els" "ds_live (lib_ds E) els" and L: "signs E" "protos_total (lib_pb E)"
    and signed: "signed_record E (sg_priv b) (sg_pub b) v = Inr (sKey, r)" and key: "clean_path (sKey @ CHR ''/'' # key)"
    and free: "sg_table els b (CHR ''/'' # (sKey @ CHR ''/'' # key) @ CHR ''/'' # time_key now) = None"
  obtains b' where "us_Put E now key val b = (b', None)"
proof -
  from signed_record_again [OF L signed] obtain msd where r: "signed_record E (sg_priv b) (sg_pub b) val = Inr (sKey, msd)" by blast
  have "newKey (lib_ds E) ((sKey @ CHR ''/'' # key) @ CHR ''/'' # time_key now) = CHR ''/'' # (sKey @ CHR ''/'' # key) @ CHR ''/'' # time_key now"
    by (rule stamped_key [OF ds_okD(1) [OF env_okD(1) [OF E(1)]] key])
  with base_Put_live [OF E, of "sg_base b" "(sKey @ CHR ''/'' # key) @ CHR ''/'' # time_key now" msd] free
  have "snd (us_Put E now key val b) = None"
    by (simp add: us_Put_def r upd_Put_eq sg_table_def split_beta)
  then show thesis by (metis that prod.collapse)
qed

lemma opened_versioned:
  assumes E: "replica_ok E els" and name: "parseAddress E nm = Inl err" "clean_path nm"
    and run: "test_newStore E nm ''updatableSignature'' tries A rnd [opt] = Some (Inr (w, db))"
    and d: "run_crdtNew (at_run A) = Inr d" "els d = Map.empty"
  obtains b sKey v r rec where "db = UpdatableSignatureStore b" "signed_record E (sg_priv b) (sg_pub b) v = Inr (sKey, r)"
    "sg_table els b = [CHR ''/'' # (sKey @ CHR ''/'' # nm) @ CHR ''/'' # time_key (at_now A) \<mapsto> rec]"
    "bs_name (sg_base b) = nm" "bs_timeLimit (sg_base b) = so_TimeLimit opt"
    "sg_pub b = so_Pub (hd (snd (snd (selectNewStore E False nm ''updatableSignature'' A [opt]))))"
    "so_Pub opt = None \<or> sg_pub b = so_Pub opt"
proof -
  note E1 = replica_okD(1) [OF E] and L = replica_okD(2) [OF E]
  have "opt = (case [opt] of [] \<Rightarrow> empty_opts | o0 # _ \<Rightarrow> o0)" by simp
  with E1 name(1) run obtain opened s1 opts1 s2 where
    sel: "selectNewStore E False nm ''updatableSignature'' A [opt] = (opened, Inr s1, opts1)"
    and s1: "fresh_store ''updatableSignature'' nm opt s1" "st_table els s1 = els d"
    and put: "st_Put E (at_now A) nm (bytes_of_string nm) s1 = (s2, None)" "st_table els db = st_table els s2"
    and face: "same_face s1 db"
    using d(1) by (rule opened_by_name)
  note f = fresh_face [OF s1(1) face] and f1 = fresh_face [OF s1(1) same_face_refl]
  have mode: "mode_of ''updatableSignature'' = MUpdatableSignature" "signed_mode MUpdatableSignature"
    by (simp_all add: mode_of_def signed_mode_def)
  obtain b1 where b1: "s1 = UpdatableSignatureStore b1" using f1(1,4) mode by (cases s1) auto
  with face obtain b where b: "db = UpdatableSignatureStore b" "sg_pub b = sg_pub b1" "sg_priv b = sg_priv b1"
    by (cases db) (auto simp: same_face_def)
  from put(1) b1 obtain b2 where b2: "us_Put E (at_now A) nm (bytes_of_string nm) b1 = (b2, None)" "s2 = UpdatableSignatureStore b2"
    by (auto split: prod.splits)
  from us_Put_record [OF E1 L name(2) b2(1)] obtain sKey rec where
    r: "signed_record E (sg_priv b1) (sg_pub b1) (bytes_of_string nm) = Inr (sKey, rec)"
    and tab: "sg_table els b2 = (sg_table els b1)(CHR ''/'' # (sKey @ CHR ''/'' # nm) @ CHR ''/'' # time_key (at_now A) \<mapsto> rec)" .
  have "sg_table els b = [CHR ''/'' # (sKey @ CHR ''/'' # nm) @ CHR ''/'' # time_key (at_now A) \<mapsto> rec]"
    using put(2) s1(2) d(2) tab by (simp add: b b1 b2(2) st_table_def sg_table_def)
  moreover have "sg_pub b = so_Pub (hd (snd (snd (selectNewStore E False nm ''updatableSignature'' A [opt]))))"
    using selectNewStore_keys(1) [OF sel] mode same_face_pub [OF face] by (simp add: sel b)
  moreover have "so_Pub opt = None \<or> sg_pub b = so_Pub opt"
    using selectNewStore_keys(1,2) [OF sel] mode same_face_pub [OF face] by (cases "so_Pub opt") (simp_all add: sel b)
  ultimately show thesis using r f(2,3) by (intro that [OF b(1), of _ sKey]) (simp_all add: b)
qed

text \<open>The two puts of the scenario succeed, at any two times.\<close>

lemma versioned_puts:
  assumes E: "replica_ok E els" "ds_live (lib_ds E) els" and L: "signs E" "protos_total (lib_pb E)"
    and signed: "signed_record E (sg_priv b) (sg_pub b) v = Inr (sKey, r)"
    and tab: "sg_table els b = [CHR ''/'' # (sKey @ CHR ''/'' # nm) @ CHR ''/'' # time_key now0 \<mapsto> rec]"
    and nm: "plain_component nm" "nm \<noteq> ''aaa''"
    and now: "wf_time now1" "wf_time now2" "instant_of now1 \<noteq> instant_of now2"
  obtains b' b'' where "us_Put E now1 ''aaa'' val1 b = (b', None)" "us_Put E now2 ''aaa'' val2 b' = (b'', None)"
    "\<And>k. k \<in> dom (sg_table els b) \<Longrightarrow> \<not> below (us_putKey E b ''aaa'') k"
proof -
  note E1 = replica_okD(1) [OF E(1)] and libs = replica_okD(2) [OF E(1)]
  have clean: "clean_path (sKey @ CHR ''/'' # ''aaa'')"
    unfolding clean_path_append using plain_clean [OF signed_record_key [OF libs signed]] aaa_path(2) by simp
  have key: "sKey = PubKeyToStr (lib_id E) (crypto E) (sg_pub b)" using signed by (rule signed_record_Inr)
  let ?k = "\<lambda>nm t. CHR ''/'' # (sKey @ CHR ''/'' # nm) @ CHR ''/'' # time_key t"
  have ne: "?k ''aaa'' t \<noteq> ?k nm now0" for t
  proof
    assume "?k ''aaa'' t = ?k nm now0"
    then have "category_of (?k ''aaa'' t) = category_of (?k nm now0)" by (rule arg_cong)
    with nm(2) show False unfolding category_of_stamped by simp
  qed
  obtain b' where b': "us_Put E now1 ''aaa'' val1 b = (b', None)"
    by (rule us_put_live [OF E1 E(2) L signed clean, where now = now1 and val = val1]) (use tab ne in auto)
  from us_Put_record [OF E1 libs aaa_path(2) b'] obtain msd where r: "signed_record E (sg_priv b) (sg_pub b) val1 = Inr (sKey, msd)"
    and tab': "sg_table els b' = (sg_table els b)(?k ''aaa'' now1 \<mapsto> msd)"
    and pk: "us_putKey E b ''aaa'' = sKey @ CHR ''/'' # ''aaa''"
    by (metis key signed_record_Inr)
  from us_Put_ok [OF E1 b'] have same: "sg_priv b' = sg_priv b" "sg_pub b' = sg_pub b"
    by (metis signature_store.select_convs(2,3) signature_store.surjective signature_store.update_convs(1))+
  have "?k ''aaa'' now2 \<noteq> ?k ''aaa'' now1"
  proof
    assume "?k ''aaa'' now2 = ?k ''aaa'' now1"
    with key_time_stamped [OF now(1), of "local_zone E" "sKey @ CHR ''/'' # ''aaa''"]
      key_time_stamped [OF now(2), of "local_zone E" "sKey @ CHR ''/'' # ''aaa''"]
    have "to_utc now1 = to_utc now2" by (simp only: sum.inject)
    then have "instant_of now1 = instant_of now2" by (metis instant_of_to_utc)
    with now(3) show False by simp
  qed
  with ne [of now2] tab' tab have free: "sg_table els b' (?k ''aaa'' now2) = None" by simp
  obtain b'' where b'': "us_Put E now2 ''aaa'' val2 b' = (b'', None)"
    by (rule us_put_live [OF E1 E(2) L _ clean free]) (use signed same in auto)
  have "\<not> below (us_putKey E b ''aaa'') k" if "k \<in> dom (sg_table els b)" for k
    using below_component [OF aaa_plain nm(1), of sKey "time_key now0"] nm(2) that unfolding tab pk by auto
  with b' b'' show thesis by (rule that)
qed

lemma us_name: "\<not> is_ok (parseAddress E ''us'')" "plain_component ''us''" "clean_path ''us''" "ascii ''us''"
  by (simp_all add: plain_component_def clean_path_def ascii_def parseAddress_def short_name is_newline_def b64_corrupt_def is_ok_def)

lemma versions_all_passes:
  assumes E: "replica_ok E els" "ds_live (lib_ds E) els" and L: "signs E" "protos_total (lib_pb E)"
    and bai: "AddrInfoFromString U baiStr = bai"
    and run0: "open_store E U net0 ''us'' ''updatableSignature'' baiStr [empty_opts] = Some (Inr (w0, db0))"
    and d: "run_crdtNew (at_run (op_last (net0 bai))) = Inr d" "els d = Map.empty"
    and run1: "open_store E U net1 (st_Address E db0) ''updatableSignature'' baiStr [] = Some (Inr (w1, db1))"
    and now: "wf_time now1" "wf_time now2" "instant_of now1 < instant_of now2"
    and put: "st_Put E now1 ''aaa'' meow db0 = (s1, e1)" "st_Put E now2 ''aaa'' meow2 s1 = (s2, e2)"
    and tab: "els d1 = st_table els s1" "els d2 = st_table els s2"
  shows "\<exists>ok l1 l2. BaseTestUpdatableSignatureStore_all E U net0 net1 now1 now2 d1 d2 baiStr =
    Some (Inr (st_Close E s2, st_Close E (with_data d2 db1),
      LogVal (Some meow) # LogHas ok # l1 @ LogVal (Some meow2) # l2))"
proof -
  note r = run0 [unfolded open_store_def Let_def bai] run1 [unfolded open_store_def Let_def bai]
  obtain err where name: "parseAddress E ''us'' = Inl err"
    using us_name(1) [of E] by (cases "parseAddress E ''us''") (auto simp: is_ok_def)
  from opened_versioned [OF E(1) name us_name(3) r(1) d] obtain b sKey v rc rec where
    b: "db0 = UpdatableSignatureStore b" and signed: "signed_record E (sg_priv b) (sg_pub b) v = Inr (sKey, rc)"
    and tb: "sg_table els b = [CHR ''/'' # (sKey @ CHR ''/'' # ''us'') @ CHR ''/'' # time_key (at_now (op_last (net0 bai))) \<mapsto> rec]"
    and nm: "bs_name (sg_base b) = ''us''" "bs_timeLimit (sg_base b) = so_TimeLimit (empty_opts :: ('b, 'c) store_opts)"
    and pub: "sg_pub b = so_Pub (hd (snd (snd (selectNewStore E False ''us'' ''updatableSignature'' (op_last (net0 bai)) [empty_opts]))))"
    and "so_Pub (empty_opts :: ('b, 'c) store_opts) = None \<or> sg_pub b = so_Pub (empty_opts :: ('b, 'c) store_opts)" .
  have ne: "instant_of now1 \<noteq> instant_of now2" using now(3) by simp
  obtain b' b'' where p: "us_Put E now1 ''aaa'' meow b = (b', None)" "us_Put E now2 ''aaa'' meow2 b' = (b'', None)"
    and fresh: "\<And>k. k \<in> dom (sg_table els b) \<Longrightarrow> \<not> below (us_putKey E b ''aaa'') k"
    by (rule versioned_puts [OF E L signed tb us_name(2) _ now(1,2) ne]) auto
  have s: "s1 = UpdatableSignatureStore b'" "s2 = UpdatableSignatureStore b''"
    using put p b by auto
  have addr: "parseAddress E (st_Address E db0) = Inr (''us'', None, [], zero_time)"
    using parse_MakeAddress_UTC [OF libs_okD(1) [OF replica_okD(2) [OF E(1)]] L(2) us_name(4), of "[]" zero_time None] nm
    by (simp add: b base_Address_def empty_opts_def ascii_def strip_mono_id canon_slice_def)
  have mode: "mode_of ''updatableSignature'' = MUpdatableSignature" by (simp add: mode_of_def)
  note load = NewStore_plain_address [OF addr _ test_newStore_Some [OF r(2)]]
  obtain c where c: "db1 = UpdatableSignatureStore c"
    using load(1,4) mode by (cases db1) auto
  from versions_pass [OF E now p fresh] tab s
  obtain ok l1 l2 where "BaseTestUpdatableSignatureStore E (sg_pub b) now1 now2 d1 d2 db0 db1 =
    Inr (st_Close E s2, st_Close E (with_data d2 db1), LogVal (Some meow) # LogHas ok # l1 @ LogVal (Some meow2) # l2)"
    unfolding b c s by (metis st_table_def st_base.simps(4) sg_table_def)
  moreover have "so_Pub (left_opts E U net0 ''us'' ''updatableSignature'' baiStr empty_opts) = sg_pub b"
    by (simp add: left_opts_def bai pub)
  ultimately show ?thesis
    using run0 run1 by (simp add: BaseTestUpdatableSignatureStore_all_def Let_def) blast
qed

end
