(* ===== verification/AcceptanceAccess.thy ===== *)
theory AcceptanceAccess
  imports Acceptance
begin

text \<open>
  The access and time-limit scenarios as a whole: the first peer opens a store by name, puts an access
  store in front of it that grants one access, and the second peer loads it by its address, which names
  the salt and the master key.
\<close>

section \<open>The address of an access store\<close>

lemma access_address:
  assumes P: "protos_ok (lib_pb E)" "protos_total (lib_pb E)"
    and b: "\<nexists>b' p q. b = AccessStore b' p q" "ascii (bs_name (st_base b))"
    and lim: "wf_time (bs_timeLimit (st_base b))" "t_loc (bs_timeLimit (st_base b)) = UTC" "no_mono (bs_timeLimit (st_base b))"
    and pub: "ascii (PubKeyToStr (lib_id E) (crypto E) pub)"
  shows "parseAddress E (st_Address E (AccessStore b priv pub)) =
    Inr (bs_name (st_base b), canon_slice (salt_of b), PubKeyToStr (lib_id E) (crypto E) pub, bs_timeLimit (st_base b))"
proof -
  have "parseAddress E (st_Address E b) = Inr (bs_name (st_base b), canon_slice (salt_of b), [], bs_timeLimit (st_base b))"
    using parse_MakeAddress_UTC [OF P b(2) _ lim(1,2), of "[]" "salt_of b"]
    by (simp add: plain_address [OF b(1)] ascii_def strip_mono_id [OF lim(3)])
  then have "st_Address E (AccessStore b priv pub) = MakeAddress E (bs_name (st_base b)) (PubKeyToStr (lib_id E) (crypto E) pub)
      (canon_slice (salt_of b)) [bs_timeLimit (st_base b)]"
    by (simp add: Let_def)
  with parse_MakeAddress_UTC [OF P b(2) pub lim(1,2), of "canon_slice (salt_of b)"] show ?thesis
    by (simp add: strip_mono_id [OF lim(3)])
qed

text \<open>The peer that loads by such an address checks against the same master key.\<close>

lemma loaded_access:
  assumes L: "libs_ok E" "protos_total (lib_pb E)"
    and b: "store_mode b = mode_of md" "\<nexists>b' p q. b = AccessStore b' p q" "ascii (bs_name (st_base b))"
      "mode_of md = MHash \<Longrightarrow> contents (salt_of b) \<noteq> []"
    and lim: "wf_time (bs_timeLimit (st_base b))" "t_loc (bs_timeLimit (st_base b)) = UTC" "no_mono (bs_timeLimit (st_base b))"
    and pub: "ascii (PubKeyToStr (lib_id E) (crypto E) pub)" "PubKeyToStr (lib_id E) (crypto E) pub \<noteq> []"
    and run: "test_newStore E (st_Address E (AccessStore b priv pub)) md tries A rnd opts = Some (Inr (w, t))"
  obtains c priv' where "t = AccessStore c priv' pub" "store_mode c = mode_of md" "\<nexists>b' p q. c = AccessStore b' p q"
    "mode_of md = MHash \<Longrightarrow> salt_of c = salt_of b"
proof -
  note addr = access_address [OF libs_okD(1) [OF L(1)] L(2) b(2,3) lim pub(1), of priv]
  have salt: "canon_slice (salt_of b) = salt_of b \<and> salt_of b \<noteq> None" if "mode_of md = MHash"
    using b(4) that by (cases "salt_of b") (auto simp: canon_slice_def)
  show thesis
  proof (rule NewStore_access_store [OF L(1) addr refl pub(2) _ test_newStore_Some [OF run]])
    show "canon_slice (salt_of b) \<noteq> None" if "mode_of md = MHash" using salt [OF that] by simp
    fix c priv' assume c: "t = AccessStore c priv' pub" "store_mode t = mode_of md"
      "mode_of md = MHash \<Longrightarrow> salt_of c = canon_slice (salt_of b)" "\<nexists>b' p q. c = AccessStore b' p q"
    then show thesis using salt by (intro that [of c priv']) auto
  qed
qed

lemma grant_one: "grant_all E priv pub [(access, now, val)] b = (b', None) \<longleftrightarrow> ac_Grant E now val access priv pub b = (b', None)"
  by (auto split: prod.splits option.splits)

section \<open>Hash access\<close>

lemma hash_store_cases: "store_mode s = MHash \<Longrightarrow> \<nexists>b p q. s = AccessStore b p q \<Longrightarrow> \<exists>b. s = HashStore b"
  by (cases s) auto

text \<open>Where the grant lands, and the two puts that can follow it.\<close>

lemma hash_granted_puts:
  assumes E: "replica_ok E els" "ds_live (lib_ds E) els" and L: "signs E" "protos_total (lib_pb E)"
    and run0: "test_newStore E ''hs'' ''hash'' tries A rnd [empty_opts] = Some (Inr (w0, db0))"
    and d: "run_crdtNew (at_run A) = Inr d" "els d = Map.empty"
    and grant: "ac_Grant E now0 val0 access priv pub db0 = (b, None)"
    and hash: "\<And>k. k \<in> {''hs'', accessKey E pub access} \<Longrightarrow>
      MakeHashKey E ''aaa'' (Some (at_rnd A)) \<noteq> MakeHashKey E k (Some (at_rnd A))"
  shows "same_face db0 b" "snd (st_Put E now ''aaa'' val b) = None"
    "st_Put E now ''aaa'' val b = (s, None) \<Longrightarrow> st_table els s (newKey (lib_ds E) ''aaa'') = None"
proof -
  note E1 = replica_okD(1) [OF E(1)] and kdf = replica_okD(3) [OF E(1)]
  note nk = ds_okD(1) [OF env_okD(1) [OF E1]]
  have sc: "scenario ''hash'' ''hs''" by (simp add: scenario_def)
  have opts: "[empty_opts] = [] \<or> [empty_opts] = [empty_opts :: ('b, 'c) store_opts]" by simp
  have h: "MakeHashKey E ''aaa'' (Some (at_rnd A)) \<noteq> MakeHashKey E ''hs'' (Some (at_rnd A))" by (rule hash) simp
  note o = opened_once [OF E L sc opts run0 d h]
  have mode: "store_mode db0 = MHash" using o(1) by (simp add: mode_of_def)
  have salt: "salt_of db0 = Some (at_rnd A)" by (rule o(5)) simp
  from grant obtain msd where put: "st_Put E now0 (accessKey E pub access) msd db0 = (b, None)" by (rule ac_Grant_ok)
  show face: "same_face db0 b" by (rule put_face [OF put])
  note slot = hash_slot(1) [OF nk kdf mode]
  have b: "store_mode b = MHash" "\<nexists>b' p q. b = AccessStore b' p q"
    using same_kind_mode [of db0 b] face mode o(2) hash_store_cases [OF mode o(2)]
    by (cases b; auto simp: same_face_def)+
  obtain v v' where tab: "st_table els b = [put_slot E db0 ''hs'' \<mapsto> v, put_slot E db0 (accessKey E pub access) \<mapsto> v']"
    using put_slot_put [OF E1 _ o(2) put] mode o(7) by auto
  have "st_table els b (put_slot E db0 ''aaa'') = None"
    using hash by (simp add: tab slot salt)
  then show "snd (st_Put E now ''aaa'' val b) = None"
    by (rule o(9) [OF face _ aaa_path(1)])
  assume s: "st_Put E now ''aaa'' val b = (s, None)"
  obtain v'' where "st_table els s = (st_table els b)(put_slot E db0 ''aaa'' \<mapsto> v'')"
    using put_slot_put [OF E1 _ b(2) s] b(1) put_slot_face [OF face, of E "''aaa''"] by auto
  then show "st_table els s (newKey (lib_ds E) ''aaa'') = None"
    using hash_slot(2) [OF nk kdf mode] by (simp add: tab eq_commute)
qed

lemma hash_access_all_passes:
  assumes E: "replica_ok E els" "ds_live (lib_ds E) els" and L: "signs E" "protos_total (lib_pb E)"
    and Q: "query_lib_ok nk (lib_q E)" and bai: "AddrInfoFromString U baiStr = bai"
    and run0: "open_store E U net0 ''hs'' ''hash'' baiStr [empty_opts] = Some (Inr (w0, db0))"
    and d: "run_crdtNew (at_run (op_last (net0 bai))) = Inr d" "els d = Map.empty"
    and key: "generateKeyPair (crypto E) rnd = Inr (sk, vk)" "key_pair (key_ops E) sk vk"
      "ascii (PubKeyToStr (lib_id E) (crypto E) (Some vk))"
    and acc: "newAccessStore E rnd db0 [(st_putKey E db0 ''aaa'', now0, val0)] = Inr dbA" "val0 \<noteq> []"
    and salt: "salt = at_rnd (op_last (net0 bai))" "salt \<noteq> []"
    and hash: "\<And>k. k \<in> {''hs'', accessKey E (Some vk) (st_putKey E db0 ''aaa'')} \<Longrightarrow>
      MakeHashKey E ''aaa'' (Some salt) \<noteq> MakeHashKey E k (Some salt)"
    and run1: "open_store E U net1 (st_Address E dbA) ''hash'' baiStr [] = Some (Inr (w1, db1))"
    and put: "st_Put E now1 ''aaa'' meow dbA = (s, err)" and tab: "els d1 = st_table els s" "els d2 = st_table els s"
  shows "testHashAccess_all E U net0 net1 rnd (now0, val0) now1 now2 d1 d2 baiStr =
    Some (Inr (st_Close E s, st_Close E (with_data d2 db1), [LogVal (Some meow), LogHas (Inr True), LogVal (Some meow)]))"
proof -
  note E1 = replica_okD(1) [OF E(1)] and libs = replica_okD(2) [OF E(1)] and kdf = replica_okD(3) [OF E(1)]
  note r0 = run0 [unfolded open_store_def Let_def bai] and r1 = run1 [unfolded open_store_def Let_def bai]
  have sc: "scenario ''hash'' ''hs''" by (simp add: scenario_def)
  have opts: "[empty_opts] = [] \<or> [empty_opts] = [empty_opts :: ('b, 'c) store_opts]" by simp
  have h: "MakeHashKey E ''aaa'' (Some (at_rnd (op_last (net0 bai)))) \<noteq> MakeHashKey E ''hs'' (Some (at_rnd (op_last (net0 bai))))"
    using hash [of "''hs''"] by (simp add: salt(1))
  note o = opened_once [OF E L sc opts r0 d h]
  have "store_mode db0 = MHash" using o(1) by (simp add: mode_of_def)
  from hash_store_cases [OF this o(2)] obtain b0 where b0: "db0 = HashStore b0" by blast
  have salt0: "hs_salt b0 = Some salt" using o(5) by (simp add: b0 salt_of_def salt(1))
  from newAccessStore_ok [OF acc(1) key(1)] obtain b where
    g: "grant_all E (Some sk) (Some vk) [(st_putKey E db0 ''aaa'', now0, val0)] db0 = (b, None)"
    and dbA: "dbA = AccessStore b None (Some vk)" .
  note grant = g [unfolded grant_one]
  note puts = hash_granted_puts [OF E L r0 d grant hash [unfolded salt(1)]]
  have g0: "grant_all E (Some sk) (Some vk) [(st_putKey E db0 ''aaa'', now0, val0)] (HashStore b0) = (b, None)"
    using g unfolding b0 .
  have "\<exists>s'. b = HashStore s' \<and> hs_salt s' = hs_salt b0 \<and>
      (\<forall>(access, now, v) \<in> set [(st_putKey E db0 ''aaa'', now0, val0)].
         \<exists>k. hs_grants E (hs_salt b0) (hs_table els s') (accessKey E (Some vk) access) k)"
    by (rule grant_all_hash [OF E1 libs kdf _ g0]) (use key(2) acc(2) in auto)
  then obtain s' k where b: "b = HashStore s'" "hs_salt s' = hs_salt b0"
    and k: "hs_grants E (hs_salt b0) (hs_table els s') (accessKey E (Some vk) (st_putKey E db0 ''aaa'')) k" by auto
  have ak: "accessKey E (Some vk) (st_putKey E db0 ''aaa'') \<noteq> []" using grant_all_key [OF g] by auto
  have face: "bs_name (st_base b) = ''hs''" "bs_timeLimit (st_base b) = zero_time"
    using puts(1) o(3,4) by (simp_all add: same_face_def)
  obtain c p' where c: "db1 = AccessStore c p' (Some vk)" "store_mode c = mode_of ''hash''" "\<nexists>b' p q. c = AccessStore b' p q"
    "mode_of ''hash'' = MHash \<Longrightarrow> salt_of c = salt_of b"
    by (rule loaded_access [OF libs L(2) _ _ _ _ _ _ _ key(3) _ r1 [unfolded dbA]])
      (use b salt0 salt(2) face accessKey_Some [OF ak] in \<open>auto simp: mode_of_def ascii_def salt_of_def\<close>)
  then obtain c' where c': "c = HashStore c'" "hs_salt c' = hs_salt s'"
    using hash_store_cases [of c] b(1) by (auto simp: mode_of_def salt_of_def)
  have p2: "snd (st_Put E now2 ''aaa'' meow2 b) = None" by (rule puts(2))
  obtain b' where b': "st_Put E now1 ''aaa'' meow b = (b', None)" using puts(2) [of now1 meow] by (metis prod.collapse)
  have p3: "st_table els b' (newKey (lib_ds E) ''aaa'') = None" by (rule puts(3) [OF _ b'])
  have pk: "st_putKey E db0 ''aaa'' = MakeHashKey E ''aaa'' (hs_salt s')" by (simp add: b0 hs_putKey_def b(2))
  have "ac_Verify E b (Some vk) (st_putKey E b ''aaa'') = None"
    by (simp add: b(1)) (rule hash_granted [OF E1 E(2) Q kdf _ _ _ ak], use k pk b in \<open>auto simp: hs_putKey_def\<close>)
  with put b' have s: "s = AccessStore b' None (Some vk)" by (auto simp: dbA)
  have "testHashAccess E now1 now2 d1 d2 (AccessStore b None (Some vk)) (AccessStore c p' (Some vk)) =
    Inr (st_Close E (AccessStore b' None (Some vk)), st_Close E (with_data d2 (AccessStore c p' (Some vk))),
      [LogVal (Some meow), LogHas (Inr True), LogVal (Some meow)])"
    by (rule hash_access_passes [OF E Q b(1) c' pk ak _ b' p2 p3])
      (use k b(2) tab in \<open>auto simp: s st_table_def\<close>)
  with run0 acc(1) run1 show ?thesis
    by (simp add: testHashAccess_all_def dbA c(1) s Let_def)
qed

section \<open>Signature access\<close>

lemma signed_record_signer:
  assumes "libs_ok E" "signed_record E priv pub v = Inr (sKey, r)"
  shows "sKey = PubKeyToStr (lib_id E) (crypto E) pub" "plain_component sKey"
proof -
  show "sKey = PubKeyToStr (lib_id E) (crypto E) pub" using assms(2) by (rule signed_record_Inr)
  show "plain_component sKey" by (rule signed_record_key [OF assms])
qed

lemma accessKey_not_short:
  assumes "\<not> is_newline a" "\<not> is_newline b"
  shows "accessKey E pub access \<noteq> [a, b]"
proof -
  have "b64_encode m \<noteq> [a, b]" for m
  proof
    assume "b64_encode m = [a, b]"
    then have "b64_decode [a, b] = Inr m" by (metis b64_decode_encode)
    then show False by (simp add: short_name [OF assms] b64_corrupt_def)
  qed
  then show ?thesis by (auto simp: accessKey_def Let_def split: sum.splits)
qed

lemma accessKey_not_name: "accessKey E pub access \<noteq> ''us''" "accessKey E pub access \<noteq> ''hs''"
  by (rule accessKey_not_short; simp add: is_newline_def)+

text \<open>The record of a store's name is no version of another path of its owner, nor below one.\<close>

lemma versioned_untouched:
  assumes L: "libs_ok E" and signed: "signed_record E (sg_priv b) (sg_pub b) v = Inr (sKey, r)"
    and tab: "sg_table els b = [CHR ''/'' # (sKey @ CHR ''/'' # nm) @ CHR ''/'' # time_key now0 \<mapsto> rec]"
    and nm: "plain_component nm" "plain_component k" "k \<noteq> nm"
  shows "untouched (sg_table els b) (us_putKey E b k)" "us_putKey E b k = sKey @ CHR ''/'' # k"
proof -
  have "sKey = PubKeyToStr (lib_id E) (crypto E) (sg_pub b)" "plain_component sKey"
    by (rule signed_record_signer [OF L signed])+
  then show pk: "us_putKey E b k = sKey @ CHR ''/'' # k" by (auto simp: us_putKey_def Let_def plain_component_def)
  have "category_of k' \<noteq> us_putKey E b k \<and> \<not> below (us_putKey E b k) k'" if "k' \<in> dom (sg_table els b)" for k'
  proof -
    from that have k': "k' = CHR ''/'' # (sKey @ CHR ''/'' # nm) @ CHR ''/'' # time_key now0" by (simp add: tab split: if_splits)
    have "\<not> below (sKey @ CHR ''/'' # k) k'"
      using below_component [OF nm(2,1), of sKey "time_key now0"] nm(3) unfolding k' by auto
    moreover have "category_of k' \<noteq> sKey @ CHR ''/'' # k" using nm(3) unfolding k' category_of_stamped by simp
    ultimately show ?thesis unfolding pk by blast
  qed
  then show "untouched (sg_table els b) (us_putKey E b k)" by (simp add: untouched_def)
qed

text \<open>After the grant the owner can put.\<close>

lemma granted_put:
  assumes E: "replica_ok E els" "ds_live (lib_ds E) els" and L: "signs E" "protos_total (lib_pb E)"
    and Q: "query_lib_ok nk (lib_q E)"
    and signed: "signed_record E (sg_priv b0) (sg_pub b0) v = Inr (sKey, r)"
    and tab: "sg_table els b0 = [CHR ''/'' # (sKey @ CHR ''/'' # ''us'') @ CHR ''/'' # time_key t0 \<mapsto> rec]"
    and pid: "component_key E sKey = None" and pair: "key_pair (key_ops E) sk vk"
    and grant: "ac_Grant E now0 val sKey (Some sk) (Some vk) (UpdatableSignatureStore b0) = (UpdatableSignatureStore b, None)"
      "val \<noteq> []"
    and now: "wf_time now0"
  obtains b' where "us_Put E now1 ''aaa'' meow b = (b', None)"
    "st_Put E now1 ''aaa'' meow (AccessStore (UpdatableSignatureStore b) p (Some vk)) =
      (AccessStore (UpdatableSignatureStore b') p (Some vk), None)"
proof -
  note E1 = replica_okD(1) [OF E(1)] and libs = replica_okD(2) [OF E(1)]
  let ?ak = "accessKey E (Some vk) sKey"
  have ne: "?ak \<noteq> []" using grant(1) by (auto elim: ac_Grant_ok)
  have key: "sKey = PubKeyToStr (lib_id E) (crypto E) (sg_pub b0)" "plain_component sKey"
    by (rule signed_record_signer [OF libs signed])+
  have us: "plain_component ''us''" by (rule us_name)
  note old = versioned_untouched [OF libs signed tab us accessKey_plain [OF ne] accessKey_not_name(1)]
  from Grant_updatable [OF E1 libs _ _ grant] pair pid key(1) obtain rec' where
    b: "sg_pub b = sg_pub b0" "sg_priv b = sg_priv b0"
    and tb: "sg_table els b = (sg_table els b0)(CHR ''/'' # us_putKey E b0 ?ak @ CHR ''/'' # time_key now0 \<mapsto> rec')"
    by (metis option.inject store.inject(4))
  let ?k = "CHR ''/'' # (sKey @ CHR ''/'' # ''aaa'') @ CHR ''/'' # time_key now1"
  have ne_k: "?k \<noteq> CHR ''/'' # (sKey @ CHR ''/'' # x) @ CHR ''/'' # time_key t" if "x \<noteq> ''aaa''" for x t
  proof
    assume "?k = CHR ''/'' # (sKey @ CHR ''/'' # x) @ CHR ''/'' # time_key t"
    then have "category_of ?k = category_of (CHR ''/'' # (sKey @ CHR ''/'' # x) @ CHR ''/'' # time_key t)" by (rule arg_cong)
    with that show False unfolding category_of_stamped by simp
  qed
  have free: "sg_table els b ?k = None"
    using ne_k [OF accessKey_not_aaa, of E "Some vk" sKey now0] ne_k [of "''us''" t0] by (simp add: tb tab old(2))
  have clean: "clean_path (sKey @ CHR ''/'' # ''aaa'')"
    unfolding clean_path_append using plain_clean [OF key(2)] aaa_path(2) by simp
  obtain b' where b': "us_Put E now1 ''aaa'' meow b = (b', None)"
    by (rule us_put_live [OF E1 E(2) L _ clean free]) (use signed b in auto)
  have owner: "us_accessFromKey (trim_prefix (sKey @ CHR ''/'' # ''aaa'') ''/'') = sKey"
    using key(2) by (cases sKey)
      (auto simp: us_accessFromKey_def Let_def key_parts_def go_split_append go_split_no_sep plain_component_def)
  have "ac_Verify E (UpdatableSignatureStore b) (Some vk) (sKey @ CHR ''/'' # ''aaa'') = None"
    by (rule own_grant_verified [OF E Q key(1) pid key(2) pair grant old(1) now map_le_refl _ owner])
  moreover have "us_putKey E b ''aaa'' = sKey @ CHR ''/'' # ''aaa''"
    using key by (auto simp: us_putKey_def Let_def b(1) plain_component_def)
  ultimately show thesis using b' by (intro that) simp_all
qed

text \<open>What the access and the time-limit scenario share: the opening, the grant of the owner's own key string, the put.\<close>

lemma owner_granted_put:
  assumes E: "replica_ok E els" "ds_live (lib_ds E) els" and L: "signs E" "protos_total (lib_pb E)"
    and Q: "query_lib_ok nk (lib_q E)"
    and pid: "pid = PubKeyToStr (lib_id E) (crypto E) (Some vk0)" "component_key E pid = None"
    and key: "generateKeyPair (crypto E) rnd = Inr (sk, vk)" "key_pair (key_ops E) sk vk"
    and run: "test_newStore E ''us'' ''updatableSignature'' tries A rnd0 [opt] = Some (Inr (w0, db0))" "so_Pub opt = Some vk0"
    and d: "run_crdtNew (at_run A) = Inr d" "els d = Map.empty"
    and acc: "newAccessStore E rnd db0 [(pid, now0, val0)] = Inr dbA" "val0 \<noteq> []" and now: "wf_time now0"
    and put: "st_Put E now1 ''aaa'' meow dbA = (s, err)"
  obtains b0 b b' where "db0 = UpdatableSignatureStore b0" "sg_pub b0 = Some vk0"
    "so_Pub (hd (snd (snd (selectNewStore E False ''us'' ''updatableSignature'' A [opt])))) = Some vk0"
    "dbA = AccessStore (UpdatableSignatureStore b) None (Some vk)"
    "ac_Grant E now0 val0 pid (Some sk) (Some vk) (UpdatableSignatureStore b0) = (UpdatableSignatureStore b, None)"
    "us_Put E now1 ''aaa'' meow b = (b', None)" "s = AccessStore (UpdatableSignatureStore b') None (Some vk)" "err = None"
    "untouched (sg_table els b0) (us_putKey E b0 (accessKey E (Some vk) pid))"
    "untouched (sg_table els b0) (us_putKey E b0 ''aaa'')" "plain_component pid" "PubKeyToStr (lib_id E) (crypto E) (Some vk) \<noteq> []"
    "bs_name (sg_base b) = ''us''" "bs_timeLimit (sg_base b) = so_TimeLimit opt"
    "bs_name (sg_base b') = ''us''" "bs_timeLimit (sg_base b') = so_TimeLimit opt"
proof -
  note libs = replica_okD(2) [OF E(1)]
  have us: "plain_component ''us''" by (rule us_name)
  obtain e where name: "parseAddress E ''us'' = Inl e"
    using us_name(1) [of E] by (cases "parseAddress E ''us''") (auto simp: is_ok_def)
  from opened_versioned [OF E(1) name us_name(3) run(1) d] obtain b0 sKey v rc rec where
    b0: "db0 = UpdatableSignatureStore b0" and signed: "signed_record E (sg_priv b0) (sg_pub b0) v = Inr (sKey, rc)"
    and tb: "sg_table els b0 = [CHR ''/'' # (sKey @ CHR ''/'' # ''us'') @ CHR ''/'' # time_key (at_now A) \<mapsto> rec]"
    and nm: "bs_name (sg_base b0) = ''us''" "bs_timeLimit (sg_base b0) = so_TimeLimit opt"
    and pub: "sg_pub b0 = so_Pub (hd (snd (snd (selectNewStore E False ''us'' ''updatableSignature'' A [opt]))))"
    and pub0: "so_Pub opt = None \<or> sg_pub b0 = so_Pub opt" .
  have vk0: "sg_pub b0 = Some vk0" using pub0 run(2) by simp
  note signer = signed_record_signer [OF libs signed]
  have sKey: "sKey = pid" by (simp add: signer(1) pid(1) vk0)
  from newAccessStore_ok [OF acc(1) key(1)] obtain bx where
    g: "grant_all E (Some sk) (Some vk) [(pid, now0, val0)] db0 = (bx, None)" and dbA: "dbA = AccessStore bx None (Some vk)" .
  note grant = g [unfolded grant_one b0]
  obtain b where bx: "bx = UpdatableSignatureStore b" using ac_Grant_kind [OF grant] by (cases bx) auto
  note grant' = grant [unfolded bx, folded sKey]
  obtain b' where b': "us_Put E now1 ''aaa'' meow b = (b', None)"
    "st_Put E now1 ''aaa'' meow (AccessStore (UpdatableSignatureStore b) None (Some vk)) =
      (AccessStore (UpdatableSignatureStore b') None (Some vk), None)"
    by (rule granted_put [OF E L Q signed tb pid(2) [folded sKey] key(2) grant' acc(2) now])
  have ne: "accessKey E (Some vk) sKey \<noteq> []" using grant' by (auto elim: ac_Grant_ok)
  have face: "bs_name (sg_base b) = ''us''" "bs_timeLimit (sg_base b) = so_TimeLimit opt"
    using grant nm by (auto simp: bx elim!: ac_Grant_ok dest!: put_face simp: same_face_def)
  moreover have "same_face (UpdatableSignatureStore b) (UpdatableSignatureStore b')"
    by (rule put_face [where E = E and now = now1 and key = "''aaa''" and val = meow and err = None]) (use b'(1) in simp)
  ultimately have face': "bs_name (sg_base b') = ''us''" "bs_timeLimit (sg_base b') = so_TimeLimit opt"
    by (simp_all add: same_face_def)
  have pubs: "so_Pub (hd (snd (snd (selectNewStore E False ''us'' ''updatableSignature'' A [opt])))) = Some vk0"
    "PubKeyToStr (lib_id E) (crypto E) (Some vk) \<noteq> []"
    using pub vk0 accessKey_Some [OF ne] by metis+
  have s: "s = AccessStore (UpdatableSignatureStore b') None (Some vk)" "err = None"
    using put b'(2) by (simp_all add: dbA bx)
  show thesis
    by (rule that [OF b0 vk0 pubs(1) dbA [unfolded bx] grant [unfolded bx] b'(1) s
          versioned_untouched(1) [OF libs signed tb us accessKey_plain [OF ne] accessKey_not_name(1), unfolded sKey]
          versioned_untouched(1) [OF libs signed tb us aaa_plain] signer(2) [unfolded sKey] pubs(2) face face'])
      simp_all
qed

lemma signature_access_all_passes:
  assumes E: "replica_ok E els" "ds_live (lib_ds E) els" and L: "signs E" "protos_total (lib_pb E)"
    and Q: "query_lib_ok nk (lib_q E)" and bai: "AddrInfoFromString U baiStr = bai"
    and key0: "generateKeyPair (crypto E) rndKey = Inr (sk0, vk0)" "pid = PubKeyToStr (lib_id E) (crypto E) (Some vk0)"
      "component_key E pid = None"
    and key: "generateKeyPair (crypto E) rnd = Inr (sk, vk)" "key_pair (key_ops E) sk vk"
      "ascii (PubKeyToStr (lib_id E) (crypto E) (Some vk))"
    and run0: "open_store E U net0 ''us'' ''updatableSignature'' baiStr [empty_opts\<lparr>so_Priv := Some sk0, so_Pub := Some vk0\<rparr>] =
      Some (Inr (w0, db0))"
    and d: "run_crdtNew (at_run (op_last (net0 bai))) = Inr d" "els d = Map.empty"
    and acc: "newAccessStore E rnd db0 [(pid, now0, val0)] = Inr dbA" "val0 \<noteq> []"
    and run1: "open_store E U net1 (st_Address E dbA) ''updatableSignature'' baiStr [] = Some (Inr (w1, db1))"
    and now: "wf_time now0" "wf_time now1"
    and put: "st_Put E now1 ''aaa'' meow dbA = (s, err)" and tab: "els d1 = st_table els s"
  shows "testSignatureAccess_all E U net0 net1 rndKey rnd (now0, val0) now1 d1 baiStr =
    Some (Inr (st_Close E s, st_Close E (with_data d1 db1), [LogVal (Some meow)]))"
proof -
  note libs = replica_okD(2) [OF E(1)]
  note r0 = run0 [unfolded open_store_def Let_def bai] and r1 = run1 [unfolded open_store_def Let_def bai]
  let ?opt = "empty_opts\<lparr>so_Priv := Some sk0, so_Pub := Some vk0\<rparr>"
  have opt: "so_Pub ?opt = Some vk0" by simp
  obtain b0 b b' where
    b0: "db0 = UpdatableSignatureStore b0" "sg_pub b0 = Some vk0"
      "so_Pub (hd (snd (snd (selectNewStore E False ''us'' ''updatableSignature'' (op_last (net0 bai)) [?opt])))) = Some vk0"
    and b: "dbA = AccessStore (UpdatableSignatureStore b) None (Some vk)"
      "ac_Grant E now0 val0 pid (Some sk) (Some vk) (UpdatableSignatureStore b0) = (UpdatableSignatureStore b, None)"
    and b': "us_Put E now1 ''aaa'' meow b = (b', None)" "s = AccessStore (UpdatableSignatureStore b') None (Some vk)" "err = None"
    and fresh: "untouched (sg_table els b0) (us_putKey E b0 (accessKey E (Some vk) pid))"
      "untouched (sg_table els b0) (us_putKey E b0 ''aaa'')"
    and plain: "plain_component pid" and pub: "PubKeyToStr (lib_id E) (crypto E) (Some vk) \<noteq> []"
    and face0: "bs_name (sg_base b) = ''us''" "bs_timeLimit (sg_base b) = so_TimeLimit ?opt"
      "bs_name (sg_base b') = ''us''" "bs_timeLimit (sg_base b') = so_TimeLimit ?opt"
    by (rule owner_granted_put [OF E L Q key0(2,3) key(1,2) r0 opt d acc now(1) put])
  have face: "bs_name (sg_base b) = ''us''" "bs_timeLimit (sg_base b) = zero_time"
    using face0 by (simp_all add: empty_opts_def)
  have m: "mode_of ''updatableSignature'' = MUpdatableSignature" by (simp add: mode_of_def)
  obtain c0 p' where c0: "db1 = AccessStore c0 p' (Some vk)" "store_mode c0 = mode_of ''updatableSignature''"
    "\<nexists>b' p q. c0 = AccessStore b' p q"
    by (rule loaded_access [OF libs L(2) _ _ _ _ _ _ _ key(3) pub r1 [unfolded b(1)]]) (use face in \<open>auto simp: m ascii_def\<close>)
  then obtain c where c: "c0 = UpdatableSignatureStore c" unfolding m by (cases c0) auto
  have pid: "pid = PubKeyToStr (lib_id E) (crypto E) (sg_pub b0)" by (simp add: b0(2) key0(2))
  have "testSignatureAccess E (sg_pub b0) now1 d1 (AccessStore (UpdatableSignatureStore b) None (Some vk))
      (AccessStore (UpdatableSignatureStore c) p' (Some vk)) =
    Inr (st_Close E (AccessStore (UpdatableSignatureStore b') None (Some vk)),
      st_Close E (with_data d1 (AccessStore (UpdatableSignatureStore c) p' (Some vk))), [LogVal (Some meow)])"
    by (rule signature_access_passes [OF E Q pid key0(3) key(2) b(2) acc(2) fresh now b'(1)])
      (use tab in \<open>simp add: b'(2) st_table_def sg_table_def\<close>)
  moreover have "gen_pair E rndKey = (Some sk0, Some vk0)" by (simp add: gen_pair_def key0(1))
  ultimately show ?thesis
    using run0 acc(1) run1
    by (simp add: testSignatureAccess_all_def left_opts_def bai b0 key0(2) b(1) c0(1) c b'(2) Let_def)
qed

text \<open>Both access scenarios under one bootstrap node.\<close>

lemma access_controller_passes:
  assumes hash: "\<And>bai. AddrInfoFromString U bai = bootstrap_AddrInfo N b \<Longrightarrow>
      testHashAccess_all E U net0 net1 rnd grant now1 now2 d1 d2 bai = Some (Inr h)"
    and sig: "\<And>bai. AddrInfoFromString U bai = bootstrap_AddrInfo N b \<Longrightarrow>
      testSignatureAccess_all E U net2 net3 rndKey rnd' grant' now3 d3 bai = Some (Inr s)"
    and U: "util_ok valid U" "NewBootstrap N hGen [] = (left_open, Inr b)" "valid (ai_ID (bootstrap_AddrInfo N b))"
      "AddrInfoToString U (bootstrap_AddrInfo N b) \<noteq> []"
  shows "BaseTestAccessController N U hGen
      (testHashAccess_all E U net0 net1 rnd grant now1 now2 d1 d2)
      (testSignatureAccess_all E U net2 net3 rndKey rnd' grant' now3 d3) = Some (Inr (bootstrap_Close N b, h, s))"
proof -
  let ?bai = "AddrInfoToString U (bootstrap_AddrInfo N b)"
  have "AddrInfoFromString U ?bai = bootstrap_AddrInfo N b" using AddrInfo_roundtrip [OF U(1,3,4)] .
  note hash [OF this] sig [OF this]
  then show ?thesis
    unfolding BaseTestAccessController_def by (intro bootstrap_passed_on(1) [OF U]) simp
qed

section \<open>The time limit\<close>

text \<open>A limit of any zone keeps its instant in the address, and comes back without a monotonic reading.\<close>

lemma time_marshal_again:
  assumes "time_marshal t = Inr b" "t_loc t' = UTC \<longleftrightarrow> t_loc t = UTC" "t_loc t \<noteq> UTC \<Longrightarrow> zone_offset t' = zone_offset t"
  obtains b' where "time_marshal t' = Inr b'"
proof -
  from time_marshal_Inr [OF assms(1)] obtain m where m: "-32768 \<le> m" "m \<le> 32767" "m = -1 \<longleftrightarrow> t_loc t = UTC"
    "t_loc t \<noteq> UTC \<longrightarrow> m * 60 = zone_offset t" by blast
  have "\<exists>b'. time_marshal t' = Inr b'"
  proof (cases "t_loc t'")
    case UTC
    then show ?thesis by (simp add: time_marshal_def Let_def)
  next
    case (Zone z)
    with assms(2,3) m have "snd z (unix_sec t') = m * 60" "m \<noteq> -1" by (simp_all add: zone_offset_def)
    with Zone m(1,2) show ?thesis by (simp add: time_marshal_def Let_def)
  qed
  with that show thesis by blast
qed

lemma access_address_instant:
  assumes P: "protos_ok (lib_pb E)" "protos_total (lib_pb E)"
    and b: "\<nexists>b' p q. b = AccessStore b' p q" "ascii (bs_name (st_base b))"
    and pub: "ascii (PubKeyToStr (lib_id E) (crypto E) pub)" and lim: "time_marshal (bs_timeLimit (st_base b)) = Inr mt"
  obtains lim' where "parseAddress E (st_Address E (AccessStore b priv pub)) =
      Inr (bs_name (st_base b), canon_slice (salt_of b), PubKeyToStr (lib_id E) (crypto E) pub, lim')"
    "instant_of lim' = instant_of (bs_timeLimit (st_base b))" "no_mono lim'"
proof -
  obtain l1 where l1: "time_unmarshal (local_zone E) mt = Inr l1" "instant_of l1 = instant_of (bs_timeLimit (st_base b))"
    "no_mono l1" "t_loc l1 = UTC \<longleftrightarrow> t_loc (bs_timeLimit (st_base b)) = UTC"
    "t_loc (bs_timeLimit (st_base b)) \<noteq> UTC \<Longrightarrow> zone_offset l1 = zone_offset (bs_timeLimit (st_base b))"
    by (rule time_roundtrip_instant [OF lim, where local = "local_zone E"]) blast
  obtain mt1 where mt1: "time_marshal l1 = Inr mt1" by (rule time_marshal_again [OF lim l1(4,5)])
  obtain l2 where l2: "time_unmarshal (local_zone E) mt1 = Inr l2" "instant_of l2 = instant_of l1" "no_mono l2"
    by (rule time_roundtrip_instant [OF mt1, where local = "local_zone E"])
  have "parseAddress E (st_Address E b) = Inr (bs_name (st_base b), canon_slice (salt_of b), [], l1)"
    using parse_MakeAddress [OF P b(2) _ lim l1(1), of "[]"] by (simp add: plain_address [OF b(1)] ascii_def)
  then have "st_Address E (AccessStore b priv pub) =
      MakeAddress E (bs_name (st_base b)) (PubKeyToStr (lib_id E) (crypto E) pub) (canon_slice (salt_of b)) [l1]"
    by (simp add: Let_def)
  with parse_MakeAddress [OF P b(2) pub mt1 l2(1), of "canon_slice (salt_of b)"] l2(2,3) l1(2) show thesis
    by (intro that) simp_all
qed

lemma passed_instant:
  assumes "no_mono lim" "instant_of lim \<noteq> instant_of zero_time" "instant_of lim < instant_of now"
  shows "passed lim now"
  using assms by (simp add: passed_def time_equal_instant time_before_instant)

text \<open>
  The first peer puts before its limit; the second loads after it, from the address in the limit's own
  zone, and holds a closed store.
\<close>

lemma time_limit_all_passes:
  assumes E: "replica_ok E els" "ds_live (lib_ds E) els" and L: "signs E" "protos_total (lib_pb E)"
    and Q: "query_lib_ok nk (lib_q E)" and bai: "AddrInfoFromString U baiStr = bai"
    and pid: "pid = PubKeyToStr (lib_id E) (crypto E) (Some vk0)" "component_key E pid = None"
    and key: "generateKeyPair (crypto E) rnd = Inr (sk, vk)" "key_pair (key_ops E) sk vk"
      "ascii (PubKeyToStr (lib_id E) (crypto E) (Some vk))"
    and run0: "open_store E U net0 ''us'' ''updatableSignature'' baiStr
        [\<lparr>so_Salt = None, so_Priv = Some sk0, so_Pub = Some vk0, so_TimeLimit = end'\<rparr>] = Some (Inr (w0, db0))"
    and d: "run_crdtNew (at_run (op_last (net0 bai))) = Inr d" "els d = Map.empty"
    and acc: "newAccessStore E rnd db0 [(pid, now0, val0)] = Inr dbA" "val0 \<noteq> []" and now: "wf_time now0"
    and put: "st_Put E now1 ''aaa'' meow dbA = (s, err)"
    and run1: "open_store E U net1 (st_Address E s) ''updatableSignature'' baiStr [] = Some (Inr (w1, db1))"
    and lim: "time_marshal end' = Inr mt" "instant_of end' \<noteq> instant_of zero_time"
    and late: "\<And>i. instant_of end' < instant_of (at_now (fst (op_tries (net1 bai) i)))"
      "instant_of end' < instant_of (at_now (op_last (net1 bai)))"
    and empty: "st_table els db1 = Map.empty"
  shows "BaseTestTimeLimit_all E U net0 net1 (Some sk0, Some vk0) end' rnd (now0, val0) now1 baiStr =
    Some (Inr (st_Close E s, st_Close E db1))"
proof -
  note E1 = replica_okD(1) [OF E(1)] and libs = replica_okD(2) [OF E(1)]
  note r0 = run0 [unfolded open_store_def Let_def bai] and r1 = run1 [unfolded open_store_def Let_def bai]
  let ?opt = "\<lparr>so_Salt = None, so_Priv = Some sk0, so_Pub = Some vk0, so_TimeLimit = end'\<rparr>"
  have opt: "so_Pub ?opt = Some vk0" by simp
  obtain b0 b b' where
    b0: "db0 = UpdatableSignatureStore b0" "sg_pub b0 = Some vk0"
      "so_Pub (hd (snd (snd (selectNewStore E False ''us'' ''updatableSignature'' (op_last (net0 bai)) [?opt])))) = Some vk0"
    and b: "dbA = AccessStore (UpdatableSignatureStore b) None (Some vk)"
      "ac_Grant E now0 val0 pid (Some sk) (Some vk) (UpdatableSignatureStore b0) = (UpdatableSignatureStore b, None)"
    and b': "us_Put E now1 ''aaa'' meow b = (b', None)" "s = AccessStore (UpdatableSignatureStore b') None (Some vk)" "err = None"
    and fresh: "untouched (sg_table els b0) (us_putKey E b0 (accessKey E (Some vk) pid))"
      "untouched (sg_table els b0) (us_putKey E b0 ''aaa'')"
    and plain: "plain_component pid" and pub: "PubKeyToStr (lib_id E) (crypto E) (Some vk) \<noteq> []"
    and face0: "bs_name (sg_base b) = ''us''" "bs_timeLimit (sg_base b) = so_TimeLimit ?opt"
      "bs_name (sg_base b') = ''us''" "bs_timeLimit (sg_base b') = so_TimeLimit ?opt"
    by (rule owner_granted_put [OF E L Q pid key(1,2) r0 opt d acc now put])
  have face: "bs_name (sg_base b') = ''us''" "bs_timeLimit (sg_base b') = end'" using face0 by simp_all
  have b'_ok: "time_marshal (bs_timeLimit (st_base (UpdatableSignatureStore b'))) = Inr mt"
    "ascii (bs_name (st_base (UpdatableSignatureStore b')))" "\<nexists>x p q. UpdatableSignatureStore b' = AccessStore x p q"
    by (simp_all add: face lim(1) us_name(4))
  obtain lim' where addr0: "parseAddress E (st_Address E (AccessStore (UpdatableSignatureStore b') None (Some vk))) =
      Inr (bs_name (st_base (UpdatableSignatureStore b')), canon_slice (salt_of (UpdatableSignatureStore b')),
        PubKeyToStr (lib_id E) (crypto E) (Some vk), lim')"
    and i: "instant_of lim' = instant_of (bs_timeLimit (st_base (UpdatableSignatureStore b')))" and nomono: "no_mono lim'"
    by (rule access_address_instant [OF libs_okD(1) [OF libs] L(2) b'_ok(3,2) key(3) b'_ok(1)])
  have lim': "instant_of lim' = instant_of end'" "no_mono lim'" using i nomono by (simp_all add: face)
  have "salt_of (UpdatableSignatureStore b') = None" by (simp add: salt_of_def)
  with addr0 have addr: "parseAddress E (st_Address E s) = Inr (''us'', None, PubKeyToStr (lib_id E) (crypto E) (Some vk), lim')"
    by (simp add: b'(2) face canon_slice_def del: st_Address.simps)
  have m: "mode_of ''updatableSignature'' = MUpdatableSignature" by (simp add: mode_of_def)
  note run = test_newStore_Some [OF r1]
  obtain c p' where c: "db1 = AccessStore c p' (Some vk)" "store_mode db1 = mode_of ''updatableSignature''"
    by (rule NewStore_access_store [OF libs addr refl pub _ run]) (use m in auto)
  have closed: "\<not> bs_inTime (st_base db1)"
    by (rule late_store [OF addr _ _ run]) (use lim' lim(2) late in \<open>auto intro!: passed_instant\<close>)
  have "clean_path (PubKeyToStr (lib_id E) (crypto E) (Some vk0) @ CHR ''/'' # ''aaa'')"
    unfolding clean_path_append pid(1) [symmetric] using plain_clean [OF plain] aaa_path(2) by simp
  then have "BaseTestTimeLimit E (Some vk0) s db1 = Inr (st_Close E s, st_Close E db1)"
    by (intro time_limit_passes [OF E1 E(2) Q _ _ empty closed]) (use c m in simp_all)
  moreover have "so_Pub (left_opts E U net0 ''us'' ''updatableSignature'' baiStr ?opt) = Some vk0"
    by (simp add: left_opts_def bai b0(3))
  ultimately show ?thesis
    using run0 acc(1) put b'(3) run1 by (simp add: BaseTestTimeLimit_all_def pid(1) Let_def del: st_Put.simps)
qed

end
