(* ===== verification/Openings.thy ===== *)
theory Openings
  imports AcceptanceAccess
begin

text \<open>
  When an opening succeeds: a new store, when no call of its set-up fails and the options can sign; a
  store loaded by its address, when besides the first data arrives before the end of the window. The
  scenarios take the openings for granted; here is what that asks of the libraries.
\<close>

section \<open>Constructors\<close>

definition calls_ok :: "'d setup_run \<Rightarrow> bool" where
  "calls_ok R \<longleftrightarrow> run_hGenerator R = None \<and> run_mkdirAll R = None \<and> run_newDHT R = None \<and> run_newBadger R = None
     \<and> run_newIpfs R = None \<and> run_newGossip R = None \<and> run_register R = None \<and> run_newBroadcaster R = None
     \<and> is_ok (run_crdtNew R) \<and> run_bootstrap R = None"

text \<open>The key pair a signed store gets: the one of its options, or a fresh one.\<close>

definition store_pair :: "('d, 'priv, 'pub) env \<Rightarrow> bytes \<Rightarrow> ('priv, 'pub) store_opts \<Rightarrow> 'priv option \<times> 'pub option" where
  "store_pair E rnd opt = (if so_Pub opt = None then gen_pair E rnd else (so_Priv opt, so_Pub opt))"

definition opts_sign :: "('d, 'priv, 'pub) env \<Rightarrow> bytes \<Rightarrow> ('priv, 'pub) store_opts \<Rightarrow> bool" where
  "opts_sign E rnd opt \<longleftrightarrow> fst (store_pair E rnd opt) \<noteq> None
     \<and> PubKeyToStr (lib_id E) (crypto E) (snd (store_pair E rnd opt)) \<noteq> []"

lemma initCRDT_opens:
  assumes "calls_ok R"
  obtains opened st where "initCRDT save name R = (opened, Inr st)" "bs_inTime st"
  using assms by (auto simp: calls_ok_def initCRDT_def setupStore_def is_ok_iff)

lemma selectNewStore_opens:
  assumes "calls_ok (at_run A)"
  obtains opened s opts where "selectNewStore E save name md A [opt] = (opened, Inr s, opts)"
proof -
  obtain opened st where i: "initCRDT save name (at_run A) = (opened, Inr st)" by (rule initCRDT_opens [OF assms])
  have "\<exists>s opts. selectNewStore E save name md A [opt] = (opened, Inr s, opts)"
    by (simp add: selectNewStore_def NewLogStore_def NewUpdatableStore_def NewSignatureStore_def NewUpdatableSignatureStore_def
        NewHashStore_def i split_beta)
  with that show thesis by blast
qed

lemma selectNewStore_signer:
  assumes "selectNewStore E save name md A [opt] = (opened, Inr s, opts)"
  shows "s = SignatureStore b \<Longrightarrow> (sg_priv b, sg_pub b) = store_pair E (at_rnd A) opt"
    and "s = UpdatableSignatureStore b \<Longrightarrow> (sg_priv b, sg_pub b) = store_pair E (at_rnd A) opt"
  using assms
  by (auto simp: selectNewStore_def NewLogStore_def NewUpdatableStore_def NewSignatureStore_def NewUpdatableSignatureStore_def
      NewHashStore_def getSignatureOpts_def getUpdatableSignatureOpts_def store_pair_def Let_def
      split: if_splits prod.splits sum.splits)

section \<open>New stores\<close>

lemma signed_record_live:
  assumes "signs E" "protos_total (lib_pb E)" "priv \<noteq> None" "PubKeyToStr (lib_id E) (crypto E) pub \<noteq> []"
  obtains sKey msd where "signed_record E priv pub val = Inr (sKey, msd)"
proof -
  obtain sk where sk: "priv = Some sk" using assms(3) by blast
  from assms(1) obtain sign where sign: "k_sign (key_ops E) sk val = Inr sign" by (auto simp: signs_def is_ok_iff)
  from assms(2) have "is_ok (c_marshal (pb_sig (lib_pb E)) \<lparr>sd_value = Some val, sd_sign = Some sign\<rparr>)"
    by (simp add: protos_total_def codec_total_def is_ok_iff)
  then obtain m where "c_marshal (pb_sig (lib_pb E)) \<lparr>sd_value = Some val, sd_sign = Some sign\<rparr> = Inr m"
    by (auto simp: is_ok_iff)
  with sk sign assms(4) that show thesis by (simp add: signed_record_def)
qed

text \<open>On empty data every put succeeds that can be signed.\<close>

lemma empty_put:
  assumes E: "env_ok E els" "ds_live (lib_ds E) els" and L: "signs E" "protos_total (lib_pb E)"
    and s: "\<nexists>b p q. s = AccessStore b p q" "st_table els s = Map.empty" and key: "ascii key"
    and sign: "\<And>b. s = SignatureStore b \<or> s = UpdatableSignatureStore b \<Longrightarrow>
      sg_priv b \<noteq> None \<and> PubKeyToStr (lib_id E) (crypto E) (sg_pub b) \<noteq> []"
  shows "snd (st_Put E now key val s) = None"
proof (cases s)
  case (SignatureStore b)
  then obtain sKey msd where "signed_record E (sg_priv b) (sg_pub b) val = Inr (sKey, msd)"
    using signed_record_live [OF L] sign by metis
  with base_Put_live [OF E, of "sg_base b"] s(2) SignatureStore show ?thesis
    by (simp add: sg_Put_def st_table_def split_beta)
next
  case (UpdatableSignatureStore b)
  then obtain sKey msd where "signed_record E (sg_priv b) (sg_pub b) val = Inr (sKey, msd)"
    using signed_record_live [OF L] sign by metis
  with base_Put_live [OF E, of "sg_base b"] s(2) UpdatableSignatureStore show ?thesis
    by (simp add: us_Put_def upd_Put_eq st_table_def split_beta)
next
  case (HashStore b)
  from L(2) key obtain m where
    "c_marshal (pb_hash (lib_pb E)) \<lparr>hd_baseHash = key, hd_salt = hs_salt b, hd_value = Some val\<rparr> = Inr m"
    by (force simp: protos_total_def codec_total_def is_ok_iff)
  with base_Put_live [OF E, of "hs_base b"] s(2) HashStore show ?thesis
    by (simp add: hs_Put_def st_table_def split_beta)
qed (use s base_Put_live [OF E] in \<open>auto simp: upd_Put_eq st_table_def split_beta\<close>)

lemma new_store_opens:
  assumes E: "env_ok E els" "ds_live (lib_ds E) els" and L: "signs E" "protos_total (lib_pb E)"
    and name: "parseAddress E name = Inl err" "ascii name"
    and A: "calls_ok (at_run A)" "\<And>d. run_crdtNew (at_run A) = Inr d \<Longrightarrow> els d = Map.empty"
    and opt: "opt = (case opts of [] \<Rightarrow> empty_opts | o0 # _ \<Rightarrow> o0)"
    and sign: "signed_mode (mode_of md) \<Longrightarrow> opts_sign E (at_rnd A) opt"
  obtains s where "NewStore E save name md tries A rnd opts = Some (clean_world, Some s, None)"
    "store_mode s = mode_of md" "bs_name (st_base s) = name" "bs_timeLimit (st_base s) = so_TimeLimit opt"
    "\<nexists>b p q. s = AccessStore b p q"
proof -
  obtain opened s1 opts' where sel: "selectNewStore E save name md A [opt] = (opened, Inr s1, opts')"
    by (rule selectNewStore_opens [OF A(1)])
  note fresh = selectNewStore_ok(1) [OF sel]
  have f: "store_mode s1 = mode_of md" "bs_name (st_base s1) = name" "\<nexists>b p q. s1 = AccessStore b p q"
    using fresh by (auto simp: fresh_store_def)
  obtain d where d: "run_crdtNew (at_run A) = Inr d" using A(1) by (auto simp: calls_ok_def is_ok_iff)
  have "snd (st_Put E (at_now A) name (bytes_of_string name) s1) = None"
  proof (rule empty_put [OF E L f(3) _ name(2)])
    show "st_table els s1 = Map.empty" using selectNewStore_table [OF sel d] A(2) [OF d] by simp
    fix b assume b: "s1 = SignatureStore b \<or> s1 = UpdatableSignatureStore b"
    then have "signed_mode (mode_of md)" using f(1) by (auto simp: signed_mode_def)
    from sign [OF this] b show "sg_priv b \<noteq> None \<and> PubKeyToStr (lib_id E) (crypto E) (sg_pub b) \<noteq> []"
      using selectNewStore_signer [OF sel, of b] by (auto simp: opts_sign_def dest!: sym [of "(_, _)"])
  qed
  then obtain s2 where put: "st_initPut E (at_now A) s1 = (s2, None)"
    using initPut_Put [OF f(3)] f(2) by (metis prod.collapse)
  have "finishStore E rnd [] (newStore E save name md A opt) = (clean_world, Some (st_autoSync E s2), None)"
    by (simp add: newStore_def sel put finishStore_def)
  moreover have "same_face s1 (st_autoSync E s2)"
    by (rule same_face_trans [OF initPut_face [OF put] autoSync_face])
  note fresh_face [OF fresh this]
  ultimately show thesis
    using name(1) opt by (intro that [of "st_autoSync E s2"]) (simp_all add: NewStore_def)
qed

section \<open>Loaded stores\<close>

text \<open>Over data that is not empty, a query for one key delivers one.\<close>

lemma one_key_answer:
  assumes E: "env_ok E els" "ds_live (lib_ds E) els"
    and q: "q_limit q = 1" "q_offset q = 0" "q_filters q = []" "q_prefix q = []"
    and k: "base_table els b k = Some v"
  obtains r where "base_Query E b [q] = Inr [r]" "r_error r = None" "e_key r \<in> dom (base_table els b)"
proof -
  obtain rs where run: "base_Query E b [q] = Inr rs" by (rule base_Query_live [OF E(2)])
  have ans: "answers (newKey (lib_ds E)) q (base_table els b) rs"
    using base_Query_answers [OF E(1) run] by simp
  then obtain es where full: "full_answer (newKey (lib_ds E)) q (base_table els b) es" and rs: "rs = map ok_result (window q es)"
    by (rule answersE) (simp_all add: q)
  have "k \<in> e_key ` set es"
    by (rule full_answer_covers [OF full]) (use k q in \<open>auto simp: selects_def prefix_selects_def\<close>)
  then obtain e es' where es: "es = e # es'" by (cases es) auto
  have "exhibits q (base_table els b) e" using full_answerD(1) [OF full, of e] by (simp add: es)
  then have "e_key e \<in> dom (base_table els b)" by (auto simp: exhibits_def)
  moreover have "rs = [ok_result e]" by (simp add: rs es window_def q)
  ultimately show thesis using run by (intro that [of "ok_result e"]) simp_all
qed

definition categorised :: "mode \<Rightarrow> (string \<rightharpoonup> bytes) \<Rightarrow> bool" where
  "categorised md m \<longleftrightarrow> (md \<in> {MUpdatable, MUpdatableSignature} \<longrightarrow> (\<forall>k \<in> dom m. has_category k \<and> category_of k \<noteq> []))"

lemma latest_one: "has_category (e_key r) \<Longrightarrow> category_of (e_key r) \<noteq> [] \<Longrightarrow> latest_only [] [r] = [r]"
  by (simp add: latest_only.simps(2) has_category_def category_of_def butlast_conv_take Let_def eq_commute)

lemma loadCheck_arrived:
  assumes E: "env_ok E els" "ds_live (lib_ds E) els" and Q: "query_lib_ok nk (lib_q E)"
    and s: "\<nexists>b p q. s = AccessStore b p q" and k: "st_table els s k = Some v" and cat: "categorised (store_mode s) (st_table els s)"
  shows "st_loadCheck E s"
proof -
  have rest: "results_rest (lib_q E) [r] = Inr [entry_of r]" if "r_error r = None" for r
    using query_lib_okD(7) [OF Q, of "[r]"] that by simp
  have base: "loadCheck_with E (base_Query E b) b" if b: "base_table els b = st_table els s" for b
  proof -
    obtain r where "base_Query E b [one_key_query] = Inr [r]" "r_error r = None"
      by (rule one_key_answer [OF E, of one_key_query b k v]) (use k b in \<open>auto simp: one_key_query_def\<close>)
    with rest show ?thesis by (simp add: loadCheck_with_def)
  qed
  have upd: "upd_loadCheck E b" if b: "base_table els b = st_table els s" "store_mode s \<in> {MUpdatable, MUpdatableSignature}" for b
  proof -
    let ?q = "one_key_query\<lparr>q_orders := q_orders one_key_query @ [categoryOrder, updatableOrder (local_zone E)]\<rparr>"
    obtain r where r: "base_Query E b [?q] = Inr [r]" "r_error r = None" "e_key r \<in> dom (base_table els b)"
      by (rule one_key_answer [OF E, of ?q b k v]) (use k b in \<open>auto simp: one_key_query_def\<close>)
    with cat b have "latest_only [] [r] = [r]" by (intro latest_one) (auto simp: categorised_def)
    with r rest show ?thesis by (simp add: upd_loadCheck_def loadCheck_with_def upd_Query_def upd_baseQuery_def)
  qed
  have us: "us_loadCheck E b" if "upd_loadCheck E (sg_base b)" for b
    using that by (simp add: us_loadCheck_def upd_loadCheck_def)
  show ?thesis
    using s base upd us
    by (cases s) (auto simp: base_loadCheck_def sg_loadCheck_def hs_loadCheck_def st_table_def)
qed

text \<open>The first turn succeeds when no call fails and at the first tick a record has arrived.\<close>

lemma loaded_store_opens:
  assumes E: "env_ok E els" "ds_live (lib_ds E) els" and Q: "query_lib_ok nk (lib_q E)"
    and addr: "parseAddress E name = Inr (stName, salt, [], lim)"
    and trial: "tries 0 = (A, Tick d over # evs)" "calls_ok (at_run A)" "snd (ds_sync (lib_ds E) d) = None"
    and k: "els d k = Some v" and cat: "categorised (mode_of md) (els d)"
  obtains s where "NewStore E save name md tries A' rnd opts = Some (clean_world, Some s, None)"
    "store_mode s = mode_of md" "bs_name (st_base s) = stName" "bs_timeLimit (st_base s) = lim" "st_table els s = els d"
proof -
  let ?opt = "(case opts of [] \<Rightarrow> empty_opts | o0 # _ \<Rightarrow> o0)\<lparr>so_Salt := salt, so_TimeLimit := lim\<rparr>"
  obtain opened s1 opts' where sel: "selectNewStore E save stName md A [?opt] = (opened, Inr s1, opts')"
    by (rule selectNewStore_opens [OF trial(2)])
  note fresh = selectNewStore_ok(1) [OF sel]
  define s2 where "s2 = fst (st_Sync E (arrive d over s1))"
  have face: "same_face s1 s2"
    unfolding s2_def by (rule same_face_trans [OF arrive_face sync_face])
  note f = fresh_face [OF fresh face]
  have data: "bs_dt (st_base (arrive d over s1)) = d"
    by (simp add: arrive_def end_window_def with_data_def Let_def)
  then have sync: "snd (st_Sync E (arrive d over s1)) = None"
    using trial(3) by (simp add: st_Sync_def base_Sync_def split_beta Let_def)
  have tab: "st_table els s2 = els d"
    using data ds_okD(7) [OF env_okD(1) [OF E(1)], of d]
    by (simp add: s2_def st_Sync_def base_Sync_def st_table_def base_table_def split_beta Let_def)
  have "st_loadCheck E s2"
    by (rule loadCheck_arrived [OF E Q f(4), of k v]) (use tab k cat f(1) in simp_all)
  then have "verse_loadCheck E (Tick d over # evs) s1 = Some (s2, None)"
    using sync by (simp add: s2_def split_beta)
  then have "loadTries E save stName md (map tries [0..<N_load]) clean_world ?opt = Some (clean_world, Some (Some s2, None), hd opts')"
    using sel by (simp add: N_load_def numeral_3_eq_3 upt_rec trial(1))
  then have "loadStore E save stName md tries A' ?opt = Some (clean_world, (Some s2, None), hd opts')"
    by (simp add: loadStore_def)
  then have "NewStore E save name md tries A' rnd opts = Some (clean_world, Some (st_autoSync E s2), None)"
    by (simp add: NewStore_def addr finishStore_def)
  moreover note fresh_face [OF fresh same_face_trans [OF face autoSync_face]]
  ultimately show thesis using tab autoSync_table [OF E(1), of s2] by (intro that [of "st_autoSync E s2"]) simp_all
qed

end
