(* ===== verification/Net_Reference.thy ===== *)
theory Net_Reference
  imports Reference Peers FileScenario PubSub Openings
begin

text \<open>
  Small concrete instances of the libraries under util.go, discovery.go, ipfs and pubsub, which satisfy
  the laws those theories name; the concrete runs of the properties use them.
\<close>

section \<open>Lists of fields\<close>

fun dec_fields :: "nat \<Rightarrow> bytes \<Rightarrow> bytes list" where
  "dec_fields 0 b = []"
| "dec_fields (Suc n) b = (if b = [] then [] else let (x, r) = dec_field b in x # dec_fields n r)"

definition enc_list :: "bytes list \<Rightarrow> bytes" where "enc_list xs = concat (map enc_field xs)"

definition dec_list :: "bytes \<Rightarrow> bytes list" where "dec_list b = dec_fields (length b) b"

lemma dec_fields_enc: "length xs \<le> n \<Longrightarrow> dec_fields n (enc_list xs) = xs"
proof (induction xs arbitrary: n)
  case Nil
  show ?case by (cases n) (simp_all add: enc_list_def)
next
  case (Cons x xs)
  then obtain m where m: "n = Suc m" "length xs \<le> m" by (cases n) auto
  with Cons.IH [OF m(2)] show ?case by (simp add: enc_list_def)
qed

lemma enc_list_length: "length xs \<le> length (enc_list xs)"
  by (induction xs) (simp_all add: enc_list_def enc_field_length)

lemma dec_enc_list [simp]: "dec_list (enc_list xs) = xs" "dec_list [] = []"
  by (simp_all add: dec_list_def dec_fields_enc [OF enc_list_length])

section \<open>Peers\<close>

definition enc_info :: "pb_addr_info \<Rightarrow> bytes" where
  "enc_info pa = enc_list (bytes_of_string (pa_ID pa) # pa_Addrs pa)"

definition dec_info :: "bytes \<Rightarrow> pb_addr_info" where
  "dec_info b = (case dec_list b of [] \<Rightarrow> \<lparr>pa_ID = [], pa_Addrs = []\<rparr>
     | i # as \<Rightarrow> \<lparr>pa_ID = dec_str i, pa_Addrs = as\<rparr>)"

lemma dec_enc_info [simp]: "dec_info (enc_info pa) = pa" "dec_info [] = \<lparr>pa_ID = [], pa_Addrs = []\<rparr>"
  by (simp_all add: dec_info_def enc_info_def)

definition U0 :: "byte util_lib" where
  "U0 = \<lparr>ma_bytes = (\<lambda>a. [a]), ma_new = (\<lambda>b. case b of [a] \<Rightarrow> Inr a | _ \<Rightarrow> Inl (ErrLib ''invalid multiaddr'')),
     ul_id = ref_id,
     pb_info = \<lparr>c_marshal = Inr \<circ> enc_info, c_unmarshal = Inr \<circ> dec_info\<rparr>,
     pb_infos = \<lparr>c_marshal = (\<lambda>pas. Inr (enc_list (map enc_info pas))),
       c_unmarshal = (\<lambda>b. Inr (map dec_info (dec_list b)))\<rparr>\<rparr>"

lemma U0_ok: "util_ok (\<lambda>_. True) U0"
proof -
  have "map (dec_info \<circ> enc_info) pas = pas" for pas by (induction pas) simp_all
  then show ?thesis
    by (simp add: util_ok_def U0_def codec_ok_def ref_id_def del: b64_encode.simps)
qed

text \<open>A host that reaches the peers 1 and 2 only; its state is the list of the peers it is connected to.\<close>

definition N0 :: "(bytes list, byte) net" where
  "N0 = \<lparr>nt_id = (\<lambda>_. [0]), nt_addrs = (\<lambda>_. [7]), nt_peers = (\<lambda>h. h), nt_connected = (\<lambda>h i. i \<in> set h),
     nt_connect = (\<lambda>h p. if ai_ID p = [1] \<or> ai_ID p = [2] then (ai_ID p # h, None) else (h, Some (ErrLib ''dial''))),
     nt_kadNew = (\<lambda>h. (h, None)), nt_dhtBootstrap = (\<lambda>h. (h, None)), nt_advertise = (\<lambda>h _. h),
     nt_findPeers = (\<lambda>h _. Inr []), nt_dhtClose = (\<lambda>h. h), nt_hostClose = (\<lambda>h. [])\<rparr>"

lemma N0_ok: "net_ok N0"
  by (auto simp: net_ok_def N0_def split: if_splits)

section \<open>Files\<close>

definition I0 :: "bytes list ipfs_lib" where
  "I0 = \<lparr>ip_addFile = (\<lambda>s b. (b # s, Inr (b64_encode b))),
     ip_getFile = (\<lambda>s c. case b64_decode c of Inl err \<Rightarrow> Inl err
       | Inr b \<Rightarrow> if b \<in> set s then Inr b else Inl (ErrLib ''not found'')),
     ip_cidDecode = Inr, ip_hasBlock = (\<lambda>s c. (c \<in> b64_encode ` set s, None)),
     ip_cids = \<lparr>c_marshal = (\<lambda>cids. Inr (enc_list (map bytes_of_string cids))),
       c_unmarshal = (\<lambda>b. Inr (map dec_str (dec_list b)))\<rparr>\<rparr>"

lemma I0_ok: "ipfs_ok b64_encode set I0"
proof -
  have "map (dec_str \<circ> bytes_of_string) cids = cids" for cids by (induction cids) simp_all
  then show ?thesis
    by (auto simp: ipfs_ok_def I0_def codec_ok_def simp del: b64_encode.simps)
qed

section \<open>Messages\<close>

definition M0 :: "ps_message codec" where
  "M0 = \<lparr>c_marshal = (\<lambda>m. Inr (enc_field (contents (pm_data m)) @ enc_field (contents (pm_time m)))),
     c_unmarshal = (\<lambda>b. let (d, b) = dec_field b; (t, b) = dec_field b
       in Inr \<lparr>pm_data = dec_slice d, pm_time = dec_slice t\<rparr>)\<rparr>"

lemma M0_ok: "codec_ok zero_ps_message canon_ps_message M0"
  by (simp add: codec_ok_def M0_def zero_ps_message_def canon_ps_message_def)

lemma insert_by_mset [simp]: "mset (insert_by lt x xs) = add_mset x (mset xs)"
  by (induction xs) simp_all

lemma sort_by_mset [simp]: "mset (sort_by lt xs) = mset xs"
  by (induction xs) simp_all

lemma sort_by_sorter: "sorter_ok sort_by"
  by (simp add: sorter_ok_def sort_by_sorted_on weak_on_def)

end
