(* ===== verification/Peer_Properties.thy ===== *)
theory Peer_Properties
  imports Net_Reference
begin

text \<open>
  The properties of the peers of a store together (theories Delivery, DagSync, OpenRuns, Network): where the
  values a peer reads come from, how a put reaches another peer, and what the protocol leaves open.
\<close>




text \<open>
  C6: a put reaches the reader. After a put of a non-empty value under a clean key, on a signature store
  with a real key pair, that reports success, a message whose heads are readable and carry exactly the
  record of the put and no tombstones is accepted by every other copy in time that does not hold a record
  of that key, when the lookup in badger is exact. When go-ds-crdt merges that record and nothing else, and
  takes it in, the merge is a step of that copy, after which the peer reads the value under the writer's
  key.
\<close>

theorem put_reaches_peer:
  assumes "replica_ok E els" and "ds_live (lib_ds E) els" and "has_exact E els has (bs_name (sg_base c))"
    and "clean_path key" and "signed_ok E (sg_priv b) (sg_pub b)" and "sg_Put E key val b = (b', None)"
    and "val \<noteq> []" and "bs_inTime (sg_base c)"
    and "sg_table els c (newKey (lib_ds E) (sg_putKey E b key)) = None"
    and "pid \<noteq> hid" and "msgToCRDTHeads G msg = Inr heads" and "list_all (\<lambda>h. \<not> unreadable G h) heads"
    and "set (delta_records (headDeltas G heads)) = new_records els (SignatureStore b) (SignatureStore b')"
    and "\<And>dl. dl \<in> set (headDeltas G heads) \<Longrightarrow> dl_tombstones dl = []"
    and "merged (delta_records (headDeltas G heads)) (sg_table els c) (els d)"
    and "merge_keeps (delta_records (headDeltas G heads)) (sg_table els c) (els d)"
  shows "accepts E has hid now (SignatureStore c) G pid msg
    \<and> replica_step E els has hid G (SignatureStore c) (with_data d (SignatureStore c))
    \<and> st_Get E (with_data d (SignatureStore c)) (sg_putKey E b key) = Inr (Some val)"
  using put_reaches_reader [OF assms(1-16)] by simp

theorem put_reaches_peer_witness:
  "st_Get E0 (with_data [R1_rec] (SignatureStore (SG0 6))) (sg_putKey E0 (SG0 5) ''a'') = Inr (Some [1])"
proof -
  let ?b' = "fst (sg_Put E0 ''a'' [1] (SG0 5))"
  have put: "sg_Put E0 ''a'' [1] (SG0 5) = (?b', None)"
    by (simp add: sg_Put_def SG0_def B0_def)
  have R1: "SignatureStore ?b' = R1"
    by (simp add: R1_def R0_def split_beta)
  have new: "new_records map_of (SignatureStore (SG0 5)) (SignatureStore ?b') = {R1_rec}"
    unfolding R1 using R1_new by (simp add: R0_def)
  have key: "sg_putKey E0 (SG0 5) ''a'' = (CHR ''~'' # b64_encode [0, 5]) @ CHR ''/'' # ''a''"
    by (simp add: sg_putKey_def SG0_def)
  have tab: "sg_table map_of (SG0 6) = Map.empty"
    by (simp add: sg_table_def base_table_def SG0_def B0_def)
  have dag: "merged [x] Map.empty (map_of [x]) \<and> merge_keeps [x] Map.empty (map_of [x])" for x :: "string \<times> bytes"
    by (cases x) (auto simp: merged_def merge_keeps_def split: if_splits)
  have c: "bs_inTime (sg_base (SG0 6))" "bs_name (sg_base (SG0 6)) = ''s''"
    by (simp_all add: SG0_def B0_def)
  have pair: "signed_ok E0 (sg_priv (SG0 5)) (sg_pub (SG0 5))" by (simp add: SG0_def E0_pair)
  have "accepts E0 ref_has ''me'' zero_time (SignatureStore (SG0 6)) (ref_dag [R1_rec]) ''p'' []
    \<and> replica_step E0 map_of ref_has ''me'' (ref_dag [R1_rec]) (SignatureStore (SG0 6))
        (with_data [R1_rec] (SignatureStore (SG0 6)))
    \<and> st_Get E0 (with_data [R1_rec] (SignatureStore (SG0 6))) (sg_putKey E0 (SG0 5) ''a'') = Inr (Some [1])"
    by (rule put_reaches_peer [where heads = "[[]]" and els = map_of, OF E0_replica E0_live _ _ pair put])
      (use dag [of R1_rec] in \<open>simp_all add: c ref_has_exact tab delta_records_def new clean_path_def\<close>)
  then show ?thesis by (elim conjE)
qed

text \<open>
  C24: a replay rolls an updatable signature store back. The signature covers the value but neither the
  key nor the timestamp it is stored under, so the signed bytes of one put pass every peer's validator
  under any key of the same writer and any timestamp in the past; a peer whose copy holds them as the
  newest version of that key reads the old value.
\<close>

theorem signature_replayed:
  assumes "env_ok E els" and "ds_live (lib_ds E) els" and "libs_ok E"
    and "signed_ok E (sg_priv w) (sg_pub w)" and "clean_path key" and "us_Put E now key val w = (w', None)"
    and "val \<noteq> []" and "sg_table els w k = None" and "sg_table els w' k = Some msd"
    and "clean_path path" and "wf_time t" and "instant_of t < instant_of now'" and "bs_inTime (sg_base s)"
    and "sg_table els s (CHR ''/'' # us_putKey E w path @ CHR ''/'' # time_key t) = Some msd"
    and "\<And>k u. k \<in> dom (sg_table els s) \<Longrightarrow> below (us_putKey E w path) k \<Longrightarrow>
      k \<noteq> CHR ''/'' # us_putKey E w path @ CHR ''/'' # time_key t \<Longrightarrow> key_time (local_zone E) k = Inr u \<Longrightarrow>
      instant_of u < instant_of t"
  shows "newUpdatableSignatureValidator E now' (sg_base s)
      (CHR ''/'' # us_putKey E w path @ CHR ''/'' # time_key t) msd
    \<and> us_Get E s (us_putKey E w path) = Inr (Some val)"
proof -
  from us_Put_record [OF assms(1,3,5,6)] obtain sKey m where
    r: "signed_record E (sg_priv w) (sg_pub w) val = Inr (sKey, m)"
    and tab: "sg_table els w' = (sg_table els w)(CHR ''/'' # (sKey @ CHR ''/'' # key) @ CHR ''/'' # time_key now \<mapsto> m)" .
  with assms(8,9) have m: "m = msd" by (auto split: if_splits)
  have path: "us_putKey E w path = sKey @ CHR ''/'' # path"
    using r by (auto elim!: signed_record_Inr simp: us_putKey_def Let_def)
  have clean: "clean_path (us_putKey E w path)"
    using plain_clean [OF signed_record_key [OF assms(3) r]] assms(10) by (simp add: path clean_path_append)
  from stored_version_read [OF assms(1-3) r assms(7) clean assms(11)] assms(14,15)
  have "us_Get E s (us_putKey E w path) = Inr (Some val)" by (simp add: m)
  with replay_validates [OF assms(3,4) r assms(11-13)] show ?thesis by (simp add: path m)
qed

theorem signature_replayed_witness:
  "us_Get E0 ((SG0 6)\<lparr>sg_base := B0\<lparr>bs_dt := [(CHR ''/'' # us_putKey E0 (SG0 5) ''b'' @ CHR ''/'' #
      time_key \<lparr>t_wall = 0, t_ext = 1, t_loc = UTC\<rparr>, enc_field [1] @ enc_field [5, 1])]\<rparr>\<rparr>)
     (us_putKey E0 (SG0 5) ''b'') = Inr (Some [1])" (is "us_Get E0 ?s ?p = _")
proof -
  let ?t = "\<lambda>n. \<lparr>t_wall = 0, t_ext = n, t_loc = UTC\<rparr>"
  let ?w' = "fst (us_Put E0 zero_time ''a'' [1] (SG0 5))"
  let ?k = "ref_newKey ((CHR ''~'' # b64_encode [0, 5]) @ ''/a'' @ CHR ''/'' # time_key zero_time)"
  let ?msd = "enc_field [1] @ enc_field [5, 1]"
  have put: "us_Put E0 zero_time ''a'' [1] (SG0 5) = (?w', None)"
    and tab: "sg_table map_of ?w' ?k = Some ?msd"
    by (simp_all add: us_Put_def upd_Put_eq SG0_def B0_def sg_table_def base_table_def)
  have s: "sg_table map_of ?s = [CHR ''/'' # ?p @ CHR ''/'' # time_key (?t 1) \<mapsto> ?msd]"
    by (simp add: sg_table_def base_table_def fun_eq_iff)
  have "newUpdatableSignatureValidator E0 (?t 2) (sg_base ?s) (CHR ''/'' # ?p @ CHR ''/'' # time_key (?t 1)) ?msd
    \<and> us_Get E0 ?s ?p = Inr (Some [1])"
    by (rule signature_replayed [OF E0_env_ok E0_live E0_libs_ok _ _ put _ _ tab])
      (simp_all only: s, simp_all add: SG0_def B0_def E0_pair clean_path_def sg_table_def base_table_def
        wf_time_def t_sec_def instant_of_def less_instant_def)
  then show ?thesis ..
qed

text \<open>
  C25: the topic validator looks at the heads of a message only. A message whose head is empty but
  links to a node with any record at all is accepted by a copy of any kind, also after its time window
  has closed, and the merge that fetches the node can bring the record in, over one that is stored
  already; as the head of a message the same node is refused.
\<close>

theorem ancestors_unchecked:
  assumes "pid \<noteq> hid" and "msgToCRDTHeads G msg = Inr [c]"
    and "headDeltas G [c] = [\<lparr>dl_elements = [], dl_tombstones = []\<rparr>]" and "a \<in> set (links c)"
    and "headDeltas G [a] = [\<lparr>dl_elements = [(k, v)], dl_tombstones = []\<rparr>]"
    and "newKey (lib_ds E) k = k" and "els d = (st_table els s)(k \<mapsto> v)"
    and "\<not> good_record E (store_mode s) k v" and "msgToCRDTHeads G msg' = Inr [a]"
  shows "accepts E has hid now s G pid msg \<and> deep_step E els has hid G links s (with_data d s)
    \<and> st_table els (with_data d s) k = Some v \<and> \<not> good_store E els (with_data d s)
    \<and> \<not> accepts E has hid now s G pid msg'"
proof (intro conjI)
  show "accepts E has hid now s G pid msg" by (rule empty_head_accepted [OF assms(2,3)])
  show "deep_step E els has hid G links s (with_data d s)" by (rule ancestor_merged [where links = links and els = els, OF assms(1-7)])
  show k: "st_table els (with_data d s) k = Some v" by (simp add: assms(7))
  show "\<not> good_store E els (with_data d s)"
    using good_storeD [of E els "with_data d s" k v] k assms(8) by auto
  show "\<not> accepts E has hid now s G pid msg'"
    using refused_as_head [OF assms(1,9,5)] validated_good assms(8) by blast
qed

theorem ancestors_unchecked_witness:
  "\<not> good_store E0 map_of (with_data [(''/x'', [])] (end_window R0))"
proof -
  let ?G = "(ref_dag [])\<lparr>unmarshalDelta :=
    (\<lambda>b. Inr \<lparr>dl_elements = (if b = [] then [] else [(''/x'', [])]), dl_tombstones = []\<rparr>)\<rparr>"
  have heads: "msgToCRDTHeads ?G m = Inr [m]" for m
    by (simp add: msgToCRDTHeads_def ref_dag_def)
  have tab: "st_table map_of R0 = Map.empty"
    by (simp add: R0_def SG0_def B0_def st_table_def base_table_def)
  have bad: "\<not> good_record E0 (store_mode (end_window R0)) ''/x'' []"
    by (simp add: R0_mode authentic_def StrToPubKey_def ref_id_def key_parts_def)
  have "accepts E0 ref_has ''me'' zero_time (end_window R0) ?G ''p'' []
    \<and> deep_step E0 map_of ref_has ''me'' ?G (\<lambda>_. [[1]]) (end_window R0) (with_data [(''/x'', [])] (end_window R0))
    \<and> st_table map_of (with_data [(''/x'', [])] (end_window R0)) ''/x'' = Some []
    \<and> \<not> good_store E0 map_of (with_data [(''/x'', [])] (end_window R0))
    \<and> \<not> accepts E0 ref_has ''me'' zero_time (end_window R0) ?G ''p'' [1]"
    by (rule ancestors_unchecked [where links = "\<lambda>_. [[1]]" and els = map_of and a = "[1]", OF _ heads _ _ _ _ _ bad heads])
      (simp_all add: tab ref_ds_def ref_newKey_def has_prefix_def)
  then show ?thesis by (elim conjE)
qed

text \<open>
  C26: two peers that put different values under one clean key of a log store, each while its own copy
  holds nothing under that key, both succeed when the storage does not fail. From then on, as long as
  nothing touches that key unchecked in a copy (which the merge of an ancestor could do, C25), each peer
  refuses every readable message that carries the other's record, and the two copies differ, whatever
  other messages they accept. It is relied on that the lookup in badger is exact.
\<close>

theorem rival_puts_diverge:
  assumes "replica_ok E els" and "ds_live (lib_ds E) els"
    and "has_exact E els has (bs_name b)" and "has_exact E els has' (bs_name c)"
    and "clean_path key" and "v \<noteq> w"
    and "base_table els b (CHR ''/'' # key) = None" and "base_table els c (CHR ''/'' # key) = None"
    and "st_Put E now key v (LogStore b) = (s, err)" and "st_Put E now' key w (LogStore c) = (t, err')"
    and "open_run E els has hid links s U s'" and "open_run E els has' hid' links t U' t'"
    and "CHR ''/'' # key \<notin> U \<union> U'"
    and "pid \<noteq> hid" and "msgToCRDTHeads G msg = Inr heads"
    and "new_records els (LogStore c) t \<subseteq> set (delta_records (headDeltas G heads))"
    and "pid' \<noteq> hid'" and "msgToCRDTHeads G' msg' = Inr heads'"
    and "new_records els (LogStore b) s \<subseteq> set (delta_records (headDeltas G' heads'))"
  shows "err = None \<and> err' = None \<and> \<not> accepts E has hid later s' G pid msg
    \<and> \<not> accepts E has' hid' later' t' G' pid' msg' \<and> st_table els s' \<noteq> st_table els t'"
proof (intro conjI)
  let ?k = "CHR ''/'' # key"
  note E = replica_okD(1) [OF assms(1)]
  note nk = key_okD(1,2) [OF ds_okD(1) [OF env_okD(1) [OF E]] assms(5)]
  note P = rival_put [OF E assms(2) nk(1)]
  from P [OF assms(7,9)] have s: "err = None" "st_table els s ?k = Some v" "(?k, v) \<in> new_records els (LogStore b) s"
    "bs_name (st_base s) = bs_name b" by blast+
  from P [OF assms(8,10)] have t: "err' = None" "st_table els t ?k = Some w" "(?k, w) \<in> new_records els (LogStore c) t"
    "bs_name (st_base t) = bs_name c" by blast+
  show "err = None" "err' = None" by (rule s(1), rule t(1))
  have has: "has_exact E els has (bs_name (st_base s))" "has_exact E els has' (bs_name (st_base t))"
    using assms(3,4) by (simp_all add: s(4) t(4))
  have s': "st_table els s' ?k = Some v" "has_exact E els has (bs_name (st_base s'))"
    using open_run_keeps [OF E has(1) s(2) assms(11)] open_run_name [OF assms(11)] has(1) assms(13) by simp_all
  have t': "st_table els t' ?k = Some w" "has_exact E els has' (bs_name (st_base t'))"
    using open_run_keeps [OF E has(2) t(2) assms(12)] open_run_name [OF assms(12)] has(2) assms(13) by simp_all
  show "\<not> accepts E has hid later s' G pid msg"
    by (rule rival_refused [OF s'(2) assms(14,15) subsetD [OF assms(16) t(3)] nk(2)]) (simp add: s'(1))
  show "\<not> accepts E has' hid' later' t' G' pid' msg'"
    by (rule rival_refused [OF t'(2) assms(17,18) subsetD [OF assms(19) s(3)] nk(2)]) (simp add: t'(1))
  show "st_table els s' \<noteq> st_table els t'" using s'(1) t'(1) assms(6) by auto
qed

theorem rival_puts_diverge_witness:
  "\<not> accepts E0 ref_has ''me'' zero_time (LogStore (B0\<lparr>bs_dt := [(''/a'', [1])]\<rparr>)) (ref_dag [(''/a'', [2])]) ''p'' []"
proof -
  let ?st = "\<lambda>v. LogStore (B0\<lparr>bs_dt := [(''/a'', v)]\<rparr>) :: (assoc, byte, byte) store"
  have put: "st_Put E0 zero_time ''a'' v (LogStore B0) = (?st v, None)" for v
    by (simp add: B0_def ref_newKey_def has_prefix_def)
  have name: "has_exact E0 map_of ref_has (bs_name B0)" using ref_has_exact by (simp add: B0_def)
  have new: "new_records map_of (LogStore B0) (?st v) \<subseteq> set (delta_records (headDeltas (ref_dag [(''/a'', v)]) [[]]))" for v
    by (auto simp: new_records_def st_table_def base_table_def B0_def delta_records_def split: if_splits)
  note run = open_start [of E0 map_of ref_has "''me''" ref_links]
  have "(None :: goerror option) = None \<and> (None :: goerror option) = None \<and> \<not> accepts E0 ref_has ''me'' zero_time (?st [1]) (ref_dag [(''/a'', [2])]) ''p'' []
    \<and> \<not> accepts E0 ref_has ''me'' zero_time (?st [2]) (ref_dag [(''/a'', [1])]) ''p'' []
    \<and> st_table map_of (?st [1]) \<noteq> st_table map_of (?st [2])"
    by (rule rival_puts_diverge [where els = map_of and v = "[1]" and w = "[2]", OF E0_replica E0_live name name _ _ _ _ put put run run _ _ ref_dag_heads new _
          ref_dag_heads new])
      (simp_all add: clean_path_def base_table_def B0_def)
  then show ?thesis by (elim conjE)
qed

end
