(* ===== verification/Acceptance_Properties.thy ===== *)
theory Acceptance_Properties
  imports Net_Reference
begin

text \<open>
  The acceptance scenarios of crdt/*_test_util.go as a whole, from the start of the bootstrap node to
  the closing of the stores, pass, whatever peers and clocks the calls meet.
\<close>

section \<open>The written-once stores\<close>

text \<open>
  C7: the scenarios of the log, signature and hash stores pass from end to end. The first peer opens a
  store by name, on empty data, and the second one loads it by the address the first one gives, both
  through the address of the bootstrap node that the scenario prints. If these openings succeed, then
  so does the first put, the second put is refused, and the second peer, once it holds the same
  records, reads the first value before and after; for a hash store the salt is not empty and the two
  written paths have different hashes.
\<close>

theorem acceptance_end_to_end:
  assumes "replica_ok E els" and "ds_live (lib_ds E) els" and "signs E" and "protos_total (lib_pb E)"
    and "util_ok valid U" and "NewBootstrap N hGen [] = (left_open, Inr b)" and "valid (ai_ID (bootstrap_AddrInfo N b))"
    and "baiStr = AddrInfoToString U (bootstrap_AddrInfo N b)" and "baiStr \<noteq> []" and "scenario md nm"
    and "open_store E U net0 nm md baiStr (if md = ''log'' then [] else [empty_opts]) = Some (Inr (w0, db0))"
    and "run_crdtNew (at_run (op_last (net0 (bootstrap_AddrInfo N b)))) = Inr d" and "els d = Map.empty"
    and "salt = at_rnd (op_last (net0 (bootstrap_AddrInfo N b)))"
    and "md = ''hash'' \<Longrightarrow> salt \<noteq> [] \<and> MakeHashKey E ''aaa'' (Some salt) \<noteq> MakeHashKey E nm (Some salt)"
    and "open_store E U net1 (st_Address E db0) md baiStr
      (if md = ''hash'' then [left_opts E U net0 nm md baiStr empty_opts] else []) = Some (Inr (w1, db1))"
    and "st_Put E now1 ''aaa'' meow db0 = (s, err)" and "els d1 = st_table els s" and "els d2 = st_table els s"
  shows "\<exists>l1 l2. with_bootstrap N U hGen (acceptance_all md E U net0 net1 now1 now2 d1 d2) =
    Some (Inr (bootstrap_Close N b, st_Close E s, st_Close E (with_data d2 db1),
      LogVal (Some meow) # LogHas (Inr True) # l1 @ LogVal (Some meow) # l2))"
proof -
  note U = assms(5-7) assms(9) [unfolded assms(8)]
  have bai: "AddrInfoFromString U baiStr = bootstrap_AddrInfo N b"
    unfolding assms(8) by (rule AddrInfo_roundtrip [OF U(1,3,4)])
  have "\<exists>l1 l2. acceptance_all md E U net0 net1 now1 now2 d1 d2 baiStr =
    Some (Inr (st_Close E s, st_Close E (with_data d2 db1),
      LogVal (Some meow) # LogHas (Inr True) # l1 @ LogVal (Some meow) # l2))"
    by (rule acceptance_all_passes [OF assms(1-4,10) bai assms(11-13) _ _ assms(16-19)])
      (simp_all add: assms(14) [symmetric] assms(15))
  then obtain l1 l2 where run: "acceptance_all md E U net0 net1 now1 now2 d1 d2 (AddrInfoToString U (bootstrap_AddrInfo N b)) =
    Some (Inr (st_Close E s, st_Close E (with_data d2 db1),
      LogVal (Some meow) # LogHas (Inr True) # l1 @ LogVal (Some meow) # l2))"
    unfolding assms(8) by blast
  show ?thesis by (intro exI, rule bootstrap_passed_on(1) [OF U]) (rule run)
qed

text \<open>Openings over the small libraries: the first peer finds nothing, the second finds one record.\<close>

definition O0 :: "byte addr_info \<Rightarrow> assoc open_run" where
  "O0 = (\<lambda>_. \<lparr>op_tries = \<lambda>_. (A0, []), op_last = A0, op_rnd = [5]\<rparr>)"

definition O1 :: "byte addr_info \<Rightarrow> assoc open_run" where
  "O1 = (\<lambda>_. \<lparr>op_tries = \<lambda>_. (A0, [Tick [(''/p/k'', [1])] False]), op_last = A0, op_rnd = [5]\<rparr>)"

definition T0 :: "(bytes list, byte) bootstrap" where "T0 = \<lparr>bt_h = [], bt_peers = []\<rparr>"

lemma T0_new: "NewBootstrap N0 (Inr []) [] = (None, Inr T0)"
  by (simp add: NewBootstrap_def N0_def T0_def)

lemma T0_string: "AddrInfoToString U0 (bootstrap_AddrInfo N0 T0) \<noteq> []"
  by (simp add: AddrInfoToString_def U0_def enc_info_def enc_list_def del: b64_encode.simps)

lemma E0_signs: "signs E0"
  by (simp add: signs_def ref_keys_def)

lemma log_opened: "\<exists>w db. open_store E0 U0 O0 ''lg'' ''log'' bai [] = Some (Inr (w, db))
    \<and> bs_name (st_base db) = ''lg'' \<and> st_Address E0 db = MakeAddress E0 ''lg'' [] None [zero_time]"
  by (simp add: open_store_def O0_def test_newStore_def NewStore_def parseAddress_def short_name is_newline_def b64_corrupt_def
      newStore_def selectNewStore_def NewLogStore_def getLogOpts_def empty_opts_def finishStore_def clean_world_def
      base_initPut_def ref_newKey_def has_prefix_def test_bind_def Let_def ref_ds_def st_autoSync_def base_autoSync_def
      base_Address_def)

text \<open>An address the first peer gives is read by the second one.\<close>

lemma named_address:
  "ascii nm \<Longrightarrow> ascii pid \<Longrightarrow>
    parseAddress E0 (MakeAddress E0 nm pid salt [zero_time]) = Inr (nm, canon_slice salt, pid, zero_time)"
  using parse_MakeAddress_UTC [of E0 nm pid zero_time salt] ref_protos_ok ref_protos_total
  by (simp add: strip_mono_id)

lemma log_loaded: "\<exists>w db. open_store E0 U0 O1 (MakeAddress E0 ''lg'' [] None [zero_time]) ''log'' bai [] = Some (Inr (w, db))"
  by (simp add: open_store_def O1_def test_newStore_def NewStore_def named_address ascii_def loadStore_def selectNewStore_def
      NewLogStore_def getLogOpts_def empty_opts_def arrive_def with_data_def st_Sync_def base_Sync_def ref_ds_def
      base_loadCheck_def loadCheck_with_def base_Query_def one_key_query_def ref_answer_def ref_entry_def
      selects_def prefix_selects_def window_def ref_query_lib_def finishStore_def clean_world_def
      test_bind_def st_autoSync_def base_autoSync_def)

lemma O_simps [simp]: "run_crdtNew (at_run (op_last (O0 a))) = Inr []" "at_rnd (op_last (O0 a)) = [5]"
  "at_now (op_last (O0 a)) = zero_time"
  by (simp_all add: O0_def RUN0_def)

lemma table_bytes: "map_of (bs_dt (st_base s)) = st_table map_of s"
  by (simp add: st_table_def base_table_def)

theorem acceptance_end_to_end_witness:
  "\<exists>d s t l1 l2. with_bootstrap N0 U0 (Inr []) (acceptance_all ''log'' E0 U0 O0 O1 zero_time zero_time d d) =
    Some (Inr (bootstrap_Close N0 T0, s, t, LogVal (Some meow) # LogHas (Inr True) # l1 @ LogVal (Some meow) # l2))"
proof -
  let ?bai = "AddrInfoToString U0 (bootstrap_AddrInfo N0 T0)"
  obtain w db where run0: "open_store E0 U0 O0 ''lg'' ''log'' ?bai [] = Some (Inr (w, db))"
    and addr: "st_Address E0 db = MakeAddress E0 ''lg'' [] None [zero_time]"
    using log_opened by blast
  obtain w' db' where run1: "open_store E0 U0 O1 (st_Address E0 db) ''log'' ?bai [] = Some (Inr (w', db'))"
    unfolding addr using log_loaded by blast
  obtain s err where put: "st_Put E0 zero_time ''aaa'' meow db = (s, err)" by (metis prod.exhaust)
  have "\<exists>l1 l2. with_bootstrap N0 U0 (Inr []) (acceptance_all ''log'' E0 U0 O0 O1 zero_time zero_time (bs_dt (st_base s)) (bs_dt (st_base s))) =
    Some (Inr (bootstrap_Close N0 T0, st_Close E0 s, st_Close E0 (with_data (bs_dt (st_base s)) db'),
      LogVal (Some meow) # LogHas (Inr True) # l1 @ LogVal (Some meow) # l2))"
    by (rule acceptance_end_to_end [OF E0_replica E0_live E0_signs E0_total U0_ok T0_new _ refl T0_string _ _ _ _ refl _ _ put
          table_bytes table_bytes, where nm = "''lg''" and d = "[]"])
      (use run0 run1 in \<open>simp_all add: scenario_def\<close>)
  then show ?thesis by blast
qed

section \<open>The versioned store\<close>

text \<open>
  C8: the scenario of the updatable signature store passes from end to end. If the openings succeed,
  both puts do, whenever the second one has a later clock, and the second peer reads the first value
  after the first put and the second value after the second, under the key string that the first peer
  finds in its options after the opening.
\<close>

theorem versions_end_to_end:
  assumes "replica_ok E els" and "ds_live (lib_ds E) els" and "signs E" and "protos_total (lib_pb E)"
    and "util_ok valid U" and "NewBootstrap N hGen [] = (left_open, Inr b)" and "valid (ai_ID (bootstrap_AddrInfo N b))"
    and "baiStr = AddrInfoToString U (bootstrap_AddrInfo N b)" and "baiStr \<noteq> []"
    and "open_store E U net0 ''us'' ''updatableSignature'' baiStr [empty_opts] = Some (Inr (w0, db0))"
    and "run_crdtNew (at_run (op_last (net0 (bootstrap_AddrInfo N b)))) = Inr d" and "els d = Map.empty"
    and "open_store E U net1 (st_Address E db0) ''updatableSignature'' baiStr [] = Some (Inr (w1, db1))"
    and "wf_time now1" and "wf_time now2" and "instant_of now1 < instant_of now2"
    and "st_Put E now1 ''aaa'' meow db0 = (s1, e1)" and "st_Put E now2 ''aaa'' meow2 s1 = (s2, e2)"
    and "els d1 = st_table els s1" and "els d2 = st_table els s2"
  shows "\<exists>ok l1 l2. with_bootstrap N U hGen (BaseTestUpdatableSignatureStore_all E U net0 net1 now1 now2 d1 d2) =
    Some (Inr (bootstrap_Close N b, st_Close E s2, st_Close E (with_data d2 db1),
      LogVal (Some meow) # LogHas ok # l1 @ LogVal (Some meow2) # l2))"
proof -
  note U = assms(5-7) assms(9) [unfolded assms(8)]
  have bai: "AddrInfoFromString U baiStr = bootstrap_AddrInfo N b"
    unfolding assms(8) by (rule AddrInfo_roundtrip [OF U(1,3,4)])
  from versions_all_passes [OF assms(1-4) bai assms(10-20)] obtain ok l1 l2 where
    run: "BaseTestUpdatableSignatureStore_all E U net0 net1 now1 now2 d1 d2 (AddrInfoToString U (bootstrap_AddrInfo N b)) =
      Some (Inr (st_Close E s2, st_Close E (with_data d2 db1), LogVal (Some meow) # LogHas ok # l1 @ LogVal (Some meow2) # l2))"
    unfolding assms(8) by blast
  show ?thesis by (intro exI, rule bootstrap_passed_on(1) [OF U]) (rule run)
qed

lemma versioned_opened: "\<exists>w db. open_store E0 U0 O0 ''us'' ''updatableSignature'' bai [empty_opts] = Some (Inr (w, db))
    \<and> st_Address E0 db = MakeAddress E0 ''us'' [] None [zero_time]"
  by (simp add: open_store_def O0_def test_newStore_def NewStore_def parseAddress_def short_name is_newline_def b64_corrupt_def
      newStore_def selectNewStore_def NewUpdatableSignatureStore_def getUpdatableSignatureOpts_def gen_five empty_opts_def
      finishStore_def clean_world_def us_initPut_def upd_Put_eq ref_newKey_def has_prefix_def test_bind_def Let_def ref_ds_def
      st_autoSync_def base_autoSync_def base_Address_def split_beta del: b64_encode.simps)

lemma one_category [simp]: "e_key r = ''/p/k'' \<Longrightarrow> latest_only [] [r] = [r]"
  by (simp add: latest_only.simps(2) key_parts_def)

lemma versioned_loaded:
  "\<exists>w db. open_store E0 U0 O1 (MakeAddress E0 ''us'' [] None [zero_time]) ''updatableSignature'' bai [] = Some (Inr (w, db))"
  by (simp add: open_store_def O1_def test_newStore_def NewStore_def named_address ascii_def loadStore_def selectNewStore_def
      NewUpdatableSignatureStore_def getUpdatableSignatureOpts_def gen_five empty_opts_def arrive_def with_data_def
      st_Sync_def base_Sync_def ref_ds_def us_loadCheck_def loadCheck_with_def upd_Query_def upd_baseQuery_def Let_def
      base_Query_def one_key_query_def ref_answer_def ref_entry_def selects_def prefix_selects_def window_def
      ref_query_lib_def finishStore_def clean_world_def test_bind_def st_autoSync_def base_autoSync_def split_beta)

text \<open>The clock is at the seconds 3 and 5.\<close>

theorem versions_end_to_end_witness:
  "\<exists>d1 d2 s t ok l1 l2. with_bootstrap N0 U0 (Inr [])
      (BaseTestUpdatableSignatureStore_all E0 U0 O0 O1 (tick 3) (tick 5) d1 d2) =
    Some (Inr (bootstrap_Close N0 T0, s, t, LogVal (Some meow) # LogHas ok # l1 @ LogVal (Some meow2) # l2))"
proof -
  let ?bai = "AddrInfoToString U0 (bootstrap_AddrInfo N0 T0)"
  obtain w db where run0: "open_store E0 U0 O0 ''us'' ''updatableSignature'' ?bai [empty_opts] = Some (Inr (w, db))"
    and addr: "st_Address E0 db = MakeAddress E0 ''us'' [] None [zero_time]"
    using versioned_opened by blast
  obtain w' db' where run1: "open_store E0 U0 O1 (st_Address E0 db) ''updatableSignature'' ?bai [] = Some (Inr (w', db'))"
    unfolding addr using versioned_loaded by blast
  obtain s1 e1 where put1: "st_Put E0 (tick 3) ''aaa'' meow db = (s1, e1)" by (metis prod.exhaust)
  obtain s2 e2 where put2: "st_Put E0 (tick 5) ''aaa'' meow2 s1 = (s2, e2)" by (metis prod.exhaust)
  have "\<exists>ok l1 l2. with_bootstrap N0 U0 (Inr []) (BaseTestUpdatableSignatureStore_all E0 U0 O0 O1 (tick 3) (tick 5)
      (bs_dt (st_base s1)) (bs_dt (st_base s2))) =
    Some (Inr (bootstrap_Close N0 T0, st_Close E0 s2, st_Close E0 (with_data (bs_dt (st_base s2)) db'),
      LogVal (Some meow) # LogHas ok # l1 @ LogVal (Some meow2) # l2))"
    by (rule versions_end_to_end [OF E0_replica E0_live E0_signs E0_total U0_ok T0_new _ refl T0_string run0 _ _ run1 _ _ _ put1 put2
          table_bytes table_bytes, where d = "[]"])
      (simp_all add: less_instant_def)
  then show ?thesis by blast
qed

section \<open>With an access store\<close>

text \<open>
  C9: the hash access scenario passes from end to end. The first peer makes an access store with a
  fresh key pair that grants the hashed key of the path it will write, the second loads the store by
  the address, which names the salt and the master key. If the openings and the grant succeed, so does
  the put, the second put is refused, and the second peer reads the value and finds it by a query; the
  salt is not empty and the written path has another hash than the store's name and the access key.
\<close>

theorem hash_access_end_to_end:
  assumes "replica_ok E els" and "ds_live (lib_ds E) els" and "signs E" and "protos_total (lib_pb E)"
    and "query_lib_ok nk (lib_q E)"
    and "util_ok valid U" and "NewBootstrap N hGen [] = (left_open, Inr b)" and "valid (ai_ID (bootstrap_AddrInfo N b))"
    and "baiStr = AddrInfoToString U (bootstrap_AddrInfo N b)" and "baiStr \<noteq> []"
    and "open_store E U net0 ''hs'' ''hash'' baiStr [empty_opts] = Some (Inr (w0, db0))"
    and "run_crdtNew (at_run (op_last (net0 (bootstrap_AddrInfo N b)))) = Inr d" and "els d = Map.empty"
    and "generateKeyPair (crypto E) rnd = Inr (sk, vk)" and "key_pair (key_ops E) sk vk"
    and "ascii (PubKeyToStr (lib_id E) (crypto E) (Some vk))"
    and "newAccessStore E rnd db0 [(st_putKey E db0 ''aaa'', now0, val0)] = Inr dbA" and "val0 \<noteq> []"
    and "salt = at_rnd (op_last (net0 (bootstrap_AddrInfo N b)))" and "salt \<noteq> []"
    and "\<And>k. k \<in> {''hs'', accessKey E (Some vk) (st_putKey E db0 ''aaa'')} \<Longrightarrow>
      MakeHashKey E ''aaa'' (Some salt) \<noteq> MakeHashKey E k (Some salt)"
    and "open_store E U net1 (st_Address E dbA) ''hash'' baiStr [] = Some (Inr (w1, db1))"
    and "st_Put E now1 ''aaa'' meow dbA = (s, err)" and "els d1 = st_table els s" and "els d2 = st_table els s"
  shows "with_bootstrap N U hGen (testHashAccess_all E U net0 net1 rnd (now0, val0) now1 now2 d1 d2) =
    Some (Inr (bootstrap_Close N b, st_Close E s, st_Close E (with_data d2 db1),
      [LogVal (Some meow), LogHas (Inr True), LogVal (Some meow)]))"
proof -
  note U = assms(6-8) assms(10) [unfolded assms(9)]
  have bai: "AddrInfoFromString U baiStr = bootstrap_AddrInfo N b"
    unfolding assms(9) by (rule AddrInfo_roundtrip [OF U(1,3,4)])
  show ?thesis
    by (intro bootstrap_passed_on(1) [OF U], fold assms(9))
      (rule hash_access_all_passes [OF assms(1-5) bai assms(11-25)])
qed

lemma hash_opened: "\<exists>w b v. open_store E0 U0 O0 ''hs'' ''hash'' bai [empty_opts] = Some (Inr (w, HashStore b))
    \<and> hs_salt b = Some [5] \<and> bs_name (hs_base b) = ''hs'' \<and> bs_timeLimit (hs_base b) = zero_time
    \<and> bs_dt (hs_base b) = [(CHR ''/'' # MakeHashKey E0 ''hs'' (Some [5]), v)]"
  by (simp add: open_store_def O0_def test_newStore_def NewStore_def parseAddress_def short_name is_newline_def b64_corrupt_def
      newStore_def selectNewStore_def NewHashStore_def getHashOpts_def empty_opts_def finishStore_def clean_world_def
      hs_initPut_def test_bind_def Let_def ref_ds_def st_autoSync_def base_autoSync_def newKey_hash [OF ref_key_ok E0_kdf_ok]
      ref_protos_def ref_hash_def split_beta del: b64_encode.simps)

lemma hash_granted_run:
  assumes "hs_salt b = Some [5]" "bs_dt (hs_base b) = [(CHR ''/'' # MakeHashKey E0 ''hs'' (Some [5]), v)]"
  shows "\<exists>b'. newAccessStore E0 [5] (HashStore b) [(access, zero_time, [1])] = Inr (AccessStore (HashStore b') None (Some 5))
    \<and> hs_salt b' = hs_salt b \<and> bs_name (hs_base b') = bs_name (hs_base b) \<and> bs_timeLimit (hs_base b') = bs_timeLimit (hs_base b)"
proof -
  have "MakeHashKey E0 (accessKey E0 (Some 5) access) (Some [5]) \<noteq> MakeHashKey E0 ''hs'' (Some [5])"
    using ref_hash_inject [of "''hs''" "accessKey E0 (Some 5) access"] accessKey_not_name(2) [of E0 "Some 5" access] by auto
  then show ?thesis
    using assms
    by (simp add: newAccessStore_def NewAccessStore_def getAccessOpts_def gen_five ac_Grant_def ref_keys_def ref_protos_def ref_sig_def
        ref_hash_def hs_Put_def newKey_hash [OF ref_key_ok E0_kdf_ok] Let_def split_beta del: b64_encode.simps)
qed

lemma hash_access_loaded:
  assumes "parseAddress E0 a = Inr (''hs'', Some [5], CHR ''~'' # b64_encode [0, 5], zero_time)"
  shows "\<exists>w db. open_store E0 U0 O1 a ''hash'' bai [] = Some (Inr (w, db))"
  by (simp add: open_store_def O1_def test_newStore_def NewStore_def assms loadStore_def selectNewStore_def
      NewHashStore_def getHashOpts_def empty_opts_def arrive_def with_data_def st_Sync_def base_Sync_def ref_ds_def
      hs_loadCheck_def loadCheck_with_def base_Query_def one_key_query_def ref_answer_def ref_entry_def
      selects_def prefix_selects_def window_def ref_query_lib_def finishStore_def clean_world_def loadAccessStore_def getAccessOpts_def
      pid5_decodes test_bind_def st_autoSync_def base_autoSync_def split_beta del: b64_encode.simps)

lemma pid5: "PubKeyToStr (lib_id E0) (crypto E0) (Some 5) = CHR ''~'' # b64_encode [0, 5]"
  by (simp del: b64_encode.simps)

lemma pair5: "generateKeyPair (crypto E0) [5] = Inr (5, 5)" "key_pair (key_ops E0) 5 5"
  "ascii (PubKeyToStr (lib_id E0) (crypto E0) (Some 5))"
proof -
  show "generateKeyPair (crypto E0) [5] = Inr (5, 5)" by (simp add: ref_crypto_def)
  show "key_pair (key_ops E0) 5 5" by (simp add: ref_key_pair)
  show "ascii (PubKeyToStr (lib_id E0) (crypto E0) (Some 5))" unfolding pid5 by (rule pid5_ascii)
qed

theorem hash_access_end_to_end_witness:
  "\<exists>d s t. with_bootstrap N0 U0 (Inr []) (testHashAccess_all E0 U0 O0 O1 [5] (zero_time, [1]) zero_time zero_time d d) =
    Some (Inr (bootstrap_Close N0 T0, s, t, [LogVal (Some meow), LogHas (Inr True), LogVal (Some meow)]))"
proof -
  let ?bai = "AddrInfoToString U0 (bootstrap_AddrInfo N0 T0)"
  obtain w b0 v where run0: "open_store E0 U0 O0 ''hs'' ''hash'' ?bai [empty_opts] = Some (Inr (w, HashStore b0))"
    and b0: "hs_salt b0 = Some [5]" "bs_name (hs_base b0) = ''hs''" "bs_timeLimit (hs_base b0) = zero_time"
      "bs_dt (hs_base b0) = [(CHR ''/'' # MakeHashKey E0 ''hs'' (Some [5]), v)]"
    using hash_opened by blast
  obtain b where acc: "newAccessStore E0 [5] (HashStore b0) [(st_putKey E0 (HashStore b0) ''aaa'', zero_time, [1])] =
      Inr (AccessStore (HashStore b) None (Some 5))"
    and b: "hs_salt b = Some [5]" "bs_name (hs_base b) = ''hs''" "bs_timeLimit (hs_base b) = zero_time"
    using hash_granted_run [OF b0(1,4)] b0 by metis
  have "parseAddress E0 (st_Address E0 (AccessStore (HashStore b) None (Some 5))) =
      Inr (''hs'', Some [5], CHR ''~'' # b64_encode [0, 5], zero_time)"
    using access_address [of E0 "HashStore b" "Some 5" None] b pid5 pid5_ascii E0_total
    by (simp add: ref_protos_ok ascii_def salt_of_def del: b64_encode.simps st_Address.simps)
  from hash_access_loaded [OF this] obtain w' db' where
    run1: "open_store E0 U0 O1 (st_Address E0 (AccessStore (HashStore b) None (Some 5))) ''hash'' ?bai [] = Some (Inr (w', db'))"
    by blast
  obtain s err where put: "st_Put E0 zero_time ''aaa'' meow (AccessStore (HashStore b) None (Some 5)) = (s, err)"
    by (metis prod.exhaust)
  have apart: "MakeHashKey E0 ''aaa'' (Some [5]) \<noteq> MakeHashKey E0 k (Some [5])"
    if "k \<in> {''hs'', accessKey E0 (Some 5) (st_putKey E0 (HashStore b0) ''aaa'')}" for k
    using that ref_hash_inject [of "''aaa''" k "Some [5]" "Some [5]"]
      accessKey_not_aaa [of E0 "Some 5" "st_putKey E0 (HashStore b0) ''aaa''"] by auto
  have "with_bootstrap N0 U0 (Inr []) (testHashAccess_all E0 U0 O0 O1 [5] (zero_time, [1]) zero_time zero_time
      (bs_dt (st_base s)) (bs_dt (st_base s))) =
    Some (Inr (bootstrap_Close N0 T0, st_Close E0 s, st_Close E0 (with_data (bs_dt (st_base s)) db'),
      [LogVal (Some meow), LogHas (Inr True), LogVal (Some meow)]))"
    by (rule hash_access_end_to_end [OF E0_replica E0_live E0_signs E0_total E0_query U0_ok T0_new _ refl T0_string run0 _ _ pair5 acc _
          _ _ apart run1 put table_bytes table_bytes, where d = "[]"]) simp_all
  then show ?thesis by blast
qed

text \<open>
  C10: the signature access scenario passes from end to end. The writer's key pair is made first and
  given to the opening, the access store grants his key string, and the second peer loads the store by
  the address, which names the master key. If the openings and the grant succeed, so does the put, and
  the second peer reads the value and finds it by a query, unless the writer's key string happens to
  read as an access key.
\<close>

theorem signature_access_end_to_end:
  assumes "replica_ok E els" and "ds_live (lib_ds E) els" and "signs E" and "protos_total (lib_pb E)"
    and "query_lib_ok nk (lib_q E)"
    and "util_ok valid U" and "NewBootstrap N hGen [] = (left_open, Inr b)" and "valid (ai_ID (bootstrap_AddrInfo N b))"
    and "baiStr = AddrInfoToString U (bootstrap_AddrInfo N b)" and "baiStr \<noteq> []"
    and "generateKeyPair (crypto E) rndKey = Inr (sk0, vk0)" and "pid = PubKeyToStr (lib_id E) (crypto E) (Some vk0)"
    and "component_key E pid = None"
    and "generateKeyPair (crypto E) rnd = Inr (sk, vk)" and "key_pair (key_ops E) sk vk"
    and "ascii (PubKeyToStr (lib_id E) (crypto E) (Some vk))"
    and "open_store E U net0 ''us'' ''updatableSignature'' baiStr [empty_opts\<lparr>so_Priv := Some sk0, so_Pub := Some vk0\<rparr>] =
      Some (Inr (w0, db0))"
    and "run_crdtNew (at_run (op_last (net0 (bootstrap_AddrInfo N b)))) = Inr d" and "els d = Map.empty"
    and "newAccessStore E rnd db0 [(pid, now0, val0)] = Inr dbA" and "val0 \<noteq> []"
    and "open_store E U net1 (st_Address E dbA) ''updatableSignature'' baiStr [] = Some (Inr (w1, db1))"
    and "wf_time now0" and "wf_time now1"
    and "st_Put E now1 ''aaa'' meow dbA = (s, err)" and "els d1 = st_table els s"
  shows "with_bootstrap N U hGen (testSignatureAccess_all E U net0 net1 rndKey rnd (now0, val0) now1 d1) =
    Some (Inr (bootstrap_Close N b, st_Close E s, st_Close E (with_data d1 db1), [LogVal (Some meow)]))"
proof -
  note U = assms(6-8) assms(10) [unfolded assms(9)]
  have bai: "AddrInfoFromString U baiStr = bootstrap_AddrInfo N b"
    unfolding assms(9) by (rule AddrInfo_roundtrip [OF U(1,3,4)])
  show ?thesis
    by (intro bootstrap_passed_on(1) [OF U], fold assms(9))
      (rule signature_access_all_passes [OF assms(1-5) bai assms(11-26)])
qed

lemma owner_opened: "\<exists>w b v. open_store E0 U0 O0 ''us'' ''updatableSignature'' bai [empty_opts\<lparr>so_Priv := Some 5, so_Pub := Some 5\<rparr>] =
      Some (Inr (w, UpdatableSignatureStore b)) \<and> sg_priv b = Some 5 \<and> sg_pub b = Some 5
    \<and> bs_name (sg_base b) = ''us'' \<and> bs_timeLimit (sg_base b) = zero_time
    \<and> bs_dt (sg_base b) = [(CHR ''/'' # ((CHR ''~'' # b64_encode [0, 5]) @ CHR ''/'' # ''us'') @ CHR ''/'' # time_key zero_time, v)]"
  by (simp add: open_store_def O0_def test_newStore_def NewStore_def parseAddress_def short_name is_newline_def b64_corrupt_def
      newStore_def selectNewStore_def NewUpdatableSignatureStore_def getUpdatableSignatureOpts_def empty_opts_def
      finishStore_def clean_world_def us_initPut_def upd_Put_eq ref_newKey_def has_prefix_def test_bind_def Let_def ref_ds_def
      st_autoSync_def base_autoSync_def split_beta del: b64_encode.simps)

lemma owner_granted:
  assumes "sg_priv b = Some 5" "sg_pub b = Some 5"
    "bs_dt (sg_base b) = [(CHR ''/'' # ((CHR ''~'' # b64_encode [0, 5]) @ CHR ''/'' # ''us'') @ CHR ''/'' # time_key zero_time, v)]"
  shows "\<exists>b'. newAccessStore E0 [5] (UpdatableSignatureStore b) [(access, tick 2, [1])] =
      Inr (AccessStore (UpdatableSignatureStore b') None (Some 5))
    \<and> bs_name (sg_base b') = bs_name (sg_base b) \<and> bs_timeLimit (sg_base b') = bs_timeLimit (sg_base b)"
proof -
  let ?ak = "accessKey E0 (Some 5) access"
  have "?ak @ CHR ''/'' # time_key (tick 2) \<noteq> ''us'' @ CHR ''/'' # time_key zero_time"
  proof
    assume "?ak @ CHR ''/'' # time_key (tick 2) = ''us'' @ CHR ''/'' # time_key zero_time"
    then have "category_of (CHR ''/'' # ?ak @ CHR ''/'' # time_key (tick 2)) =
      category_of (CHR ''/'' # ''us'' @ CHR ''/'' # time_key zero_time)" by simp
    with accessKey_not_name(1) [of E0 "Some 5" access] show False unfolding category_of_stamped by simp
  qed
  then show ?thesis
    using assms
    by (simp add: newAccessStore_def NewAccessStore_def getAccessOpts_def gen_five ac_Grant_def ref_keys_def
        ref_protos_def ref_sig_def us_Put_def upd_Put_eq ref_newKey_def has_prefix_def Let_def split_beta del: b64_encode.simps)
qed

lemma owner_loaded:
  assumes "parseAddress E0 a = Inr (''us'', None, CHR ''~'' # b64_encode [0, 5], zero_time)"
  shows "\<exists>w db. open_store E0 U0 O1 a ''updatableSignature'' bai [] = Some (Inr (w, db))"
  by (simp add: open_store_def O1_def test_newStore_def NewStore_def assms loadStore_def selectNewStore_def
      NewUpdatableSignatureStore_def getUpdatableSignatureOpts_def gen_five empty_opts_def arrive_def with_data_def
      st_Sync_def base_Sync_def ref_ds_def us_loadCheck_def loadCheck_with_def upd_Query_def upd_baseQuery_def Let_def
      base_Query_def one_key_query_def ref_answer_def ref_entry_def selects_def prefix_selects_def window_def
      ref_query_lib_def finishStore_def clean_world_def loadAccessStore_def getAccessOpts_def pid5_decodes test_bind_def
      st_autoSync_def base_autoSync_def split_beta del: b64_encode.simps)

theorem signature_access_end_to_end_witness:
  "\<exists>d s t. with_bootstrap N0 U0 (Inr []) (testSignatureAccess_all E0 U0 O0 O1 [5] [5] (tick 2, [1]) (tick 3) d) =
    Some (Inr (bootstrap_Close N0 T0, s, t, [LogVal (Some meow)]))"
proof -
  let ?bai = "AddrInfoToString U0 (bootstrap_AddrInfo N0 T0)" and ?pid = "CHR ''~'' # b64_encode [0, 5]"
  obtain w b0 v where run0: "open_store E0 U0 O0 ''us'' ''updatableSignature'' ?bai [empty_opts\<lparr>so_Priv := Some 5, so_Pub := Some 5\<rparr>] =
      Some (Inr (w, UpdatableSignatureStore b0))"
    and b0: "sg_priv b0 = Some 5" "sg_pub b0 = Some 5" "bs_name (sg_base b0) = ''us''" "bs_timeLimit (sg_base b0) = zero_time"
      "bs_dt (sg_base b0) = [(CHR ''/'' # (?pid @ CHR ''/'' # ''us'') @ CHR ''/'' # time_key zero_time, v)]"
    using owner_opened by blast
  obtain b where acc: "newAccessStore E0 [5] (UpdatableSignatureStore b0) [(?pid, tick 2, [1])] =
      Inr (AccessStore (UpdatableSignatureStore b) None (Some 5))"
    and b: "bs_name (sg_base b) = ''us''" "bs_timeLimit (sg_base b) = zero_time"
    using owner_granted [OF b0(1,2,5)] b0(3,4) by metis
  have "parseAddress E0 (st_Address E0 (AccessStore (UpdatableSignatureStore b) None (Some 5))) = Inr (''us'', None, ?pid, zero_time)"
    using access_address [of E0 "UpdatableSignatureStore b" "Some 5" None] b pid5 pid5_ascii E0_total
    by (simp add: ref_protos_ok ascii_def salt_of_def canon_slice_def del: b64_encode.simps st_Address.simps)
  from owner_loaded [OF this] obtain w' db' where
    run1: "open_store E0 U0 O1 (st_Address E0 (AccessStore (UpdatableSignatureStore b) None (Some 5))) ''updatableSignature'' ?bai [] =
      Some (Inr (w', db'))" by blast
  obtain s err where put: "st_Put E0 (tick 3) ''aaa'' meow (AccessStore (UpdatableSignatureStore b) None (Some 5)) = (s, err)"
    by (metis prod.exhaust)
  have "with_bootstrap N0 U0 (Inr []) (testSignatureAccess_all E0 U0 O0 O1 [5] [5] (tick 2, [1]) (tick 3) (bs_dt (st_base s))) =
    Some (Inr (bootstrap_Close N0 T0, st_Close E0 s, st_Close E0 (with_data (bs_dt (st_base s)) db'), [LogVal (Some meow)]))"
    by (rule signature_access_end_to_end [OF E0_replica E0_live E0_signs E0_total E0_query U0_ok T0_new _ refl T0_string pair5(1) pid5 [symmetric]
          _ pair5 run0 _ _ acc _ run1 _ _ put table_bytes, where d = "[]"]) (simp_all del: b64_encode.simps)
  then show ?thesis by blast
qed

end
