(* ===== verification/Scenario_Properties.thy ===== *)
theory Scenario_Properties
  imports Reference
begin

text \<open>
  The acceptance scenarios of crdt/*_test_util.go from the point where two peers hold a store, whatever
  it holds: one writes and the other reads, with an access store in front, and after the time limit.
\<close>

section \<open>Two peers\<close>

text \<open>
  The scenarios of the log, signature and hash stores pass. If the store can put the first value,
  and the second one when it is put instead, then the second put is refused with \<open>ErrAlreadyExist\<close>,
  and a peer whose copy of the store has the same records reads the first value, before and after,
  under the key string of the writer if the store is signed; for a hash store no record is stored
  under the base string itself.
\<close>

theorem acceptance_scenarios:
  assumes "replica_ok E els" and "ds_live (lib_ds E) els" and "twins db0 db1"
    and "st_Put E now1 ''aaa'' meow db0 = (db0', None)" and "snd (st_Put E now2 ''aaa'' meow2 db0) = None"
    and "store_mode db0 = MHash \<Longrightarrow> st_table els db0' (newKey (lib_ds E) ''aaa'') = None"
    and "els d1 = st_table els db0'" and "els d2 = st_table els db0'"
  shows "\<exists>l1 l2. acceptance_test E now1 now2 d1 d2 db0 db1 =
    Inr (st_Close E db0', st_Close E (with_data d2 db1),
      LogVal (Some meow) # LogHas (Inr True) # l1 @ LogVal (Some meow) # l2)"
  using acceptance_passes [OF assms] by simp

theorem acceptance_scenarios_witness:
  "\<exists>s t l1 l2. acceptance_test E0 zero_time zero_time [(''/aaa'', meow)] [(''/aaa'', meow)] (LogStore B0) (LogStore B0) =
    Inr (s, t, LogVal (Some meow) # LogHas (Inr True) # l1 @ LogVal (Some meow) # l2)"
proof -
  let ?s = "LogStore (B0\<lparr>bs_dt := [(''/aaa'', meow)]\<rparr>) :: (assoc, byte, byte) store"
  have put: "st_Put E0 zero_time ''aaa'' meow (LogStore B0) = (?s, None)"
    and alt: "snd (st_Put E0 zero_time ''aaa'' meow2 (LogStore B0)) = None"
    by (simp_all add: B0_def ref_newKey_def has_prefix_def)
  have "\<exists>l1 l2. acceptance_test E0 zero_time zero_time [(''/aaa'', meow)] [(''/aaa'', meow)] (LogStore B0) (LogStore B0) =
    Inr (st_Close E0 ?s, st_Close E0 (with_data [(''/aaa'', meow)] (LogStore B0)),
      LogVal (Some meow) # LogHas (Inr True) # l1 @ LogVal (Some meow) # l2)"
    by (rule acceptance_scenarios [where els = map_of, OF E0_replica E0_live _ put alt])
      (simp_all add: st_table_def base_table_def fun_eq_iff)
  then show ?thesis by blast
qed

text \<open>
  The scenario of the updatable signature store passes. If both puts succeed, the second by a later
  clock, and nothing is stored under the writer's path before, then a peer whose copy has the same
  records reads the first value after the first put and the second value after the second.
\<close>

theorem acceptance_versions:
  assumes "replica_ok E els" and "ds_live (lib_ds E) els"
    and "wf_time now1" and "wf_time now2" and "instant_of now1 < instant_of now2"
    and "us_Put E now1 ''aaa'' meow b = (b', None)" and "us_Put E now2 ''aaa'' meow2 b' = (b'', None)"
    and "\<And>k. k \<in> dom (sg_table els b) \<Longrightarrow> \<not> below (us_putKey E b ''aaa'') k"
    and "els d1 = sg_table els b'" and "els d2 = sg_table els b''"
  shows "\<exists>ok l1 l2. BaseTestUpdatableSignatureStore E (sg_pub b) now1 now2 d1 d2
      (UpdatableSignatureStore b) (UpdatableSignatureStore c) =
    Inr (st_Close E (UpdatableSignatureStore b''), st_Close E (with_data d2 (UpdatableSignatureStore c)),
      LogVal (Some meow) # LogHas ok # l1 @ LogVal (Some meow2) # l2)"
  using versions_pass [OF assms] by simp

text \<open>The records of the two puts of the key 5.\<close>

definition V1 :: "(assoc, byte, byte) signature_store" where "V1 = fst (us_Put E0 (tick 3) ''aaa'' meow (SG0 5))"

definition V2 :: "(assoc, byte, byte) signature_store" where "V2 = fst (us_Put E0 (tick 5) ''aaa'' meow2 V1)"

lemma V_puts: "us_Put E0 (tick 3) ''aaa'' meow (SG0 5) = (V1, None)" "us_Put E0 (tick 5) ''aaa'' meow2 V1 = (V2, None)"
proof -
  show "us_Put E0 (tick 3) ''aaa'' meow (SG0 5) = (V1, None)"
    by (simp add: V1_def us_Put_def upd_Put_eq SG0_def B0_def del: b64_encode.simps)
  then show "us_Put E0 (tick 5) ''aaa'' meow2 V1 = (V2, None)"
    using tick_key [of 5 3]
    by (simp add: V2_def V1_def us_Put_def upd_Put_eq SG0_def B0_def ref_newKey_def has_prefix_def del: b64_encode.simps)
qed

theorem acceptance_versions_witness:
  "\<exists>s t ok l1 l2. BaseTestUpdatableSignatureStore E0 (Some 5) (tick 3) (tick 5) (bs_dt (sg_base V1)) (bs_dt (sg_base V2))
      (UpdatableSignatureStore (SG0 5)) (UpdatableSignatureStore (SG0 6)) =
    Inr (s, t, LogVal (Some meow) # LogHas ok # l1 @ LogVal (Some meow2) # l2)"
proof -
  have pub: "sg_pub (SG0 5) = Some 5" by (simp add: SG0_def)
  have "\<exists>ok l1 l2. BaseTestUpdatableSignatureStore E0 (sg_pub (SG0 5)) (tick 3) (tick 5) (bs_dt (sg_base V1)) (bs_dt (sg_base V2))
      (UpdatableSignatureStore (SG0 5)) (UpdatableSignatureStore (SG0 6)) =
    Inr (st_Close E0 (UpdatableSignatureStore V2), st_Close E0 (with_data (bs_dt (sg_base V2)) (UpdatableSignatureStore (SG0 6))),
      LogVal (Some meow) # LogHas ok # l1 @ LogVal (Some meow2) # l2)"
    by (rule acceptance_versions [where els = map_of, OF E0_replica E0_live _ _ _ V_puts])
      (simp_all add: sg_table_def base_table_def less_instant_def SG0_def B0_def)
  then show ?thesis unfolding pub by blast
qed

section \<open>With an access store\<close>

text \<open>
  The hash access scenario passes. The access store is made with a fresh key pair and grants the
  hashed key of the path; what it then puts, a peer that has loaded the store with its salt and master
  key reads and finds by a query, and the second put is refused.
\<close>

theorem hash_access_scenario:
  assumes "replica_ok E els" and "ds_live (lib_ds E) els" and "query_lib_ok nk (lib_q E)"
    and "generateKeyPair (crypto E) rnd = Inr (sk, vk)" and "key_pair (key_ops E) sk vk"
    and "newAccessStore E rnd (HashStore b0) [(hs_putKey E b0 ''aaa'', now0, val)] = Inr (AccessStore b p pub)"
    and "val \<noteq> []" and "hs_salt c = hs_salt b0"
    and "st_Put E now1 ''aaa'' meow b = (b', None)" and "snd (st_Put E now2 ''aaa'' meow2 b) = None"
    and "st_table els b' (newKey (lib_ds E) ''aaa'') = None"
    and "els d1 = st_table els b'" and "els d2 = st_table els b'"
  shows "testHashAccess E now1 now2 d1 d2 (AccessStore b p pub) (AccessStore (HashStore c) p' pub) =
    Inr (st_Close E (AccessStore b' p pub), st_Close E (with_data d2 (AccessStore (HashStore c) p' pub)),
      [LogVal (Some meow), LogHas (Inr True), LogVal (Some meow)])"
proof -
  note E1 = replica_okD [OF assms(1)]
  from newAccessStore_ok [OF assms(6,4)] have
    g: "grant_all E (Some sk) (Some vk) [(hs_putKey E b0 ''aaa'', now0, val)] (HashStore b0) = (b, None)"
    and pub: "pub = Some vk" by auto
  have "\<exists>s'. b = HashStore s' \<and> hs_salt s' = hs_salt b0 \<and>
      (\<forall>(access, now, v) \<in> set [(hs_putKey E b0 ''aaa'', now0, val)].
         \<exists>k. hs_grants E (hs_salt b0) (hs_table els s') (accessKey E (Some vk) access) k)"
    by (rule grant_all_hash [OF E1 _ g]) (use assms(5,7) in auto)
  then obtain s k where b: "b = HashStore s" "hs_salt s = hs_salt b0"
    and k: "hs_grants E (hs_salt b0) (hs_table els s) (accessKey E (Some vk) (hs_putKey E b0 ''aaa'')) k" by auto
  show ?thesis
    by (rule hash_access_passes [OF assms(1-3) b(1) refl _ refl _ _ assms(9-13), where k = k])
      (use b k assms(8) grant_all_key [OF g] in \<open>auto simp: pub hs_putKey_def\<close>)
qed

text \<open>The key 5 grants the hashed key, then its holder puts.\<close>

definition HA :: "(assoc, byte, byte) store" where
  "HA = fst (ac_Grant E0 zero_time [1] (hs_putKey E0 HS0 ''aaa'') (Some 5) (Some 5) (HashStore HS0))"

definition HA' :: "(assoc, byte, byte) store" where "HA' = fst (st_Put E0 zero_time ''aaa'' meow HA)"

lemma newKey_ref_hash: "ref_newKey (MakeHashKey E0 b salt) = CHR ''/'' # MakeHashKey E0 b salt"
  using newKey_hash [OF ref_key_ok E0_kdf_ok] .

lemma HA_new: "newAccessStore E0 [5] (HashStore HS0) [(hs_putKey E0 HS0 ''aaa'', zero_time, [1])] = Inr (AccessStore HA None (Some 5))"
  by (simp add: newAccessStore_def NewAccessStore_def getAccessOpts_def gen_pair_def ref_crypto_def HA_def ac_Grant_def ref_keys_def
      ref_protos_def ref_sig_def ref_hash_def hs_Put_def HS0_def B0_def Let_def del: b64_encode.simps)

lemma HA_eq: "\<exists>m ak. HA = HashStore (HS0\<lparr>hs_base := B0\<lparr>bs_dt := [(CHR ''/'' # MakeHashKey E0 ak (Some [7]), m)]\<rparr>\<rparr>) \<and> ak \<noteq> ''aaa''"
proof -
  let ?ak = "b64_encode (ref_ak 5 (hs_putKey E0 HS0 ''aaa''))"
  have "?ak \<noteq> ''aaa''" using accessKey_not_aaa [of E0 "Some 5" "hs_putKey E0 HS0 ''aaa''"] by simp
  moreover have "\<exists>m. HA = HashStore (HS0\<lparr>hs_base := B0\<lparr>bs_dt := [(CHR ''/'' # MakeHashKey E0 ?ak (Some [7]), m)]\<rparr>\<rparr>)"
    by (simp add: HA_def ac_Grant_def ref_keys_def ref_protos_def ref_sig_def ref_hash_def hs_Put_def HS0_def
        B0_def Let_def newKey_ref_hash del: b64_encode.simps)
  ultimately show ?thesis by blast
qed

lemma HA_put: "st_Put E0 zero_time ''aaa'' meow HA = (HA', None)" "snd (st_Put E0 zero_time ''aaa'' meow2 HA) = None"
  "st_table map_of HA' ''/aaa'' = None"
proof -
  obtain m ak where HA: "HA = HashStore (HS0\<lparr>hs_base := B0\<lparr>bs_dt := [(CHR ''/'' # MakeHashKey E0 ak (Some [7]), m)]\<rparr>\<rparr>)"
    and ak: "ak \<noteq> ''aaa''"
    using HA_eq by blast
  from ak ref_hash_inject [of "''aaa''" ak "Some [7]" "Some [7]"]
  have ne: "MakeHashKey E0 ''aaa'' (Some [7]) \<noteq> MakeHashKey E0 ak (Some [7])" by auto
  have hash: "MakeHashKey E0 b (Some [7]) \<noteq> ''aaa''" for b
    by (simp add: MakeHashKey_def b64_not_aaa del: b64_encode.simps)
  show "st_Put E0 zero_time ''aaa'' meow HA = (HA', None)" "snd (st_Put E0 zero_time ''aaa'' meow2 HA) = None"
    "st_table map_of HA' ''/aaa'' = None"
    using ne hash [of "''aaa''"] hash [of ak]
    by (simp_all add: HA'_def HA hs_Put_def HS0_def B0_def newKey_ref_hash ref_protos_def ref_hash_def st_table_def base_table_def)
qed

theorem hash_access_scenario_witness:
  "\<exists>s t. testHashAccess E0 zero_time zero_time (bs_dt (st_base HA')) (bs_dt (st_base HA'))
      (AccessStore HA None (Some 5)) (AccessStore (HashStore HS0) None (Some 5)) =
    Inr (s, t, [LogVal (Some meow), LogHas (Inr True), LogVal (Some meow)])"
proof -
  have "testHashAccess E0 zero_time zero_time (bs_dt (st_base HA')) (bs_dt (st_base HA'))
      (AccessStore HA None (Some 5)) (AccessStore (HashStore HS0) None (Some 5)) =
    Inr (st_Close E0 (AccessStore HA' None (Some 5)),
      st_Close E0 (with_data (bs_dt (st_base HA')) (AccessStore (HashStore HS0) None (Some 5))),
      [LogVal (Some meow), LogHas (Inr True), LogVal (Some meow)])"
    by (rule hash_access_scenario [where els = map_of and sk = 5 and vk = 5, OF E0_replica E0_live E0_query _ _ HA_new _ _ HA_put(1,2)])
      (use HA_put(3) in \<open>simp_all add: ref_key_pair ref_crypto_def st_table_def base_table_def ref_ds_def ref_newKey_def has_prefix_def\<close>)
  then show ?thesis by blast
qed

text \<open>
  The signature access scenario passes over an updatable signature store. The access store grants
  the writer's own key string; if nothing is stored under the grant's path or the written path before,
  and the writer's key string does not itself read as an access key, then a peer that has loaded the
  store with its master key reads what the writer puts and finds it by a query.
\<close>

theorem signature_access_scenario:
  assumes "replica_ok E els" and "ds_live (lib_ds E) els" and "query_lib_ok nk (lib_q E)"
    and "generateKeyPair (crypto E) rnd = Inr (sk, vk)" and "key_pair (key_ops E) sk vk"
    and "pid = PubKeyToStr (lib_id E) (crypto E) (sg_pub b0)" and "component_key E pid = None"
    and "newAccessStore E rnd (UpdatableSignatureStore b0) [(pid, now0, val)] =
      Inr (AccessStore (UpdatableSignatureStore b) p pub)" and "val \<noteq> []"
    and "untouched (sg_table els b0) (us_putKey E b0 (accessKey E (Some vk) pid))"
    and "untouched (sg_table els b0) (us_putKey E b0 ''aaa'')"
    and "wf_time now0" and "wf_time now1" and "us_Put E now1 ''aaa'' meow b = (b', None)"
    and "els d1 = sg_table els b'"
  shows "testSignatureAccess E (sg_pub b0) now1 d1 (AccessStore (UpdatableSignatureStore b) p pub)
      (AccessStore (UpdatableSignatureStore c) p' pub) =
    Inr (st_Close E (AccessStore (UpdatableSignatureStore b') p pub),
      st_Close E (with_data d1 (AccessStore (UpdatableSignatureStore c) p' pub)), [LogVal (Some meow)])"
proof -
  from newAccessStore_ok [OF assms(8,4)] have
    g: "grant_all E (Some sk) (Some vk) [(pid, now0, val)] (UpdatableSignatureStore b0) = (UpdatableSignatureStore b, None)"
    and pub: "pub = Some vk" by auto
  from g have "ac_Grant E now0 val pid (Some sk) (Some vk) (UpdatableSignatureStore b0) = (UpdatableSignatureStore b, None)"
    by (auto split: prod.splits option.splits)
  from signature_access_passes [OF assms(1-3,6,7,5) this assms(9-15)] show ?thesis unfolding pub .
qed

text \<open>The key 5 grants its own key string, then puts.\<close>

definition SA :: "(assoc, byte, byte) signature_store" where
  "SA = fst (us_Put E0 (tick 2) (b64_encode (ref_ak 5 (CHR ''~'' # b64_encode [0, 5]))) (enc_field [1] @ enc_field [5, 1]) (SG0 5))"

definition SA' :: "(assoc, byte, byte) signature_store" where "SA' = fst (us_Put E0 (tick 3) ''aaa'' meow SA)"

lemma SA_new: "newAccessStore E0 [5] (UpdatableSignatureStore (SG0 5)) [(CHR ''~'' # b64_encode [0, 5], tick 2, [1])] =
    Inr (AccessStore (UpdatableSignatureStore SA) None (Some 5))"
  by (simp add: newAccessStore_def NewAccessStore_def getAccessOpts_def gen_pair_def ref_crypto_def SA_def ac_Grant_def ref_keys_def
      ref_protos_def ref_sig_def us_Put_def upd_Put_eq SG0_def B0_def Let_def split_beta del: b64_encode.simps)

lemma SA_put: "us_Put E0 (tick 3) ''aaa'' meow SA = (SA', None)"
proof -
  have "''aaa'' @ CHR ''/'' # time_key (tick 3) \<noteq> b64_encode (ref_ak 5 x) @ CHR ''/'' # time_key (tick 2)" for x
  proof
    assume "''aaa'' @ CHR ''/'' # time_key (tick 3) = b64_encode (ref_ak 5 x) @ CHR ''/'' # time_key (tick 2)"
    then have "go_split (CHR ''/'') (b64_encode (ref_ak 5 x) @ CHR ''/'' # time_key (tick 2)) =
        go_split (CHR ''/'') (''aaa'' @ CHR ''/'' # time_key (tick 3))" by (rule arg_cong [OF sym])
    with b64_not_aaa b64_encode_no_slash show False
      by (simp only: go_split_append) (simp add: go_split_no_sep del: b64_encode.simps)
  qed
  from this [of "CHR ''~'' # b64_encode [0, 5]"] show ?thesis
    by (simp add: SA'_def SA_def us_Put_def upd_Put_eq SG0_def B0_def ref_newKey_def has_prefix_def split_beta del: b64_encode.simps)
qed

theorem signature_access_scenario_witness:
  "\<exists>s t. testSignatureAccess E0 (Some 5) (tick 3) (bs_dt (sg_base SA'))
      (AccessStore (UpdatableSignatureStore SA) None (Some 5)) (AccessStore (UpdatableSignatureStore (SG0 6)) None (Some 5)) =
    Inr (s, t, [LogVal (Some meow)])"
proof -
  have pub: "sg_pub (SG0 5) = Some 5" by (simp add: SG0_def)
  have "testSignatureAccess E0 (sg_pub (SG0 5)) (tick 3) (bs_dt (sg_base SA'))
      (AccessStore (UpdatableSignatureStore SA) None (Some 5)) (AccessStore (UpdatableSignatureStore (SG0 6)) None (Some 5)) =
    Inr (st_Close E0 (AccessStore (UpdatableSignatureStore SA') None (Some 5)),
      st_Close E0 (with_data (bs_dt (sg_base SA')) (AccessStore (UpdatableSignatureStore (SG0 6)) None (Some 5))), [LogVal (Some meow)])"
    by (rule signature_access_scenario [where els = map_of and sk = 5 and vk = 5, OF E0_replica E0_live E0_query _ _ _ _ SA_new _ _ _ _ _ SA_put])
      (simp_all add: ref_key_pair pub untouched_def sg_table_def base_table_def SG0_def B0_def del: b64_encode.simps,
       simp_all add: ref_crypto_def)
  then show ?thesis unfolding pub by blast
qed

section \<open>After the time limit\<close>

text \<open>
  C11: a store that is loaded by its address after the limit in it is closed, whatever else was passed to
  the call and however the loading went. A message of another peer is then accepted only if the heads that
  can be read carry no record, and its merge changes the copy at no key but those of the nodes the topic
  validator does not see, ancestors of the heads and heads that could not be read (C25). And when it is an
  updatable signature store that holds nothing, the time-limit scenario passes.
\<close>

theorem late_store_closed:
  assumes "replica_ok E els" and "ds_live (lib_ds E) els" and "query_lib_ok nk (lib_q E)"
    and "parseAddress E name = Inr (stName, salt, pid, lim)"
    and "\<And>i. passed lim (at_now (fst (tries i)))" and "passed lim (at_now A)"
    and "test_newStore E name md tries A rnd opts = Some (Inr (w, s))"
    and "peer \<noteq> hid" and "accepts E has hid now s G peer msg" and "msgToCRDTHeads G msg = Inr heads"
    and "message_merged (newKey (lib_ds E)) place G heads G' nodes (st_table els s) (els d)"
    and "clean_path (PubKeyToStr (lib_id E) (crypto E) pub @ ''/aaa'')"
  shows "\<not> base_isInTime (st_base s) \<and> delta_records (headDeltas G heads) = []
    \<and> (\<forall>k. k \<notin> unchecked_keys (newKey (lib_ds E)) place G heads G' nodes \<longrightarrow> els d k = st_table els s k)
    \<and> (store_mode s = MUpdatableSignature \<and> st_table els s = Map.empty \<longrightarrow>
        BaseTestTimeLimit E pub db0 s = Inr (st_Close E db0, st_Close E s))"
proof (intro conjI impI allI)
  have closed: "\<not> bs_inTime (st_base s)"
    by (rule late_store [OF assms(4-6) test_newStore_Some [OF assms(7)]])
  then show "\<not> base_isInTime (st_base s)" by (simp add: base_isInTime_def)
  show "delta_records (headDeltas G heads) = []" by (rule closed_no_records [OF closed assms(8-10)])
  show "els d k = st_table els s k" if "k \<notin> unchecked_keys (newKey (lib_ds E)) place G heads G' nodes" for k
    by (rule closed_open_merge [OF closed assms(8-11) that])
  assume "store_mode s = MUpdatableSignature \<and> st_table els s = Map.empty"
  then show "BaseTestTimeLimit E pub db0 s = Inr (st_Close E db0, st_Close E s)"
    using time_limit_passes [OF replica_okD(1) [OF assms(1)] assms(2,3,12)] closed by blast
qed

text \<open>A store with the limit 3, loaded by its address at 5; nothing arrives.\<close>

definition A5 :: "assoc attempt" where "A5 = \<lparr>at_run = RUN0, at_now = tick 5, at_rnd = [5]\<rparr>"

lemma passed_5: "passed (tick 3) (tick 5)"
  by (simp add: passed_def time_equal_def time_before_def both_mono_def zero_time_def tick_def t_sec_def t_nsec_def)

lemma tick_limit: "t_loc (tick n) = UTC" "no_mono (tick n)"
  by (simp_all add: tick_def no_mono_def)

lemma late_run:
  "\<exists>w s. test_newStore E0 (MakeAddress E0 ''s'' (CHR ''~'' # b64_encode [0, 5]) None [tick 3]) ''updatableSignature''
      (\<lambda>_. (A5, [Tick [] False])) A5 [] [] = Some (Inr (w, s))
    \<and> store_mode s = MUpdatableSignature \<and> st_table map_of s = Map.empty"
  using passed_5 tick_limit
  by (simp add: test_newStore_def NewStore_def E0_address_limit pid5_ascii loadStore_def selectNewStore_def
      NewUpdatableSignatureStore_def getUpdatableSignatureOpts_def gen_five empty_opts_def A5_def
      with_limit_def base_setTimeLimit_def passed_def arrive_def with_data_def st_Sync_def base_Sync_def ref_ds_def
      us_loadCheck_def loadCheck_with_def Let_def finishStore_def clean_world_def loadAccessStore_def getAccessOpts_def pid5_decodes split_beta
      st_table_def base_table_def test_bind_def st_autoSync_def base_autoSync_def del: b64_encode.simps)

theorem late_store_closed_witness:
  "\<exists>w s. test_newStore E0 (MakeAddress E0 ''s'' (CHR ''~'' # b64_encode [0, 5]) None [tick 3]) ''updatableSignature''
      (\<lambda>_. (A5, [Tick [] False])) A5 [] [] = Some (Inr (w, s))
    \<and> BaseTestTimeLimit E0 (Some 5) R0 s = Inr (st_Close E0 R0, st_Close E0 s)"
proof -
  obtain w s where run: "test_newStore E0 (MakeAddress E0 ''s'' (CHR ''~'' # b64_encode [0, 5]) None [tick 3]) ''updatableSignature''
      (\<lambda>_. (A5, [Tick [] False])) A5 [] [] = Some (Inr (w, s))"
    and s: "store_mode s = MUpdatableSignature" "st_table map_of s = Map.empty"
    using late_run by blast
  have late: "passed (tick 3) (at_now A5)" "passed (tick 3) (at_now (fst (A5, [Tick [] False])))"
    by (simp_all add: A5_def passed_5)
  have heads: "msgToCRDTHeads (ref_dag [] :: (bytes, bytes) dag_lib) [] = Inr [[]]" by simp
  have "accepts E0 ref_has ''me'' zero_time s (ref_dag []) ''p'' []"
    by (simp add: accepts_def foreign_messages msgToDeltas_def delta_records_def)
  moreover have "clean_path (PubKeyToStr (lib_id E0) (crypto E0) (Some 5) @ CHR ''/'' # ''aaa'')"
    unfolding clean_path_append
    by (rule conjI, rule plain_clean [OF PubKeyToStr_plain]) (simp_all add: ref_id_ok clean_path_def [of "''aaa''"])
  moreover have "message_merged (newKey (lib_ds E0)) (\<lambda>k. k) (ref_dag [] :: (bytes, bytes) dag_lib) [[]] (ref_dag []) []
      (st_table map_of s) (map_of [])"
    by (simp add: s message_merged_def open_merged_def)
  moreover note late_store_closed [where els = map_of, OF E0_replica E0_live E0_query
      E0_address_limit [OF pid5_ascii tick_simps(1) tick_limit] late(2,1) run _ _ heads, of "''p''" "''me''" ref_has zero_time
      "\<lambda>k. k" "ref_dag []" "[]" "[]" "Some 5" R0]
  ultimately show ?thesis using run s by auto
qed

end
