(* ===== verification/Access_Properties.thy ===== *)
theory Access_Properties
  imports Reference
begin

text \<open>
  What the check of an access store (crdt/access.go) establishes: grants made by \<open>NewAccessStore\<close> are
  found by every later check on the copy, as long as the record of the grant is not touched unchecked
  (theory OpenRuns); over a hash store only the master key can make a grant, but for such records and for
  collisions of the hash, over a signature store anybody can make one for himself; and the methods of the
  access store let nothing through that the check does not.
\<close>

section \<open>Grants are found\<close>

text \<open>
  C13: after \<open>NewAccessStore\<close> over a signature store, with a real master key pair, non-empty random bytes
  for every grant and a store whose own key string does not read as an access key, the check passes for
  every key of every writer that was granted, on the store it returns and on every state the copy reaches
  from there, until the key under which the grant's record is stored, the own key string followed by the
  access key, is touched unchecked. It is relied on that the storage does not fail and that the lookup in
  badger is exact.
\<close>

theorem signature_grants_last:
  assumes "replica_ok E els" and "ds_live (lib_ds E) els" and "query_lib_ok nk (lib_q E)"
    and "key_pair (key_ops E) sk vk" and "so_Priv opt = Some sk" and "so_Pub opt = Some vk"
    and "component_key E (PubKeyToStr (lib_id E) (crypto E) (sg_pub s)) = None"
    and "NewAccessStore E rnd (SignatureStore s) accesses [opt] = (b, Inr ac)"
    and "(access, now, val) \<in> set accesses" and "\<forall>(a, t, v) \<in> set accesses. v \<noteq> []"
    and "has_exact E els has (bs_name (st_base b))" and "open_run E els has hid links b U b'"
    and "CHR ''/'' # PubKeyToStr (lib_id E) (crypto E) (sg_pub s) @ CHR ''/'' # accessKey E (so_Pub opt) access \<notin> U"
    and "st_accessFromKey b' (trim_prefix key ''/'') = access" and "access \<noteq> []"
  shows "ac_Verify E b' (so_Pub opt) key = None"
proof -
  note E = replica_okD(1,2) [OF assms(1)]
  from NewAccessStore_ok [OF assms(8)] obtain priv pub opts' where
    o: "getAccessOpts E rnd [opt] = ((priv, pub), opts')" and g: "grant_all E priv pub accesses (SignatureStore s) = (b, None)"
    by metis
  from getAccessOpts_pair [OF o] assms(5,6) have pub: "priv = Some sk" "pub = Some vk" by simp_all
  let ?k = "CHR ''/'' # PubKeyToStr (lib_id E) (crypto E) (sg_pub s) @ CHR ''/'' # accessKey E pub access"
  have "\<exists>s1. b = SignatureStore s1 \<and> sg_pub s1 = sg_pub s \<and>
      (\<forall>(access, now, val) \<in> set accesses. sg_grants E (sg_table els s1) (accessKey E pub access)
         (CHR ''/'' # PubKeyToStr (lib_id E) (crypto E) (sg_pub s) @ CHR ''/'' # accessKey E pub access))"
    by (rule grant_all_signature [OF E _ assms(7) g]) (use pub assms(4,10) in auto)
  then obtain s1 where b: "b = SignatureStore s1" and k: "sg_grants E (sg_table els s1) (accessKey E pub access) ?k"
    using assms(9) by fast
  from open_run_kind [OF assms(12)] b obtain s2 where b': "b' = SignatureStore s2" by (cases b') auto
  from grants_stored(1) [OF k] obtain v where v: "sg_table els s1 ?k = Some v" by blast
  have "sg_table els s2 ?k = Some v"
    using open_run_keeps [OF E(1) assms(11) _ assms(12)] v assms(6,13) pub(2)
    by (simp add: b b' st_table_def sg_table_def)
  then have "sg_grants E (sg_table els s2) (accessKey E pub access) ?k"
    using grants_kept(1) [OF _ k] v by simp
  with ac_verify_signature [OF E(1) assms(2,3), of key access pub "accessKey E pub access" s2]
    grant_all_key [OF g assms(9)] assms(14,15) pub assms(6)
  show ?thesis by (auto simp: b' ac_Verify_def)
qed

definition SG1 :: "(assoc, byte, byte) store" where
  "SG1 = fst (ac_Grant E0 zero_time [1] ''w'' (Some 5) (Some 5) (SignatureStore (SG0 5)))"

definition opt5 :: "(byte, byte) store_opts" where
  "opt5 = empty_opts\<lparr>so_Priv := Some 5, so_Pub := Some 5\<rparr>"

lemma SG1_new: "NewAccessStore E0 [] (SignatureStore (SG0 5)) [(''w'', zero_time, [1])] [opt5] =
    (SG1, Inr (AccessStore SG1 None (Some 5)))"
  by (simp add: NewAccessStore_def getAccessOpts_def opt5_def SG1_def ac_Grant_def ref_keys_def
      ref_protos_def ref_sig_def sg_Put_def SG0_def B0_def Let_def del: b64_encode.simps)

lemma SG1_kind: "bs_name (st_base SG1) = ''s''" "st_accessFromKey SG1 ''w'' = ''w''"
  by (simp_all add: SG1_def ac_Grant_def ref_keys_def sg_accessFromKey_def key_parts_def
      ref_protos_def ref_sig_def sg_Put_def SG0_def B0_def Let_def del: b64_encode.simps)

theorem signature_grants_last_witness: "ac_Verify E0 (end_window SG1) (Some 5) ''/w/key'' = None"
proof -
  have k: "st_accessFromKey (end_window SG1) (trim_prefix ''/w/key'' ''/'') = ''w''"
    using SG1_kind(2) by (simp add: SG1_def ac_Grant_def ref_keys_def sg_accessFromKey_def key_parts_def
      ref_protos_def ref_sig_def sg_Put_def SG0_def B0_def Let_def end_window_def has_prefix_def del: b64_encode.simps)
  have run: "open_run E0 map_of ref_has ''me'' ref_links SG1 {} (end_window SG1)"
    using open_snoc [OF open_start open_window] by simp
  have "has_exact E0 map_of ref_has (bs_name (st_base SG1))"
    using ref_has_exact by (simp add: SG1_kind)
  then show ?thesis
    using signature_grants_last [OF E0_replica E0_live E0_query _ _ _ _ SG1_new _ _ _ run _ k, of 5 5 zero_time "[1]"]
    by (simp add: opt5_def SG0_def ref_key_pair del: b64_encode.simps)
qed

text \<open>
  C14: the same over a hash store: with a real master key pair and non-empty random bytes for every grant,
  the check passes for the granted key, on the store returned and on every state the copy reaches from
  there, until the key under which the grant's record is stored, the hash of the access key, is touched
  unchecked.
\<close>

theorem hash_grants_last:
  assumes "replica_ok E els" and "ds_live (lib_ds E) els" and "query_lib_ok nk (lib_q E)"
    and "key_pair (key_ops E) sk vk" and "so_Priv opt = Some sk" and "so_Pub opt = Some vk"
    and "NewAccessStore E rnd (HashStore s) accesses [opt] = (b, Inr ac)"
    and "(trim_prefix key ''/'', now, val) \<in> set accesses" and "\<forall>(a, t, v) \<in> set accesses. v \<noteq> []"
    and "has_exact E els has (bs_name (st_base b))" and "open_run E els has hid links b U b'"
    and "CHR ''/'' # MakeHashKey E (accessKey E (so_Pub opt) (trim_prefix key ''/'')) (hs_salt s) \<notin> U"
    and "trim_prefix key ''/'' \<noteq> []"
  shows "ac_Verify E b' (so_Pub opt) key = None"
proof -
  note E = replica_okD [OF assms(1)]
  from NewAccessStore_ok [OF assms(7)] obtain priv pub opts' where
    o: "getAccessOpts E rnd [opt] = ((priv, pub), opts')" and g: "grant_all E priv pub accesses (HashStore s) = (b, None)"
    by metis
  from getAccessOpts_pair [OF o] assms(5,6) have pub: "priv = Some sk" "pub = Some vk" by simp_all
  let ?ak = "accessKey E pub (trim_prefix key ''/'')"
  let ?k = "CHR ''/'' # MakeHashKey E ?ak (hs_salt s)"
  have "\<exists>s1. b = HashStore s1 \<and> hs_salt s1 = hs_salt s \<and>
      (\<forall>(access, now, val) \<in> set accesses. hs_grants E (hs_salt s) (hs_table els s1) (accessKey E pub access)
         (CHR ''/'' # MakeHashKey E (accessKey E pub access) (hs_salt s)))"
    by (rule grant_all_hash_key [OF E _ g]) (use pub assms(4,9) in auto)
  then obtain s1 where b: "b = HashStore s1" "hs_salt s1 = hs_salt s"
    and k: "hs_grants E (hs_salt s) (hs_table els s1) ?ak ?k"
    using assms(8) by fast
  from open_run_kind [OF assms(11)] b obtain s2 where b': "b' = HashStore s2" "hs_salt s2 = hs_salt s" by (cases b') auto
  from grants_stored(2) [OF k] obtain v where v: "hs_table els s1 ?k = Some v" by blast
  have "hs_table els s2 ?k = Some v"
    using open_run_keeps [OF E(1) assms(10) _ assms(11)] v assms(6,12) pub(2)
    by (simp add: b b' st_table_def hs_table_def)
  then have "hs_grants E (hs_salt s) (hs_table els s2) ?ak ?k"
    using grants_kept(2) [OF _ k] v by simp
  with ac_verify_hash [OF E(1) assms(2,3,13), of pub ?ak s2] grant_all_key [OF g assms(8)] pub assms(6)
  show ?thesis by (auto simp: b' ac_Verify_def)
qed

lemma HS1_new: "NewAccessStore E0 [] (HashStore HS0) [(''x'', zero_time, [1])] [opt5] =
    (HashStore HS1, Inr (AccessStore (HashStore HS1) None (Some 5)))"
  by (simp add: NewAccessStore_def getAccessOpts_def opt5_def HS1_grant)

lemma HS1_name: "bs_name (st_base (HashStore HS1)) = ''s''"
  by (simp add: HS1_def HS0_def B0_def)

theorem hash_grants_last_witness: "ac_Verify E0 (end_window (HashStore HS1)) (Some 5) ''x'' = None"
proof -
  have run: "open_run E0 map_of ref_has ''me'' ref_links (HashStore HS1) {} (end_window (HashStore HS1))"
    using open_snoc [OF open_start open_window] by simp
  have "has_exact E0 map_of ref_has (bs_name (st_base (HashStore HS1)))"
    unfolding HS1_name by (rule ref_has_exact)
  then show ?thesis
    using hash_grants_last [OF E0_replica E0_live E0_query _ _ _ HS1_new _ _ _ run, of 5 5 "''x''" zero_time "[1]"]
    by (simp add: opt5_def ref_key_pair)
qed

section \<open>Who can grant\<close>

text \<open>
  C12: over a hash store, a passed check for a key means that the copy, in whatever state it has reached
  from one whose records are consistent, holds a record under the hash of the access key, with the store's
  salt, whose base string is that access key and whose value carries a signature that the master key
  verifies; unless the record's key has been touched unchecked, or the record shows a collision of the
  hash, another base string (with some salt) that has the same hash as the access key. It is relied on
  that the storage does not fail.
\<close>

theorem hash_access_sound:
  assumes "replica_ok E els" and "ds_live (lib_ds E) els" and "query_lib_ok nk (lib_q E)"
    and "good_store E els (HashStore h0)" and "open_run E els has hid links (HashStore h0) U (HashStore h)"
    and "accessKey E (Some vk) (trim_prefix key ''/'') = ak"
    and "ac_Verify E (HashStore h) (Some vk) key = None"
  shows "\<exists>k v data. hs_table els h k = Some v \<and> hd (key_parts k) = MakeHashKey E ak (hs_salt h)
    \<and> c_unmarshal (pb_hash (lib_pb E)) v = Inr data
    \<and> (k \<in> U
       \<or> hd_baseHash data \<noteq> ak \<and> MakeHashKey E (hd_baseHash data) (hd_salt data) = MakeHashKey E ak (hs_salt h)
       \<or> hd_baseHash data = ak
         \<and> (\<exists>sd. c_unmarshal (pb_sig (lib_pb E)) (contents (hd_value data)) = Inr sd
             \<and> k_verify (key_ops E) vk (contents (sd_value sd)) (contents (sd_sign sd)) = Inr True))"
proof -
  note E = replica_okD [OF assms(1)]
  have ver: "ac_verify E (HashStore h) (Some vk) key = Inr True"
    using assms(7) by (cases "ac_verify E (HashStore h) (Some vk) key") (simp_all add: ac_Verify_def split: if_splits)
  have ne: "trim_prefix key ''/'' \<noteq> []" "ak \<noteq> []"
    using ver unfolding ac_verify_def Let_def st_accessFromKey.simps hs_accessFromKey_def assms(6) [symmetric]
    by (metis Inl_Inr_False)+
  from ver ac_verify_hash [OF E(1) assms(2,3) ne(1) assms(6) ne(2), of h]
  obtain k where k: "hs_grants E (hs_salt h) (hs_table els h) ak k" by auto
  have good: "good_off E els U (HashStore h)"
    by (rule open_run_good [OF assms(1) _ assms(4,5)]) simp
  have cons: "hash_consistent E k v" if "hs_table els h k = Some v" "k \<notin> U" for k v
    using good_offD [OF good, of k v] that by (simp add: st_table_def hs_table_def)
  show ?thesis
    by (rule hash_check_sound [OF E(2) ne(2) [folded assms(6)] cons k [folded assms(6)]])
      (assumption, assumption, unfold assms(6), blast)
qed

theorem hash_access_sound_witness:
  "\<exists>k v data sd. hs_table map_of HS1 k = Some v \<and> c_unmarshal (pb_hash (lib_pb E0)) v = Inr data
    \<and> hd_baseHash data = accessKey E0 (Some 5) ''x''
    \<and> c_unmarshal (pb_sig (lib_pb E0)) (contents (hd_value data)) = Inr sd
    \<and> k_verify (key_ops E0) 5 (contents (sd_value sd)) (contents (sd_sign sd)) = Inr True"
proof -
  obtain msd where put: "st_Put E0 zero_time (accessKey E0 (Some 5) ''x'') msd (HashStore HS0) = (HashStore HS1, None)"
    and ne: "accessKey E0 (Some 5) ''x'' \<noteq> []"
    using ac_Grant_ok [OF HS1_grant] by metis
  have "clean_path (accessKey E0 (Some 5) ''x'')"
    by (rule plain_clean [OF accessKey_plain [OF ne]])
  with open_put [OF put, where els = map_of and has = ref_has and hid = "''me''" and links = ref_links]
  have "open_step E0 map_of ref_has ''me'' ref_links (HashStore HS0) {} (HashStore HS1)"
    by (simp add: wf_time_def zero_time_def t_sec_def)
  from open_snoc [OF open_start this] have run: "open_run E0 map_of ref_has ''me'' ref_links (HashStore HS0) {} (HashStore HS1)" by simp
  have good: "good_store E0 map_of (HashStore HS0)"
    by (simp add: good_store_def st_table_def base_table_def HS0_def B0_def)
  have pair: "key_pair (key_ops E0) sk vk" if "Some 5 = Some sk" "Some 5 = Some vk" for sk vk
    using that by (simp add: ref_key_pair)
  obtain h k where h: "HashStore HS1 = HashStore h" "hs_salt h = hs_salt HS0"
    and k: "hs_grants E0 (hs_salt HS0) (hs_table map_of h) (accessKey E0 (Some 5) ''x'') k"
    by (rule Grant_hash [OF replica_okD(1,2,3) [OF E0_replica] pair HS1_grant]) simp_all
  have x: "trim_prefix ''x'' ''/'' = ''x''" by simp
  have "ac_verify E0 (HashStore HS1) (Some 5) ''x'' = Inr True"
    using ac_verify_hash [OF replica_okD(1) [OF E0_replica] E0_live E0_query, of "''x''" "Some 5", unfolded x, OF _ refl ne, of HS1]
      h k by auto
  then have ver: "ac_Verify E0 (HashStore HS1) (Some 5) ''x'' = None" by (simp add: ac_Verify_def)
  have "length (accessKey E0 (Some 5) ''x'') < 63"
    by (simp add: ref_ak_def bytes_of_string_def Let_def)
  note inject = ref_hash_inject [OF this]
  have ak: "accessKey E0 (Some 5) (trim_prefix ''x'' ''/'') = accessKey E0 (Some 5) ''x''" by (simp only: x)
  from hash_access_sound [OF E0_replica E0_live E0_query good run ak ver] inject show ?thesis by blast
qed

lemma accessFromKey_first:
  assumes "plain_component p"
  shows "trim_prefix (p @ CHR ''/'' # k) ''/'' = p @ CHR ''/'' # k" "sg_accessFromKey (p @ CHR ''/'' # k) = p"
proof -
  show trim: "trim_prefix (p @ CHR ''/'' # k) ''/'' = p @ CHR ''/'' # k"
    using assms by (cases p) (auto simp: plain_component_def)
  show "sg_accessFromKey (p @ CHR ''/'' # k) = p"
    using assms go_split_append [of "CHR ''/''" p k]
    by (simp add: sg_accessFromKey_def key_parts_def trim plain_component_def go_split_no_sep)
qed

text \<open>
  C15: over a signature store a writer can grant himself access. The filter of the check takes the
  master key from the first component of a key that decodes to an access key, so a record under an
  access key of his own, followed by the access key that is looked for, is verified with his own key.
  The record is an ordinary signed record of his, and once it is in a copy the master's check passes
  for all his keys.
\<close>

theorem self_granted_access:
  assumes "env_ok E els" and "libs_ok E" and "ds_live (lib_ds E) els" and "query_lib_ok nk (lib_q E)"
    and "key_pair (key_ops E) sk vk" and "sg_priv s = Some sk" and "sg_pub s = Some vk"
    and "PubKeyToStr (lib_id E) (crypto E) (Some vk) = pid" and "pid \<noteq> []" and "component_key E pid = None"
    and "accessKey E (Some vk) access' = ak'" and "ak' \<noteq> []" and "accessKey E master pid = ak" and "ak \<noteq> []"
    and "k_sign (key_ops E) sk val = Inr sign" and "val \<noteq> []"
    and "c_marshal (pb_sig (lib_pb E)) \<lparr>sd_value = Some val, sd_sign = Some sign\<rparr> = Inr msd"
    and "sg_Put E (ak' @ ''/'' @ ak) msd s = (s', None)"
  shows "ac_Verify E (SignatureStore s') master (pid @ ''/'' @ key) = None"
proof -
  have "plain_component pid"
    using PubKeyToStr_plain [OF libs_okD(2) [OF assms(2)], of "crypto E" "Some vk"] assms(8,9) by simp
  then have acc: "sg_accessFromKey (trim_prefix (pid @ ''/'' @ key) ''/'') = pid"
    by (simp add: accessFromKey_first)
  obtain k where "sg_grants E (sg_table els s') ak k"
    by (rule self_grant_record [OF assms(1,2,5,6,7) _ _ _ assms(15,16,17), of access' master pid])
      (use assms(8-14,18) in auto)
  then show ?thesis
    using ac_verify_signature [OF assms(1,3,4) acc assms(9,13,14)] by (auto simp: ac_Verify_def)
qed

theorem self_granted_access_witness:
  "ac_Verify E0 (SignatureStore (fst (sg_Put E0 (b64_encode (ref_ak 6 ''z'') @ ''/''
       @ b64_encode (ref_ak 5 (CHR ''~'' # b64_encode [0, 6]))) (enc_field [1] @ enc_field [6, 1]) (SG0 6))))
     (Some 5) ((CHR ''~'' # b64_encode [0, 6]) @ ''/'' @ ''key'') = None"
proof -
  let ?put = "sg_Put E0 (b64_encode (ref_ak 6 ''z'') @ ''/'' @ b64_encode (ref_ak 5 (CHR ''~'' # b64_encode [0, 6])))
    (enc_field [1] @ enc_field [6, 1]) (SG0 6)"
  have put: "?put = (fst ?put, None)"
    by (simp add: sg_Put_def SG0_def B0_def split_beta del: b64_encode.simps)
  show ?thesis
    by (rule self_granted_access [OF replica_okD(1,2) [OF E0_replica] E0_live E0_query _ _ _ _ _ _ _ _ _ _ _ _ _ put,
          where sk = 6 and vk = 6 and sign = "[6, 1]" and access' = "''z''" and val = "[1]"])
      (simp_all add: SG0_def ref_key_pair ref_protos_def ref_sig_def del: b64_encode.simps, simp add: ref_keys_def)
qed

text \<open>A signature store that holds one record: the grant of the key 5 to its own writer.\<close>

definition pid5 :: string where "pid5 = CHR ''~'' # b64_encode [0, 5]"

definition msd5 :: bytes where "msd5 = enc_field [1] @ enc_field [5, 1]"

definition rec5 :: "string \<times> bytes" where
  "rec5 = (CHR ''/'' # pid5 @ CHR ''/'' # b64_encode (ref_ak 5 pid5), enc_field msd5 @ enc_field (5 # msd5))"

definition SG2 :: "(assoc, byte, byte) store" where
  "SG2 = SignatureStore ((SG0 5)\<lparr>sg_base := B0\<lparr>bs_dt := [rec5]\<rparr>\<rparr>)"

lemma pid5_access [simp]:
  "sg_accessFromKey (trim_prefix (pid5 @ CHR ''/'' # k) ''/'') = pid5"
  "sg_accessFromKey (trim_prefix (fst rec5) ''/'') = pid5"
proof -
  have "plain_component pid5" by (simp add: plain_component_def pid5_def del: b64_encode.simps)
  then show "sg_accessFromKey (trim_prefix (pid5 @ CHR ''/'' # k) ''/'') = pid5"
    "sg_accessFromKey (trim_prefix (fst rec5) ''/'') = pid5"
    by (simp_all add: rec5_def accessFromKey_first)
qed

lemma SG2_verify:
  assumes acc: "sg_accessFromKey (trim_prefix key ''/'') = pid5"
  shows "ac_Verify E0 SG2 (Some 5) key = None"
proof -
  let ?s = "(SG0 5)\<lparr>sg_base := B0\<lparr>bs_dt := [rec5]\<rparr>\<rparr>"
  have pid5: "CHR ''/'' \<notin> set pid5" "pid5 \<noteq> []" by (simp_all add: pid5_def del: b64_encode.simps)
  have g: "ac_Grant E0 zero_time [1] pid5 (Some 5) (Some 5) (SignatureStore (SG0 5)) = (SignatureStore ?s, None)"
    by (simp add: ac_Grant_def ref_keys_def ref_protos_def ref_sig_def sg_Put_def SG0_def B0_def Let_def
        rec5_def msd5_def pid5_def ref_newKey_def has_prefix_def del: b64_encode.simps)
  have pair: "key_pair (key_ops E0) sk vk" if "Some 5 = Some sk" "Some 5 = Some vk" for sk vk
    using that by (simp add: ref_key_pair)
  have own: "component_key E0 (PubKeyToStr (lib_id E0) (crypto E0) (sg_pub (SG0 5))) = None"
    by (simp add: SG0_def del: b64_encode.simps)
  obtain s k where s: "SignatureStore ?s = SignatureStore s"
    and k: "sg_grants E0 (sg_table map_of s) (accessKey E0 (Some 5) pid5) k"
    by (rule Grant_signature [OF replica_okD(1,2) [OF E0_replica] pair own g]) simp_all
  have ne: "accessKey E0 (Some 5) pid5 \<noteq> []" by simp
  from ac_verify_signature [OF replica_okD(1) [OF E0_replica] E0_live E0_query acc pid5(2) refl ne] s k
  show ?thesis by (auto simp: ac_Verify_def SG2_def)
qed

section \<open>The guards of the methods\<close>

text \<open>
  C16: a write that an access store reports as done, or a read it answers, has passed the check of the
  master key: for the key the base store writes under, for the key that is read, or, over a hash
  store, for its hash. A write that is denied leaves the store as it was.
\<close>

theorem access_guarded:
  "(snd (st_Put E now key val (AccessStore b priv pub)) = None \<longrightarrow> ac_Verify E b pub (st_putKey E b key) = None)
   \<and> (ac_Verify E b pub (st_putKey E b key) \<noteq> None \<longrightarrow>
        fst (st_Put E now key val (AccessStore b priv pub)) = AccessStore b priv pub)
   \<and> (is_ok (st_Get E (AccessStore b priv pub) key) \<or> is_ok (st_GetSize E (AccessStore b priv pub) key)
        \<or> is_ok (st_Has E (AccessStore b priv pub) key) \<longrightarrow>
        ac_Verify E b pub key = None \<or> is_hash_store b \<and> ac_Verify E b pub (st_putKey E b key) = None)"
proof -
  have read: "ac_gate E b pub key = None"
    if "is_ok (st_Get E (AccessStore b priv pub) key) \<or> is_ok (st_GetSize E (AccessStore b priv pub) key)
        \<or> is_ok (st_Has E (AccessStore b priv pub) key)"
    using that by (cases "ac_gate E b pub key") simp_all
  have put: "ac_Verify E b pub (st_putKey E b key) = None" if "snd (st_Put E now key val (AccessStore b priv pub)) = None"
    using that by (cases "ac_Verify E b pub (st_putKey E b key)") simp_all
  have denied: "fst (st_Put E now key val (AccessStore b priv pub)) = AccessStore b priv pub"
    if "ac_Verify E b pub (st_putKey E b key) \<noteq> None"
    using that by (cases "ac_Verify E b pub (st_putKey E b key)") simp_all
  show ?thesis using put denied read ac_gate_cases [of E b pub key] by blast
qed

theorem access_guarded_witness:
  "snd (st_Put E0 zero_time ''k'' [1] (AccessStore SG2 None (Some 5))) = None
   \<and> ac_Verify E0 SG2 (Some 5) (st_putKey E0 SG2 ''k'') = None"
proof -
  have key: "st_putKey E0 SG2 ''k'' = pid5 @ CHR ''/'' # ''k''"
    by (simp add: SG2_def sg_putKey_def SG0_def pid5_def del: b64_encode.simps)
  have "ac_Verify E0 SG2 (Some 5) (st_putKey E0 SG2 ''k'') = None"
    unfolding key by (rule SG2_verify) simp
  moreover have "snd (st_Put E0 zero_time ''k'' [1] SG2) = None"
    by (simp add: SG2_def sg_Put_def SG0_def B0_def rec5_def pid5_def ref_newKey_def has_prefix_def split_beta
        b64_digit_def b64_alphabet_def ref_ak_def bytes_of_string_def)
  ultimately have put: "snd (st_Put E0 zero_time ''k'' [1] (AccessStore SG2 None (Some 5))) = None"
    by (simp add: split_beta)
  with access_guarded [of E0 zero_time "''k''" "[1]" SG2 None "Some 5"] show ?thesis by blast
qed

text \<open>
  Every result a query of an access store delivers is a result of the base store's query whose key
  passes the check of the master key.
\<close>

theorem access_query_verified:
  assumes "query_lib_ok nk (lib_q E)" and "st_Query E (AccessStore b priv pub) qs = Inr rs"
    and "r \<in> set rs" and "r_error r = None"
  shows "ac_Verify E b pub (e_key r) = None \<and> (\<exists>rs0. st_Query E b [] = Inr rs0 \<and> r \<in> set rs0)"
  using ac_Query_guarded [OF assms] by metis

theorem access_query_verified_witness:
  "\<exists>rs r. st_Query E0 (AccessStore SG2 None (Some 5)) [] = Inr rs \<and> r \<in> set rs
     \<and> ac_Verify E0 SG2 (Some 5) (e_key r) = None"
proof -
  let ?r = "\<lparr>e_key = fst rec5, e_value = Some msd5, e_size = 0, r_error = None\<rparr>"
  have ver: "ac_Verify E0 SG2 (Some 5) (fst rec5) = None"
    by (rule SG2_verify) simp
  have q: "st_Query E0 SG2 [] = Inr [?r]"
    by (simp add: SG2_def sg_Query_def base_Query_def SG0_def B0_def ref_ds_def ref_answer_def ref_entry_def
        selects_def prefix_selects_def sig_value_def ref_protos_def ref_sig_def rec5_def dec_slice_def ok_result_def
        msd5_def
        entry.defs del: b64_encode.simps)
  have "st_Query E0 (AccessStore SG2 None (Some 5)) [] = Inr [?r]"
    using q ver by (simp add: ref_query_lib_def selects_def prefix_selects_def acVerifyFilter_def)
  with access_query_verified [OF E0_query this, of ?r] show ?thesis by auto
qed

end
