(* ===== verification/Opening_Properties.thy ===== *)
theory Opening_Properties
  imports Net_Reference
begin

text \<open>
  Opening stores by name and by address (\<open>NewStore\<close> of crdt/crdtverse.go, \<open>NewBootstrapStore\<close> of
  bstore/bootstrapstore.go): it always returns, with a store or an error, a loaded store has the
  address it was loaded by, and what happens to the store of a load that failed.
\<close>

section \<open>Addresses\<close>

text \<open>
  An address that was made parses to the name, salt and peer ID it was made from and to a time
  limit at the same instant, which is the very time, without its monotonic reading, if that was in UTC.
\<close>

theorem address_roundtrip:
  assumes "protos_ok (lib_pb E)" and "protos_total (lib_pb E)" and "ascii name" and "ascii pid"
    and "time_marshal lim = Inr mt"
  shows "\<exists>lim'. parseAddress E (MakeAddress E name pid salt [lim]) = Inr (name, canon_slice salt, pid, lim')
    \<and> instant_of lim' = instant_of lim \<and> (wf_time lim \<and> t_loc lim = UTC \<longrightarrow> lim' = strip_mono lim)"
proof -
  obtain lim' where p: "parseAddress E (MakeAddress E name pid salt [lim]) = Inr (name, canon_slice salt, pid, lim')"
    and "instant_of lim' = instant_of lim"
    by (rule parse_MakeAddress_instant [OF assms])
  with parse_MakeAddress_UTC [OF assms(1-4)] show ?thesis by (metis Pair_inject sum.inject(2))
qed

theorem address_roundtrip_witness:
  "\<exists>lim'. parseAddress E0 (MakeAddress E0 ''log'' ''p'' (Some [1, 2]) [zero_time]) =
     Inr (''log'', Some [1, 2], ''p'', lim') \<and> instant_of lim' = instant_of zero_time"
  using address_roundtrip [of E0 "''log''" "''p''" zero_time _ "Some [1, 2]"]
    ref_protos_ok ref_protos_total time_marshal_UTC [of zero_time]
  by (auto simp: ascii_def)

text \<open>
  C17: a store that is no access store, loaded by an address, has that address again.
\<close>

theorem reload_plain_address:
  assumes "protos_ok (lib_pb E)" and "protos_total (lib_pb E)" and "ascii nm"
    and "wf_time lim" and "t_loc lim = UTC" and "no_mono lim"
    and "salt = (if mode_of md = MHash then Some sb else None)" and "sb \<noteq> []"
    and "NewStore E save (MakeAddress E nm [] salt [lim]) md tries A rnd opts = Some (w, Some s, None)"
  shows "st_Address E s = MakeAddress E nm [] salt [lim]"
  by (rule reload_plain [OF assms])

theorem reload_plain_address_witness:
  "\<exists>w s. NewStore E0 True (MakeAddress E0 ''s'' [] None [zero_time]) ''log''
      (\<lambda>_. (A0, [Tick [] False, Tick [(''/s'', [1])] False])) A0 [] [] = Some (w, Some s, None)
    \<and> st_Address E0 s = MakeAddress E0 ''s'' [] None [zero_time]"
proof -
  let ?run = "NewStore E0 True (MakeAddress E0 ''s'' [] None [zero_time]) ''log''
      (\<lambda>_. (A0, [Tick [] False, Tick [(''/s'', [1])] False])) A0 [] []"
  have "\<exists>w s. ?run = Some (w, Some s, None)"
    by (simp add: NewStore_def E0_address_parse ascii_def loadStore_def selectNewStore_def NewLogStore_def
        getLogOpts_def empty_opts_def arrive_def with_data_def st_Sync_def base_Sync_def ref_ds_def
        base_loadCheck_def loadCheck_with_def base_Query_def one_key_query_def ref_answer_def ref_entry_def
        selects_def prefix_selects_def window_def ref_query_lib_def finishStore_def clean_world_def)
  then obtain w s where run: "?run = Some (w, Some s, None)" by auto
  have "st_Address E0 s = MakeAddress E0 ''s'' [] None [zero_time]"
    by (rule reload_plain_address [OF _ _ _ _ _ _ _ _ run, of "[1]"])
      (simp_all add: ref_protos_ok ref_protos_total ascii_def mode_of_def)
  with run show ?thesis by blast
qed

text \<open>
  C18: an access store, loaded by an address that names its master key, has that address again, so it
  checks against the same key.
\<close>

theorem reload_access_address:
  assumes "protos_ok (lib_pb E)" and "protos_total (lib_pb E)" and "libs_ok E" and "ascii nm" and "ascii pid"
    and "wf_time lim" and "t_loc lim = UTC" and "no_mono lim"
    and "pid = PubKeyToStr (lib_id E) (crypto E) pub" and "pid \<noteq> []"
    and "salt = (if mode_of md = MHash then Some sb else None)" and "sb \<noteq> []"
    and "NewStore E save (MakeAddress E nm pid salt [lim]) md tries A rnd opts = Some (w, Some s, None)"
  shows "st_Address E s = MakeAddress E nm pid salt [lim]
    \<and> (\<exists>b priv. s = AccessStore b priv pub)"
proof -
  have "parseAddress E (MakeAddress E nm pid salt [lim]) = Inr (nm, canon_slice salt, pid, strip_mono lim)"
    by (rule parse_MakeAddress_UTC [OF assms(1,2,4,5,6,7)])
  then obtain b priv where "s = AccessStore b priv pub"
    by (rule NewStore_access_store [OF assms(3) _ assms(9,10) _ assms(13)]) (use assms(11,12) in auto)
  with reload_access [OF assms] show ?thesis by blast
qed

theorem reload_access_address_witness:
  "\<exists>w s. NewStore E0 True (MakeAddress E0 ''s'' (CHR ''~'' # b64_encode [0, 5]) None [zero_time]) ''signature''
      (\<lambda>_. (A0, [Tick [(''/s'', [1])] False])) A0 [] [] = Some (w, Some s, None)
    \<and> st_Address E0 s = MakeAddress E0 ''s'' (CHR ''~'' # b64_encode [0, 5]) None [zero_time]"
proof -
  let ?pid = "CHR ''~'' # b64_encode [0, 5]"
  let ?run = "NewStore E0 True (MakeAddress E0 ''s'' ?pid None [zero_time]) ''signature''
      (\<lambda>_. (A0, [Tick [(''/s'', [1])] False])) A0 [] []"
  have "\<exists>w s. ?run = Some (w, Some s, None)"
    by (simp add: NewStore_def E0_address_parse pid5_ascii loadStore_def selectNewStore_def NewSignatureStore_def
        getSignatureOpts_def gen_pair_def empty_opts_def arrive_def with_data_def st_Sync_def base_Sync_def ref_ds_def
        sg_loadCheck_def loadCheck_with_def base_Query_def one_key_query_def ref_answer_def ref_entry_def
        selects_def prefix_selects_def window_def ref_query_lib_def finishStore_def clean_world_def
        loadAccessStore_def getAccessOpts_def pid5_decodes split_beta del: b64_encode.simps)
  then obtain w s where run: "?run = Some (w, Some s, None)" by auto
  have "st_Address E0 s = MakeAddress E0 ''s'' ?pid None [zero_time] \<and> (\<exists>b priv. s = AccessStore b priv (Some 5))"
    by (rule reload_access_address [OF _ _ E0_libs_ok _ pid5_ascii _ _ _ _ _ _ _ run, where sb = "[1]"])
      (simp_all add: ref_protos_ok ref_protos_total ascii_def mode_of_def del: b64_encode.simps)
  with run show ?thesis by blast
qed

section \<open>Opening returns\<close>

text \<open>
  C19: if the thirty seconds of every load check come to an end, \<open>NewStore\<close> returns, whatever the
  name, the network and the library calls do; it returns a store or an error and never both, and it
  has given up at most four stores.
\<close>

theorem new_store_returns:
  assumes "\<And>i. Expired \<in> set (snd (tries i))"
  shows "\<exists>w so eo. NewStore E save name md tries A rnd opts = Some (w, so, eo)
    \<and> (so = None \<longleftrightarrow> eo \<noteq> None) \<and> length (w_lost w) \<le> 4"
proof -
  obtain w so eo where run: "NewStore E save name md tries A rnd opts = Some (w, so, eo)"
    by (rule NewStore_returns [OF assms])
  show ?thesis
    by (intro exI conjI, rule run, rule NewStore_one [OF run], rule NewStore_lost [OF run])
qed

theorem new_store_returns_witness:
  "\<exists>w so eo. NewStore E0 True (MakeAddress E0 ''s'' [] None [zero_time]) ''log'' (\<lambda>_. (A0, [Tick [] False, Expired]))
      A0 [] [] = Some (w, so, eo) \<and> (so = None \<longleftrightarrow> eo \<noteq> None) \<and> length (w_lost w) \<le> 4"
  by (rule new_store_returns) simp

text \<open>
  C20: openings succeed when no library call fails. A peer that opens a store by a name that is no
  address, on empty data and with options that can sign, gets the store; and a peer that loads it by
  the address of that store, and whose first tick brings a record, gets a store of the same mode, name
  and limit that holds what has arrived. Neither has given up a store on the way.
\<close>

theorem openings_succeed:
  assumes "env_ok E els" and "ds_live (lib_ds E) els" and "signs E" and "protos_ok (lib_pb E)" and "protos_total (lib_pb E)"
    and "query_lib_ok nk (lib_q E)" and "parseAddress E name = Inl err" and "ascii name"
    and "opt = (case opts of [] \<Rightarrow> empty_opts | o0 # _ \<Rightarrow> o0)" and "signed_mode (mode_of md) \<Longrightarrow> opts_sign E (at_rnd A) opt"
    and "wf_time (so_TimeLimit opt)" and "t_loc (so_TimeLimit opt) = UTC" and "no_mono (so_TimeLimit opt)"
    and "calls_ok (at_run A)" and "\<And>d. run_crdtNew (at_run A) = Inr d \<Longrightarrow> els d = Map.empty"
    and "tries' 0 = (A', Tick d over # evs)" and "calls_ok (at_run A')" and "snd (ds_sync (lib_ds E) d) = None"
    and "els d k = Some v" and "categorised (mode_of md) (els d)"
  shows "\<exists>s t. NewStore E save name md tries A rnd opts = Some (clean_world, Some s, None)
    \<and> NewStore E save' (st_Address E s) md tries' A'' rnd' opts' = Some (clean_world, Some t, None)
    \<and> store_mode s = mode_of md \<and> store_mode t = mode_of md \<and> bs_name (st_base s) = name \<and> bs_name (st_base t) = name
    \<and> bs_timeLimit (st_base s) = so_TimeLimit opt \<and> bs_timeLimit (st_base t) = so_TimeLimit opt \<and> st_table els t = els d"
proof -
  obtain s where s: "NewStore E save name md tries A rnd opts = Some (clean_world, Some s, None)" "store_mode s = mode_of md"
    "bs_name (st_base s) = name" "bs_timeLimit (st_base s) = so_TimeLimit opt" and plain: "\<nexists>b p q. s = AccessStore b p q"
    by (rule new_store_opens [OF assms(1-3,5,7,8,14,15,9,10)])
  have "parseAddress E (st_Address E s) = Inr (name, canon_slice (salt_of s), [], so_TimeLimit opt)"
    using parse_MakeAddress_UTC [OF assms(4,5,8) _ assms(11,12), of "[]" "salt_of s"] s(3,4)
    by (simp add: plain_address [OF plain] ascii_def strip_mono_id [OF assms(13)])
  then obtain t where
    "NewStore E save' (st_Address E s) md tries' A'' rnd' opts' = Some (clean_world, Some t, None)" "store_mode t = mode_of md"
    "bs_name (st_base t) = name" "bs_timeLimit (st_base t) = so_TimeLimit opt" "st_table els t = els d"
    by (rule loaded_store_opens [where els = els and d = d and tries = tries', OF assms(1,2,6) _ assms(16-20)])
  with s show ?thesis by blast
qed

theorem openings_succeed_witness:
  "\<exists>s t. NewStore E0 True ''lg'' ''log'' (\<lambda>_. (A0, [])) A0 [] [] = Some (clean_world, Some s, None)
    \<and> NewStore E0 True (st_Address E0 s) ''log'' (\<lambda>_. (A0, [Tick [(''/k'', [1])] False])) A0 [] [] = Some (clean_world, Some t, None)
    \<and> st_table map_of t = [''/k'' \<mapsto> [1]]"
proof -
  have run: "calls_ok (at_run A0)" by (simp add: calls_ok_def RUN0_def is_ok_iff)
  have sync: "snd (ds_sync (lib_ds E0) [(''/k'', [1])]) = None" by (simp add: ref_ds_def)
  obtain err where name: "parseAddress E0 ''lg'' = Inl err" by (simp add: parseAddress_def short_name is_newline_def b64_corrupt_def)
  have "\<exists>s t. NewStore E0 True ''lg'' ''log'' (\<lambda>_. (A0, [])) A0 [] [] = Some (clean_world, Some s, None)
    \<and> NewStore E0 True (st_Address E0 s) ''log'' (\<lambda>_. (A0, [Tick [(''/k'', [1])] False])) A0 [] [] = Some (clean_world, Some t, None)
    \<and> store_mode s = mode_of ''log'' \<and> store_mode t = mode_of ''log'' \<and> bs_name (st_base s) = ''lg'' \<and> bs_name (st_base t) = ''lg''
    \<and> bs_timeLimit (st_base s) = so_TimeLimit (empty_opts :: (byte, byte) store_opts)
    \<and> bs_timeLimit (st_base t) = so_TimeLimit (empty_opts :: (byte, byte) store_opts) \<and> st_table map_of t = map_of [(''/k'', [1])]"
    by (rule openings_succeed [OF E0_env_ok E0_live _ _ _ E0_query name _ _ _ _ _ _ run _ refl run sync, where opts = "[]" and k = "''/k''"])
      (simp_all add: signs_def ref_keys_def ref_protos_ok ref_protos_total ascii_def mode_of_def signed_mode_def empty_opts_def
        RUN0_def categorised_def)
  then show ?thesis by auto
qed

section \<open>Loads that fail\<close>

text \<open>
  C21: when every attempt to load has timed out, \<open>loadStore\<close> returns the fresh store it has made
  meanwhile together with the error \<open>load failed\<close>; for an address without a master key \<open>NewStore\<close>
  then returns the error alone, and nobody closes the store: none of its resources has been released.
\<close>

theorem failed_load_leaks:
  assumes "parseAddress E name = Inr (stName, salt, [], lim)"
    and "loadStore E save stName md tries A
      ((case opts of [] \<Rightarrow> empty_opts | o0 # _ \<Rightarrow> o0)\<lparr>so_Salt := salt, so_TimeLimit := lim\<rparr>) =
        Some (w, (Some s, Some err), opt')"
  shows "NewStore E save name md tries A rnd opts = Some (lose s w, (None, Some err_load_failed))
    \<and> bs_closed (st_base s) = []"
  using load_failed_dropped [OF assms] load_failed_open [OF assms(2)] by simp

lemma failed_load:
  "\<exists>w s opt'. loadStore E0 True ''s'' ''log'' (\<lambda>_. (A0, [Tick [] False, Expired])) A0
     (empty_opts\<lparr>so_Salt := None, so_TimeLimit := zero_time\<rparr>) = Some (w, (Some s, Some err_load_failed), opt')"
  by (simp add: loadStore_def selectNewStore_def NewLogStore_def
      getLogOpts_def empty_opts_def arrive_def with_data_def st_Sync_def base_Sync_def ref_ds_def
      base_loadCheck_def loadCheck_with_def base_Query_def one_key_query_def ref_answer_def
      window_def ref_query_lib_def base_initPut_def)

theorem failed_load_leaks_witness:
  "\<exists>w s. NewStore E0 True (MakeAddress E0 ''s'' [] None [zero_time]) ''log'' (\<lambda>_. (A0, [Tick [] False, Expired])) A0 [] [] =
      Some (lose s w, (None, Some err_load_failed)) \<and> bs_closed (st_base s) = []"
proof -
  obtain w s opt' where load: "loadStore E0 True ''s'' ''log'' (\<lambda>_. (A0, [Tick [] False, Expired])) A0
     (empty_opts\<lparr>so_Salt := None, so_TimeLimit := zero_time\<rparr>) = Some (w, (Some s, Some err_load_failed), opt')"
    using failed_load by blast
  have p: "parseAddress E0 (MakeAddress E0 ''s'' [] None [zero_time]) = Inr (''s'', None, [], zero_time)"
    by (rule E0_address_parse) (simp add: ascii_def)
  from failed_load_leaks [OF p, of True "''log''" _ A0 "[]"] load show ?thesis by fastforce
qed

text \<open>
  C22: for an address with a master key the error of a failed load is overwritten: \<open>NewStore\<close> returns
  the fresh store as if it had been loaded.
\<close>

theorem failed_load_hidden:
  assumes "parseAddress E name = Inr (stName, salt, pid, lim)" and "pid \<noteq> []"
    and "loadStore E save stName md tries A
      ((case opts of [] \<Rightarrow> empty_opts | o0 # _ \<Rightarrow> o0)\<lparr>so_Salt := salt, so_TimeLimit := lim\<rparr>) =
        Some (w, (Some s, Some err), opt')"
    and "is_access_base s" and "StrToPubKey (lib_id E) (crypto E) pid = Inr vk"
  shows "\<exists>priv. NewStore E save name md tries A rnd opts =
    Some (w, (Some (st_autoSync E (AccessStore s priv (Some vk))), None))"
proof -
  obtain priv opts' where "loadAccessStore E rnd s pid [opt'] = (Inr (AccessStore s priv (Some vk)), opts')"
    using assms(4,5) by (simp add: loadAccessStore_def split_beta)
  from load_failed_masked [OF assms(1,2,3) this] show ?thesis by blast
qed

lemma failed_signature_load:
  "\<exists>w s opt'. loadStore E0 True ''s'' ''signature'' (\<lambda>_. (A0, [Expired])) A0
     (empty_opts\<lparr>so_Salt := None, so_TimeLimit := zero_time\<rparr>) = Some (w, (Some s, Some err_load_failed), opt')
     \<and> is_access_base s"
  by (simp add: loadStore_def selectNewStore_def NewSignatureStore_def gen_pair_def ref_crypto_def
      getSignatureOpts_def empty_opts_def sg_initPut_def)

theorem failed_load_hidden_witness:
  "\<exists>w s. NewStore E0 True (MakeAddress E0 ''s'' (CHR ''~'' # b64_encode [0, 5]) None [zero_time]) ''signature''
      (\<lambda>_. (A0, [Expired])) A0 [] [] = Some (w, (Some s, None))"
proof -
  obtain w s opt' where load: "loadStore E0 True ''s'' ''signature'' (\<lambda>_. (A0, [Expired])) A0
     (empty_opts\<lparr>so_Salt := None, so_TimeLimit := zero_time\<rparr>) = Some (w, (Some s, Some err_load_failed), opt')"
    and base: "is_access_base s"
    using failed_signature_load by blast
  from failed_load_hidden [OF E0_address_parse [OF pid5_ascii] _ _ base, of True "''signature''" _ A0 "[]"] load pid5_decodes
  show ?thesis by fastforce
qed

text \<open>
  On a network where none of its records arrives in time, the bootstrap store cannot be opened:
  \<open>NewBootstrapStore\<close> makes a store at the fixed address, puts the first record into it, and then
  returns the error of the failed load and leaves the store open.
\<close>

theorem bootstrap_store_unopened:
  assumes "protos_ok (lib_pb E)" and "protos_total (lib_pb E)"
    and "loadStore E False (bStoreName E) ''updatableSignature'' tries A
      (empty_opts\<lparr>so_Salt := None, so_TimeLimit := zero_time\<rparr>) = Some (w, (Some s, Some err), opt')"
  shows "NewBootstrapStore E tries A rnd = Some (lose s w, Inl err_load_failed) \<and> bs_closed (st_base s) = []"
  using NewBootstrapStore_load_failed [OF assms] by blast

theorem bootstrap_store_unopened_witness:
  "\<exists>w s. NewBootstrapStore E0 (\<lambda>_. (A0, [Expired])) A0 [] = Some (lose s w, Inl err_load_failed)"
proof -
  have "\<exists>w s opt'. loadStore E0 False (bStoreName E0) ''updatableSignature'' (\<lambda>_. (A0, [Expired])) A0
     (empty_opts\<lparr>so_Salt := None, so_TimeLimit := zero_time\<rparr>) = Some (w, (Some s, Some err_load_failed), opt')"
    by (simp add: loadStore_def selectNewStore_def NewUpdatableSignatureStore_def gen_pair_def ref_crypto_def
        getUpdatableSignatureOpts_def empty_opts_def us_initPut_def upd_Put_eq del: b64_encode.simps)
  then show ?thesis
    using bootstrap_store_unopened [of E0 "\<lambda>_. (A0, [Expired])" A0] ref_protos_ok ref_protos_total by fastforce
qed

end
