(* ===== verification/Record_Properties.thy ===== *)
theory Record_Properties
  imports Reference
begin

text \<open>
  What a \<open>Put\<close> stores and what \<open>Get\<close> and \<open>Query\<close> return: the versions of the updatable stores
  (crdt/updatable.go, crdt/updatable_signature.go), signed records (crdt/signature.go) and hashed
  records (crdt/hash.go), and that every other peer's validator accepts what a \<open>Put\<close> wrote.
\<close>

section \<open>Versions\<close>

text \<open>
  C27: the value \<open>Get\<close> returns for a key is that of a record below the key, and no record below the
  key has a later timestamp; and when there is a record below the key whose newest version is not
  empty, \<open>Get\<close> returns a value.
\<close>

theorem updatable_get_newest:
  assumes "env_ok E els" and "ds_live (lib_ds E) els" and "clean_path key"
  shows "(\<forall>v. upd_Get E s key = Inr v \<longrightarrow>
      (\<exists>k. base_table els s k = Some v \<and> newest (local_zone E) (base_table els s) (below key) k))
    \<and> ((\<exists>k \<in> dom (base_table els s). below key k) \<longrightarrow>
      (\<exists>k v. newest (local_zone E) (base_table els s) (below key) k \<and> base_table els s k = Some v
        \<and> (v \<noteq> [] \<longrightarrow> upd_Get E s key = Inr v)))"
  using upd_Get_newest [OF assms(1,3)] upd_Get_live [OF assms] by metis

definition T :: "64 word \<Rightarrow> gotime" where "T n = \<lparr>t_wall = 0, t_ext = n, t_loc = UTC\<rparr>"

lemma T_simps [simp]: "wf_time (T n)" "no_mono (T n)" "instant_of (T n) = Instant (sint n) 0"
  by (simp_all add: T_def wf_time_def no_mono_def instant_of_def t_sec_def t_nsec_def)

text \<open>An updatable store with two versions of \<open>a\<close>.\<close>

definition U1 :: "assoc base_store" where "U1 = fst (upd_Put E0 (T 3) ''a'' [1] B0)"

definition U2 :: "assoc base_store" where "U2 = fst (upd_Put E0 (T 5) ''a'' [2] U1)"

lemma a_clean: "clean_path ''a''" by (simp add: clean_path_def)

lemma U1_eq: "U1 = B0\<lparr>bs_dt := [(CHR ''/'' # ''a'' @ CHR ''/'' # time_key (T 3), [1])]\<rparr>"
  by (simp add: U1_def upd_Put_eq B0_def ref_newKey_def has_prefix_def)

lemma U_puts: "upd_Put E0 (T 3) ''a'' [1] B0 = (U1, None)" "upd_Put E0 (T 5) ''a'' [2] U1 = (U2, None)"
proof -
  show "upd_Put E0 (T 3) ''a'' [1] B0 = (U1, None)"
    by (simp add: U1_def upd_Put_eq B0_def)
  have "time_key (T 5) \<noteq> time_key (T 3)"
  proof
    assume "time_key (T 5) = time_key (T 3)"
    then have "key_time (''UTC'', \<lambda>_. 0) (CHR ''/'' # ''a'' @ CHR ''/'' # time_key (T 5)) = Inr (to_utc (T 3))"
      using key_time_stamped [of "T 3" _ "''a''"] by simp
    with key_time_stamped [of "T 5" "(''UTC'', \<lambda>_. 0)" "''a''"] have "to_utc (T 5) = to_utc (T 3)" by simp
    then have "instant_of (T 5) = instant_of (T 3)" by (metis instant_of_to_utc)
    then show False by simp
  qed
  then show "upd_Put E0 (T 5) ''a'' [2] U1 = (U2, None)"
    by (simp add: U2_def upd_Put_eq U1_eq B0_def ref_newKey_def has_prefix_def)
qed

lemma U1_older:
  assumes "k \<in> dom (base_table map_of U1)" "key_time (local_zone E0) k = Inr t"
  shows "instant_of t < instant_of (T 5)"
proof -
  from assms(1) have "k = CHR ''/'' # ''a'' @ CHR ''/'' # time_key (T 3)"
    by (auto simp: U1_eq base_table_def dom_def split: if_splits)
  with assms(2) key_time_stamped [of "T 3" "local_zone E0" "''a''"] have "t = to_utc (T 3)" by simp
  then show ?thesis by (simp add: less_instant_def)
qed

lemma U2_get: "upd_Get E0 U2 ''a'' = Inr [2]"
  by (rule upd_Put_Get [OF E0_env_ok E0_live a_clean _ U_puts(2)]) (simp_all add: U1_older del: T_simps(3))

theorem updatable_get_newest_witness:
  "\<exists>k. base_table map_of U2 k = Some [2] \<and> newest (local_zone E0) (base_table map_of U2) (below ''a'') k"
  using updatable_get_newest [OF E0_env_ok E0_live a_clean, of U2] U2_get by blast

text \<open>
  A value that was put is what \<open>Get\<close> returns, provided every other version below the key has an
  earlier timestamp; a second put at the same reading of the clock is refused.
\<close>

theorem updatable_put_get:
  assumes "env_ok E els" and "ds_live (lib_ds E) els" and "clean_path key" and "wf_time now"
    and "upd_Put E now key val s = (s', None)" and "val \<noteq> []"
    and "\<And>k t. k \<in> dom (base_table els s) \<Longrightarrow> below key k \<Longrightarrow>
      key_time (local_zone E) k = Inr t \<Longrightarrow> instant_of t < instant_of now"
  shows "upd_Get E s' key = Inr val \<and> upd_Put E now key val' s' = (s', Some ErrAlreadyExist)"
proof
  show "upd_Get E s' key = Inr val"
    by (rule upd_Put_Get [OF assms(1-6)]) (rule assms(7))
  show "upd_Put E now key val' s' = (s', Some ErrAlreadyExist)"
    by (rule upd_Put_same_time [OF assms(1,5)])
qed

theorem updatable_put_get_witness:
  "upd_Get E0 U2 ''a'' = Inr [2] \<and> upd_Put E0 (T 5) ''a'' [9] U2 = (U2, Some ErrAlreadyExist)"
  by (rule updatable_put_get [OF E0_env_ok E0_live a_clean _ U_puts(2)]) (simp_all add: U1_older del: T_simps(3))

text \<open>
  C28: for a query that brings neither an offset nor orders of its own, and whose filters look at keys only,
  with or without a prefix, a limit and keys only, \<open>Query\<close> delivers at most one result per category: a
  record under the prefix that passes the filters and is the newest of those in its category, with its
  value unless only keys were asked for. Without a limit it misses no category but the empty one; with one it delivers no more
  results than the limit, which counts versions, so categories may be missed.
\<close>

theorem updatable_query_latest:
  assumes "env_ok E els" and "window_query q" and "upd_Query E s [q] = Inr out"
  shows "distinct (map (\<lambda>r. category_of (e_key r)) out)
    \<and> (\<forall>r \<in> set out. (\<exists>v. base_table els s (e_key r) = Some v \<and> (q_keysOnly q \<or> contents (e_value r) = v))
        \<and> newest (local_zone E) (base_table els s)
            (\<lambda>k. query_passes (newKey (lib_ds E)) q k \<and> has_category k \<and> category_of k = category_of (e_key r)) (e_key r))
    \<and> (q_limit q = 0 \<longrightarrow> (\<forall>k \<in> dom (base_table els s).
        query_passes (newKey (lib_ds E)) q k \<and> has_category k \<and> category_of k \<noteq> [] \<longrightarrow>
        (\<exists>r \<in> set out. category_of (e_key r) = category_of k)))
    \<and> (q_limit q \<noteq> 0 \<longrightarrow> int (length out) \<le> q_limit q)"
  using upd_Query_window [OF assms] by blast

lemma U2_record: "CHR ''/'' # ''a'' @ CHR ''/'' # time_key (T 5) \<in> dom (base_table map_of U2)"
  using base_Put_ok(2) [OF E0_env_ok U_puts(2) [unfolded upd_Put_eq]] stamped_key [OF ref_key_ok a_clean, of "T 5"]
  by (simp add: ref_ds_def)

lemma stamped_a: "has_category (CHR ''/'' # ''a'' @ CHR ''/'' # time_key t)"
  using stamped_key_parts [of "''a''" t] by (simp add: has_category_def)

theorem updatable_query_latest_witness:
  "\<exists>out. upd_Query E0 U2 [empty_query] = Inr out \<and> (\<exists>r \<in> set out. category_of (e_key r) = ''a'')"
proof -
  obtain out where run: "upd_Query E0 U2 [empty_query] = Inr out"
    by (simp add: upd_Query_def upd_baseQuery_def base_Query_def ref_ds_def)
  note w = key_query_window [OF key_query_empty(1)]
  have "\<forall>k \<in> dom (base_table map_of U2). key_passes empty_query k \<and> has_category k \<and> category_of k \<noteq> [] \<longrightarrow>
      (\<exists>r \<in> set out. category_of (e_key r) = category_of k)"
    using updatable_query_latest [OF E0_env_ok w(1) run, unfolded w(2)] w(3) by blast
  from bspec [OF this U2_record] stamped_a [of "T 5"] category_of_stamped [of "''a''" "T 5"]
  have "\<exists>r \<in> set out. category_of (e_key r) = ''a''" by simp
  with run show ?thesis by blast
qed

text \<open>
  \<open>QueryAll\<close> delivers every record that has a category exactly once, the categories in order and
  within each the newest first.
\<close>

theorem updatable_query_all:
  assumes "env_ok E els" and "upd_QueryAll E s [] = Inr out"
  shows "e_key ` set out = {k \<in> dom (base_table els s). has_category k} \<and> distinct (map e_key out)
    \<and> sorted_wrt (\<lambda>a b. \<not> entry_less [categoryOrder, updatableOrder (local_zone E)] (entry_of b) (entry_of a)) out"
  using upd_QueryAll_all [OF assms] by blast

theorem updatable_query_all_witness:
  "\<exists>out. upd_QueryAll E0 U2 [] = Inr out \<and> CHR ''/'' # ''a'' @ CHR ''/'' # time_key (T 5) \<in> e_key ` set out"
proof -
  obtain out where run: "upd_QueryAll E0 U2 [] = Inr out"
    by (simp add: upd_QueryAll_def upd_baseQuery_def base_Query_def ref_ds_def)
  from updatable_query_all [OF E0_env_ok this] U2_record stamped_a [of "T 5"]
  have "CHR ''/'' # ''a'' @ CHR ''/'' # time_key (T 5) \<in> e_key ` set out" by blast
  with run show ?thesis by blast
qed

section \<open>Signed records\<close>

text \<open>
  A value that was put into a signature store is what any reader gets under the writer's key
  string, and the record written passes the validator of every other peer that is in time.
\<close>

theorem signature_put:
  assumes "env_ok E els" and "ds_live (lib_ds E) els" and "libs_ok E" and "signed_ok E (sg_priv s) (sg_pub s)"
    and "clean_path key" and "sg_Put E key val s = (s', None)" and "val \<noteq> []"
  shows "sg_Get E s' (sg_putKey E s key) = Inr (Some val)
    \<and> (\<exists>k msd. sg_table els s' = (sg_table els s)(k \<mapsto> msd)
         \<and> (\<forall>peer. bs_inTime peer \<longrightarrow> newSignatureValidator E peer k msd))"
proof
  show "sg_Get E s' (sg_putKey E s key) = Inr (Some val)"
    by (rule sg_Put_Get [OF assms(1,2,3,6,7)])
  obtain k msd where "sg_table els s' = (sg_table els s)(k \<mapsto> msd)"
    and "newSignatureValidator E (undefined\<lparr>bs_inTime := True\<rparr>) k msd"
    by (rule sg_Put_validates [OF assms(1,3,4,5,6), where peer = "undefined\<lparr>bs_inTime := True\<rparr>"]) simp
  then show "\<exists>k msd. sg_table els s' = (sg_table els s)(k \<mapsto> msd)
      \<and> (\<forall>peer. bs_inTime peer \<longrightarrow> newSignatureValidator E peer k msd)"
    by (auto simp: newSignatureValidator_def signature_Validate_iff base_Validate_def base_isInTime_def)
qed

lemma SG_put: "sg_Put E0 ''a'' [1] (SG0 5) = (fst (sg_Put E0 ''a'' [1] (SG0 5)), None)"
  by (simp add: sg_Put_def SG0_def B0_def split_beta del: b64_encode.simps)

theorem signature_put_witness:
  "sg_Get E0 (fst (sg_Put E0 ''a'' [1] (SG0 5))) (sg_putKey E0 (SG0 5) ''a'') = Inr (Some [1])"
proof -
  have "signed_ok E0 (sg_priv (SG0 5)) (sg_pub (SG0 5))" using E0_pair [of 5] by (simp add: SG0_def)
  from signature_put [OF E0_env_ok E0_live E0_libs_ok this a_clean SG_put] show ?thesis by simp
qed

text \<open>
  A value that was put into an updatable signature store is what any reader gets under the
  writer's key string, if no other version there is as new, and the record written passes the validator
  of every other peer that is in time and whose clock is later.
\<close>

theorem updatable_signature_put:
  assumes "env_ok E els" and "ds_live (lib_ds E) els" and "libs_ok E" and "signed_ok E (sg_priv s) (sg_pub s)"
    and "clean_path key" and "us_Put E now key val s = (s', None)" and "val \<noteq> []" and "wf_time now"
    and "\<And>k t. k \<in> dom (sg_table els s) \<Longrightarrow> below (us_putKey E s key) k \<Longrightarrow>
      key_time (local_zone E) k = Inr t \<Longrightarrow> instant_of t < instant_of now"
    and "instant_of now < instant_of now'"
  shows "us_Get E s' (us_putKey E s key) = Inr (Some val)
    \<and> (\<exists>k msd. sg_table els s' = (sg_table els s)(k \<mapsto> msd)
         \<and> (\<forall>peer. bs_inTime peer \<longrightarrow> newUpdatableSignatureValidator E now' peer k msd))"
proof
  show "us_Get E s' (us_putKey E s key) = Inr (Some val)"
    by (rule us_Put_Get [OF assms(1,2,3,5,8,6,7)]) (rule assms(9))
  obtain k msd where "sg_table els s' = (sg_table els s)(k \<mapsto> msd)"
    and "newUpdatableSignatureValidator E now' (undefined\<lparr>bs_inTime := True\<rparr>) k msd"
    by (rule us_Put_validates [OF assms(1,3,4,5,6,8,10), where peer = "undefined\<lparr>bs_inTime := True\<rparr>"]) simp
  then show "\<exists>k msd. sg_table els s' = (sg_table els s)(k \<mapsto> msd)
      \<and> (\<forall>peer. bs_inTime peer \<longrightarrow> newUpdatableSignatureValidator E now' peer k msd)"
    by (auto simp: newUpdatableSignatureValidator_iff)
qed

lemma US_put: "us_Put E0 (T 3) ''a'' [1] (SG0 5) = (fst (us_Put E0 (T 3) ''a'' [1] (SG0 5)), None)"
  by (simp add: us_Put_def SG0_def B0_def upd_Put_eq split_beta del: b64_encode.simps)

theorem updatable_signature_put_witness:
  "us_Get E0 (fst (us_Put E0 (T 3) ''a'' [1] (SG0 5))) (us_putKey E0 (SG0 5) ''a'') = Inr (Some [1])"
proof -
  have "signed_ok E0 (sg_priv (SG0 5)) (sg_pub (SG0 5))" using E0_pair [of 5] by (simp add: SG0_def)
  from updatable_signature_put [OF E0_env_ok E0_live E0_libs_ok this a_clean US_put, of "T 5"]
  show ?thesis by (simp add: sg_table_def base_table_def SG0_def B0_def less_instant_def)
qed

section \<open>Hashed records\<close>

text \<open>
  A value that was put into a hash store under a base string is what any reader who knows the base
  string gets, the record written is consistent, so it passes the validator of every other peer in
  time, and nobody can write under that base string and salt again.
\<close>

theorem hash_put:
  assumes "env_ok E els" and "ds_live (lib_ds E) els" and "protos_ok (lib_pb E)" and "kdf_ok E"
    and "hs_Put E b val s = (s', None)" and "val \<noteq> []" and "hs_table els s' (newKey (lib_ds E) b) = None"
  shows "hs_Get E s' b = Inr (Some val)
    \<and> (\<exists>k m. hs_table els s' = (hs_table els s)(k \<mapsto> m) \<and> (\<forall>peer. bs_inTime peer \<longrightarrow> newHashValidator E peer k m))
    \<and> snd (hs_Put E b val' s') \<noteq> None"
proof (intro conjI)
  show "hs_Get E s' b = Inr (Some val)"
    by (rule hs_Put_Get [OF assms])
  obtain m where "hs_table els s' = (hs_table els s)(CHR ''/'' # MakeHashKey E b (hs_salt s) \<mapsto> m)"
    and "hash_consistent E (CHR ''/'' # MakeHashKey E b (hs_salt s)) m"
    by (rule hs_Put_consistent [OF assms(1,3,4,5)])
  moreover from this have "newHashValidator E peer (CHR ''/'' # MakeHashKey E b (hs_salt s)) m" if "bs_inTime peer" for peer
    using that by (simp add: newHashValidator_def hash_Validate_iff base_Validate_def base_isInTime_def)
  ultimately show "\<exists>k m. hs_table els s' = (hs_table els s)(k \<mapsto> m)
      \<and> (\<forall>peer. bs_inTime peer \<longrightarrow> newHashValidator E peer k m)"
    by blast
  show "snd (hs_Put E b val' s') \<noteq> None"
  proof (cases "c_marshal (pb_hash (lib_pb E)) \<lparr>hd_baseHash = b, hd_salt = hs_salt s, hd_value = Some val'\<rparr>")
    case (Inr m)
    from hs_Put_twice [OF assms(1,5) this] show ?thesis by simp
  next
    case (Inl e)
    moreover have "hs_salt s' = hs_salt s" by (rule hs_Put_ok [OF assms(1,5)])
    ultimately show ?thesis by (simp add: hs_Put_def)
  qed
qed

theorem hash_put_witness:
  "hs_Get E0 (fst (hs_Put E0 ''a'' [1] HS0)) ''a'' = Inr (Some [1])
   \<and> snd (hs_Put E0 ''a'' [2] (fst (hs_Put E0 ''a'' [1] HS0))) \<noteq> None"
proof -
  have put: "hs_Put E0 ''a'' [1] HS0 = (fst (hs_Put E0 ''a'' [1] HS0), None)"
    by (simp add: hs_Put_def HS0_def B0_def ref_protos_def ref_hash_def split_beta)
  have not_single: "b64_encode bs \<noteq> [c]" for bs c
    by (cases bs rule: b64_encode.cases) (simp_all add: Let_def)
  have "hs_table map_of (fst (hs_Put E0 ''a'' [1] HS0)) (newKey (lib_ds E0) ''a'') = None"
  proof -
    have "MakeHashKey E0 ''a'' (Some [7]) \<noteq> ''a''" by (simp add: MakeHashKey_def not_single)
    then show ?thesis
      using newKey_hash [OF ref_key_ok E0_kdf_ok, of "''a''" "Some [7]"]
      by (simp add: hs_Put_def HS0_def B0_def ref_protos_def ref_hash_def split_beta hs_table_def base_table_def
          ref_ds_def ref_newKey_def has_prefix_def)
  qed
  from hash_put [OF E0_env_ok E0_live _ E0_kdf_ok put _ this] ref_protos_ok show ?thesis by simp
qed

end
