(* ===== verification/Network_Properties.thy ===== *)
theory Network_Properties
  imports Net_Reference
begin

text \<open>
  The orders of queries (crdt/updatable.go), setting a store up (crdt/setup.go),
  peer addresses and connections (util.go, bootstrap.go, discovery.go), the bootstrap store
  (bstore/bootstrapstore.go), files (ipfs) and rooms (pubsub).
\<close>

section \<open>Orders of queries\<close>

text \<open>
  C31: sorting by the comparisons of the stores is well defined: the orders derived from them (an entry
  comes before another when its comparison is the first that is not 0, and negative) are strict weak orders
  on all entries. As three-way comparisons they keep what their comment says, -1, 0 or 1 with the two
  directions opposite, only for entries they can rank: of two entries whose keys hold no category each
  compares as greater than the other, and such an entry as greater than itself; the same for two entries
  whose last components both do not decode, or both decode to no timestamp.
\<close>

theorem orders_weak:
  "weak_order (entry_less [updatableOrder local]) \<and> weak_order (entry_less [categoryOrder, updatableOrder local])
    \<and> categoryOrder a b + categoryOrder b a = (if has_category (e_key a) \<or> has_category (e_key b) then 0 else 2)
    \<and> categoryOrder a a = (if has_category (e_key a) then 0 else 1)
    \<and> updatableOrder local a b + updatableOrder local b a =
        (if time_level local (e_key a) = time_level local (e_key b) \<and> 0 < time_level local (e_key a) then 2 else 0)
    \<and> updatableOrder local a a = (if is_ok (key_time local (e_key a)) then 0 else 1)"
  using time_less_weak category_time_less_weak category_order.cmp_sum [of a b] category_order.cmp_self [of a]
    updatable_order.cmp_sum [of local a b] updatable_order.cmp_self [of local a] time_level_0 [of local "e_key a"]
  by auto

section \<open>Setting up\<close>

text \<open>
  C32: what a successful set-up opens is what \<open>Cancel\<close> closes; a set-up that fails after badger was
  opened returns an error and leaves badger, the DHT and the host open.
\<close>

theorem setup_resources:
  assumes "run_hGenerator R = None" and "run_mkdirAll R = None" and "run_newDHT R = None" and "run_newBadger R = None"
  shows "case initCRDT save name R of
      (opened, Inr s) \<Rightarrow> set (bs_closed (base_Cancel E s)) = set opened
    | (opened, Inl err) \<Rightarrow> {RHost, RDHT, RBadger} \<subseteq> set opened"
proof (cases "initCRDT save name R")
  case (Pair opened r)
  show ?thesis
  proof (cases r)
    case (Inl err)
    with assms Pair show ?thesis
      by (auto simp: initCRDT_def setupStore_def split: option.splits sum.splits)
  next
    case (Inr s)
    with Cancel_releases [of save name R opened s E] Pair show ?thesis by simp
  qed
qed

theorem setup_resources_witness:
  "\<exists>opened err. initCRDT True ''s'' (RUN0\<lparr>run_bootstrap := Some err_no_bootstraps\<rparr>) = (opened, Inl err)
    \<and> {RHost, RDHT, RBadger} \<subseteq> set opened"
proof -
  let ?R = "RUN0\<lparr>run_bootstrap := Some err_no_bootstraps\<rparr>"
  have "\<exists>opened err. initCRDT True ''s'' ?R = (opened, Inl err)"
    by (simp add: initCRDT_def setupStore_def RUN0_def)
  with setup_resources [of ?R, where save = True and name = "''s''" and E = E0] show ?thesis by (auto simp: RUN0_def)
qed

section \<open>Peers\<close>

text \<open>
  C33: the peers a new bootstrap node lists are among the bootstraps it was given and connected to its
  host, and when it was given any, it lists one.
\<close>

theorem bootstrap_node_peers:
  assumes "net_ok N" and "NewBootstrap N hGen others = (left_open, Inr b)"
  shows "(\<forall>ai \<in> set (ConnectedPeers b). ai \<in> set others \<and> nt_connected N (bt_h b) (ai_ID ai))
    \<and> (others \<noteq> [] \<longrightarrow> ConnectedPeers b \<noteq> [])"
  using NewBootstrap_peers [OF assms] by blast

theorem bootstrap_node_peers_witness:
  "\<exists>b. NewBootstrap N0 (Inr []) [\<lparr>ai_ID = [1], ai_Addrs = [5]\<rparr>, \<lparr>ai_ID = [3], ai_Addrs = [6]\<rparr>] = (None, Inr b)
    \<and> ConnectedPeers b \<noteq> []"
proof -
  let ?others = "[\<lparr>ai_ID = [1], ai_Addrs = [5]\<rparr>, \<lparr>ai_ID = [3], ai_Addrs = [6 :: byte]\<rparr>]"
  have "\<exists>b. NewBootstrap N0 (Inr []) ?others = (None, Inr b)"
    by (simp add: NewBootstrap_def N0_def connectBootstraps_def)
  then obtain b where run: "NewBootstrap N0 (Inr []) ?others = (None, Inr b)" by blast
  with bootstrap_node_peers [OF N0_ok run] show ?thesis by simp
qed

text \<open>
  C34: of the peers found, at most five are dialled, none of them the host itself and each with an
  address; a dial that fails counts like one that succeeds, so after five unreachable peers the loop
  ends, however many reachable ones follow.
\<close>

theorem dialling_budget:
  assumes "net_ok N"
  shows "length (snd (findLoop N ps 0 h)) \<le> 5
    \<and> (\<forall>p \<in> set (snd (findLoop N ps 0 h)). p \<in> set ps \<and> ai_ID p \<noteq> nt_id N h \<and> ai_Addrs p \<noteq> [])
    \<and> (list_all (\<lambda>p. ai_ID p \<noteq> nt_id N h \<and> ai_Addrs p \<noteq> [] \<and> \<not> nt_connected N h (ai_ID p)
          \<and> nt_connect N h p = (h, Some err)) dead \<and> length dead = 5 \<longrightarrow>
        findLoop N (dead @ rest) 0 h = (h, dead))"
  using findLoop_log [OF assms] findLoop_gives_up [of N h err dead 0 rest]
  by (auto simp: maxSuccess_def) (metis diff_zero maxSuccess_def)+

theorem dialling_budget_witness:
  "findLoop N0 (replicate 5 \<lparr>ai_ID = [9], ai_Addrs = [1]\<rparr> @ [\<lparr>ai_ID = [1], ai_Addrs = [5]\<rparr>]) 0 [] =
     ([], replicate 5 \<lparr>ai_ID = [9], ai_Addrs = [1]\<rparr>)"
  using dialling_budget [OF N0_ok, of _ "[]" "ErrLib ''dial''" "replicate 5 \<lparr>ai_ID = [9], ai_Addrs = [1]\<rparr>"
      "[\<lparr>ai_ID = [1], ai_Addrs = [5]\<rparr>]"]
  by (simp add: N0_def list_all_iff)

section \<open>The bootstrap store\<close>

text \<open>
  C35: a single bootstrap address that a writer has put for a store is among those any reader gets for
  it, provided the writer's earlier records for the store are older.
\<close>

theorem bootstrap_address_found:
  assumes "env_ok E els" and "ds_live (lib_ds E) els" and "libs_ok E" and "kdf_ok E"
    and "wf_time now" and "usable (AddrInfoFromString U bAddr)"
    and "bs_Put E U now stAddr bAddr (UpdatableSignatureStore s) = (st', None)"
    and "\<And>k t. k \<in> dom (sg_table els s) \<Longrightarrow> has_category k \<Longrightarrow>
      category_of k = us_putKey E s (stAddrToKey E stAddr) \<Longrightarrow> key_time (local_zone E) k = Inr t \<Longrightarrow>
      instant_of t < instant_of now"
  shows "\<exists>ais. bs_Get E U st' stAddr = Inr ais \<and> AddrInfoFromString U bAddr \<in> set ais"
  by (rule bs_Put_Get [OF assms(1-7)]) (erule (3) assms(8), blast)

lemma U0_single: "AddrInfoFromString U0 (AddrInfoToString U0 \<lparr>ai_ID = [1], ai_Addrs = [5]\<rparr>) = \<lparr>ai_ID = [1], ai_Addrs = [5]\<rparr>"
  by (rule AddrInfo_roundtrip [OF U0_ok])
    (simp_all add: AddrInfoToString_def U0_def enc_info_def enc_list_def del: b64_encode.simps)

theorem bootstrap_address_found_witness:
  "\<exists>st' ais. bs_Put E0 U0 zero_time ''addr'' (AddrInfoToString U0 \<lparr>ai_ID = [1], ai_Addrs = [5]\<rparr>)
      (UpdatableSignatureStore (SG0 5)) = (st', None)
    \<and> bs_Get E0 U0 st' ''addr'' = Inr ais \<and> \<lparr>ai_ID = [1], ai_Addrs = [5]\<rparr> \<in> set ais"
proof -
  let ?put = "bs_Put E0 U0 zero_time ''addr'' (AddrInfoToString U0 \<lparr>ai_ID = [1], ai_Addrs = [5]\<rparr>)
      (UpdatableSignatureStore (SG0 5))"
  have "b64_decode (AddrInfoToString U0 \<lparr>ai_ID = [1], ai_Addrs = [5]\<rparr>) =
      Inr (enc_info (peerToPb U0 \<lparr>ai_ID = [1], ai_Addrs = [5]\<rparr>))"
    by (simp add: AddrInfoToString_def U0_def del: b64_encode.simps)
  then have put: "?put = (fst ?put, None)"
    by (simp add: bs_Put_def U0_single us_Put_def SG0_def B0_def upd_Put_eq split_beta Let_def del: b64_encode.simps)
  from bootstrap_address_found [OF E0_env_ok E0_live E0_libs_ok E0_kdf_ok _ _ put]
  have "\<exists>ais. bs_Get E0 U0 (fst ?put) ''addr'' = Inr ais \<and> \<lparr>ai_ID = [1], ai_Addrs = [5]\<rparr> \<in> set ais"
    by (simp add: U0_single usable_def sg_table_def base_table_def SG0_def B0_def)
  with put show ?thesis by blast
qed

text \<open>
  C36: a string that reads as a list of bootstrap addresses, but not as a single one, passes the check
  of \<open>Put\<close> and is handed to the store; \<open>Get\<close> then ignores every record that carries it.
\<close>

theorem bootstrap_lists_lost:
  assumes "b64_decode bAddr = Inr val" and "\<not> usable (AddrInfoFromString U bAddr)"
    and "AddrInfosFromString U bAddr \<noteq> []"
  shows "bs_Put E U now stAddr bAddr st = st_Put E now (stAddrToKey E stAddr) val st
    \<and> bootstrapAddrs U rs = bootstrapAddrs U (filter (\<lambda>r. contents (e_value r) \<noteq> val) rs)"
proof
  show "bs_Put E U now stAddr bAddr st = st_Put E now (stAddrToKey E stAddr) val st"
    using assms by (simp add: bs_Put_def)
  have same: "AddrInfoFromString U (b64_encode val) = AddrInfoFromString U bAddr"
    by (rule AddrInfoFromString_decoded) (simp add: assms(1))
  show "bootstrapAddrs U rs = bootstrapAddrs U (filter (\<lambda>r. contents (e_value r) \<noteq> val) rs)"
    unfolding bootstrapAddrs_filter using assms(2) same by (induction rs) auto
qed

definition two_peers :: "byte addr_info list" where
  "two_peers = [\<lparr>ai_ID = [1], ai_Addrs = [5]\<rparr>, \<lparr>ai_ID = [2], ai_Addrs = [6]\<rparr>]"

lemma two_peers_string:
  "b64_decode (AddrInfosToString U0 two_peers) = Inr (enc_list (map (enc_info \<circ> peerToPb U0) two_peers))"
  "AddrInfosFromString U0 (AddrInfosToString U0 two_peers) = two_peers"
  "\<not> usable (AddrInfoFromString U0 (AddrInfosToString U0 two_peers))"
proof -
  show dec: "b64_decode (AddrInfosToString U0 two_peers) = Inr (enc_list (map (enc_info \<circ> peerToPb U0) two_peers))"
    by (simp add: AddrInfosToString_def U0_def del: b64_encode.simps)
  show "AddrInfosFromString U0 (AddrInfosToString U0 two_peers) = two_peers"
    by (rule AddrInfos_roundtrip [OF U0_ok])
      (simp_all add: AddrInfosToString_def U0_def two_peers_def enc_info_def enc_list_def del: b64_encode.simps)
  define x where "x = enc_info (peerToPb U0 (two_peers ! 0))"
  define y where "y = enc_info (peerToPb U0 (two_peers ! 1))"
  have list: "enc_list (map (enc_info \<circ> peerToPb U0) two_peers) = enc_list [x, y]"
    by (simp add: x_def y_def two_peers_def)
  obtain r where "x = 1 # r"
    by (simp add: x_def two_peers_def enc_info_def enc_list_def peerToPb_def U0_def ref_id_def bytes_of_string_def
        del: b64_encode.simps)
  then have "pid_decode ref_id (dec_str x) = Inl (ErrLib ''failed to parse peer ID'')"
    by (simp add: ref_id_def dec_str_def string_of_bytes_def char_of_eq_iff)
  then have "AddrInfoFromString U0 (AddrInfosToString U0 two_peers) = zero_addr_info"
    unfolding AddrInfoFromString_def dec list
    by (simp add: U0_def dec_info_def pbToPeer_def)
  then show "\<not> usable (AddrInfoFromString U0 (AddrInfosToString U0 two_peers))"
    by (simp add: usable_def zero_addr_info_def)
qed

theorem bootstrap_lists_lost_witness:
  "bootstrapAddrs U0 [\<lparr>e_key = ''/k'', e_value = Some (enc_list (map (enc_info \<circ> peerToPb U0) two_peers)),
      e_size = 0, r_error = None\<rparr>] = []"
proof -
  have "AddrInfosFromString U0 (AddrInfosToString U0 two_peers) \<noteq> []"
    by (simp add: two_peers_string(2)) (simp add: two_peers_def)
  from bootstrap_lists_lost [OF two_peers_string(1,3) this, of E0 zero_time "''a''" "LogStore B0"]
  have "bootstrapAddrs U0 rs =
      bootstrapAddrs U0 (filter (\<lambda>r. contents (e_value r) \<noteq> enc_list (map (enc_info \<circ> peerToPb U0) two_peers)) rs)" for rs
    by blast
  from this [of "[\<lparr>e_key = ''/k'', e_value = Some (enc_list (map (enc_info \<circ> peerToPb U0) two_peers)),
      e_size = 0, r_error = None\<rparr>]"] show ?thesis by simp
qed

section \<open>Files\<close>

text \<open>
  C37: a file that was added is read back, byte for byte, under the CID \<open>Add\<close> returned, whatever else
  is added afterwards.
\<close>

theorem ipfs_add_get:
  assumes "ipfs_ok cid files L" and "ipfs_Add L data s = Some (s1, Inr c)" and "AddReader L r s1 = Some (s2, res)"
  shows "ipfs_Get L s1 c = Inr data \<and> ipfs_Get L s2 c = Inr data"
proof -
  from assms(2) have add: "AddReader L (buffer_reads data) s = Some (s1, Inr c)" by (simp add: ipfs_Add_def)
  obtain rs m where p: "splitToBlocks (buffer_reads data) = Some (Inr rs)" "c_marshal (ip_cids L) (map cid rs) = Inr m"
    "c = cid m" "m \<in> files s1" "set rs \<subseteq> files s1"
    by (rule AddReader_parts [OF assms(1) add])
  have get: "ipfs_Get L s' c = Inr data" if "files s1 \<subseteq> files s'" for s'
  proof -
    have "getReader L s' c = Inr m" unfolding p(3) by (rule getReader_added [OF assms(1)]) (use that p(4) in blast)
    moreover have "getReadersFromBlockCids L s' (map cid rs) = Inr rs"
      by (rule getReaders_added [OF assms(1)]) (use that p(5) in blast)
    ultimately show ?thesis
      using split_merge [OF p(1)] ipfs_okD(6) [OF assms(1) p(2)]
      by (simp add: ipfs_Get_def GetReader_def blockCids_Unmarshal_def)
  qed
  from get [of s1] get [of s2] AddReader_keeps [OF assms(1,3)] show ?thesis by simp
qed

lemma I0_add: "\<exists>s1 c. AddReader I0 (buffer_reads [1, 2, 3]) [] = Some (s1, Inr c)"
  by (simp add: AddReader_def buffer_reads.simps block_size_def splitToBlocks_def addReader_def I0_def
      blockCids_Marshal_def del: b64_encode.simps)

lemma I0_add_more: "\<exists>s2 res. AddReader I0 [([4], Some EOF)] s1 = Some (s2, res)"
  by (simp add: AddReader_def splitToBlocks_def addReader_def I0_def blockCids_Marshal_def del: b64_encode.simps)

theorem ipfs_add_get_witness:
  "\<exists>s1 s2 c. ipfs_Add I0 [1, 2, 3] [] = Some (s1, Inr c) \<and> ipfs_Get I0 s2 c = Inr [1, 2, 3]"
proof -
  obtain s1 c where 1: "ipfs_Add I0 [1, 2, 3] [] = Some (s1, Inr c)" using I0_add by (auto simp: ipfs_Add_def)
  obtain s2 res where 2: "AddReader I0 [([4], Some EOF)] s1 = Some (s2, res)" using I0_add_more by blast
  from 1 ipfs_add_get [OF I0_ok 1 2] show ?thesis by blast
qed

text \<open>
  C38: the CID of a file is decided by the blocks its reader delivers, on whatever peer and with the
  CID getter too: the same blocks give the same CID, and other blocks, even of the same bytes, give
  another one, as long as the different files the peers hold have different CIDs.
\<close>

theorem ipfs_cid_of_blocks:
  assumes "ipfs_ok cid files L" and "inj_on cid (files s1 \<union> files s2)"
    and "AddReader L r s = Some (s1, Inr c)" and "splitToBlocks r = Some (Inr rs)"
    and "cg_GetReader L r' s' = Some (s2, Inr c')" and "splitToBlocks r' = Some (Inr rs')"
  shows "c = c' \<longleftrightarrow> rs = rs'"
proof -
  have "AddReader L r' s' = Some (s2, Inr c')" using assms(5) by (simp add: cg_GetReader_eq)
  from blocks_decide [OF assms(1-4) this assms(6)] show ?thesis .
qed

theorem ipfs_cid_of_blocks_witness:
  "\<exists>s1 s2 c c'. AddReader I0 [([1, 2], Some EOF)] [] = Some (s1, Inr c)
    \<and> cg_GetReader I0 [([1], None), ([2], Some EOF)] [] = Some (s2, Inr c') \<and> c \<noteq> c'"
proof -
  have "\<exists>s1 c. AddReader I0 [([1, 2], Some EOF)] [] = Some (s1, Inr c)"
    "\<exists>s2 c'. cg_GetReader I0 [([1], None), ([2], Some EOF)] [] = Some (s2, Inr c')"
    by (simp_all add: AddReader_def cg_GetReader_eq splitToBlocks_def addReader_def I0_def blockCids_Marshal_def
        del: b64_encode.simps)
  then obtain s1 c s2 c' where run: "AddReader I0 [([1, 2], Some EOF)] [] = Some (s1, Inr c)"
    "cg_GetReader I0 [([1], None), ([2], Some EOF)] [] = Some (s2, Inr c')" by blast
  have "c = c' \<longleftrightarrow> [[1, 2]] = [[1], [2 :: byte]]"
    by (rule ipfs_cid_of_blocks [OF I0_ok _ run(1) _ run(2)]) (simp_all add: inj_on_def splitToBlocks_def del: b64_encode.simps)
  with run show ?thesis by auto
qed

section \<open>Rooms\<close>

text \<open>
  C39: messages that were published with well-formed clocks and arrive are all returned by \<open>GetAll\<close>,
  with their data, sender and time in UTC, sorted by the publishers' clocks.
\<close>

abbreviation arrival :: "bytes \<times> bytes \<Rightarrow> next_obs" where
  "arrival m \<equiv> \<lparr>nx_mes = Some \<lparr>rm_data = Some (fst m), rm_from = snd m\<rparr>, nx_err = None, nx_done = False\<rparr>"

lemma readable_published:
  assumes "codec_ok zero_ps_message canon_ps_message c"
    and "list_all (\<lambda>(now, data, from, mm). wf_time now \<and> publish_bytes c now data = Inr mm) pubs"
  shows "readable c local (map (\<lambda>(now, data, from, mm). arrival (mm, from)) pubs) =
    map (\<lambda>(now, data, from, mm). \<lparr>rcv_data = canon_slice data, rcv_from = from, rcv_time = strip_mono (to_utc now)\<rparr>) pubs"
  using assms(2)
proof (induction pubs)
  case (Cons p pubs)
  obtain now data "from" mm where p: "p = (now, data, from, mm)" by (metis prod.exhaust)
  with Cons.prems have "wf_time now" "publish_bytes c now data = Inr mm" by auto
  from publish_convert [OF assms(1) this] Cons show ?case by (simp add: p)
qed simp

theorem rooms_deliver_sorted:
  assumes "codec_ok zero_ps_message canon_ps_message c" and "sorter_ok srt" and "nx_done fin"
    and "list_all (\<lambda>(now, data, from, mm). wf_time now \<and> publish_bytes c now data = Inr mm) pubs"
  shows "\<exists>ms. room_GetAll c local srt (map (\<lambda>(now, data, from, mm). arrival (mm, from)) pubs @ [fin]) = Some (Ret (Inr ms))
    \<and> mset ms = mset (map (\<lambda>(now, data, from, mm).
          \<lparr>rcv_data = canon_slice data, rcv_from = from, rcv_time = strip_mono (to_utc now)\<rparr>) pubs)
    \<and> sorted_wrt (\<lambda>a b. instant_of (rcv_time a) \<le> instant_of (rcv_time b)) ms"
proof -
  have all: "list_all (\<lambda>nx. \<not> nx_done nx \<and> nx_err nx = None \<and> nx_mes nx \<noteq> None)
      (map (\<lambda>(now, data, from, mm). arrival (mm, from)) pubs)"
    by (induction pubs) auto
  obtain ms where "room_GetAll c local srt (map (\<lambda>(now, data, from, mm). arrival (mm, from)) pubs @ fin # []) = Some (Ret (Inr ms))"
    "mset ms = mset (readable c local (map (\<lambda>(now, data, from, mm). arrival (mm, from)) pubs))"
    "sorted_wrt (\<lambda>a b. instant_of (rcv_time a) \<le> instant_of (rcv_time b)) ms"
    by (rule room_GetAll_sorted [OF assms(2) all assms(3)])
  with readable_published [OF assms(1,4)] show ?thesis by auto
qed

lemma M0_publish: "\<exists>mm. publish_bytes M0 now data = Inr mm"
  by (simp add: publish_bytes_def M0_def)

lemma mset_pair: "mset ms = {#a, b#} \<Longrightarrow> ms = [a, b] \<or> ms = [b, a]"
proof -
  assume m: "mset ms = {#a, b#}"
  then have "length ms = 2" by (metis size_mset size_add_mset size_empty numeral_2_eq_2)
  then obtain x y where "ms = [x, y]" by (metis length_0_conv length_Suc_conv numeral_2_eq_2)
  with m show ?thesis by (auto simp: add_eq_conv_diff)
qed

theorem rooms_deliver_sorted_witness:
  "\<exists>m1 m2 ms. room_GetAll M0 (''UTC'', \<lambda>_. 0) sort_by
      [arrival (m1, [1]), arrival (m2, [2]), \<lparr>nx_mes = None, nx_err = None, nx_done = True\<rparr>] = Some (Ret (Inr ms))
    \<and> map rcv_data ms = [Some [8], Some [9]]"
proof -
  let ?t = "\<lambda>n. \<lparr>t_wall = 0, t_ext = n, t_loc = UTC\<rparr>"
  let ?m = "\<lambda>n d f. \<lparr>rcv_data = Some [d], rcv_from = [f], rcv_time = ?t n\<rparr>"
  obtain m1 m2 where m: "publish_bytes M0 (?t 5) (Some [9]) = Inr m1" "publish_bytes M0 (?t 3) (Some [8]) = Inr m2"
    using M0_publish by metis
  have "list_all (\<lambda>(now, data, from, mm). wf_time now \<and> publish_bytes M0 now data = Inr mm)
      [(?t 5, Some [9], [1], m1), (?t 3, Some [8], [2], m2)]"
    using m by (simp add: wf_time_def)
  from rooms_deliver_sorted [OF M0_ok sort_by_sorter _ this, of "\<lparr>nx_mes = None, nx_err = None, nx_done = True\<rparr>" "(''UTC'', \<lambda>_. 0)"]
  obtain ms where run: "room_GetAll M0 (''UTC'', \<lambda>_. 0) sort_by
      [arrival (m1, [1]), arrival (m2, [2]), \<lparr>nx_mes = None, nx_err = None, nx_done = True\<rparr>] = Some (Ret (Inr ms))"
    and ms: "mset ms = {#?m 5 9 1, ?m 3 8 2#}"
    and sorted: "sorted_wrt (\<lambda>a b. instant_of (rcv_time a) \<le> instant_of (rcv_time b)) ms"
    by (auto simp: strip_mono_def to_utc_def set_loc_def)
  have ms2: "ms = [?m 3 8 2, ?m 5 9 1]"
    using mset_pair [OF ms] sorted by (auto simp: instant_of_def less_eq_instant_def t_sec_def)
  show ?thesis
  proof (intro exI conjI)
    show "room_GetAll M0 (''UTC'', \<lambda>_. 0) sort_by
        [arrival (m1, [1]), arrival (m2, [2]), \<lparr>nx_mes = None, nx_err = None, nx_done = True\<rparr>] = Some (Ret (Inr ms))"
      by (rule run)
    show "map rcv_data ms = [Some [8], Some [9]]" by (simp add: ms2)
  qed
qed

text \<open>
  C40: all rooms joined on one \<open>pubSub\<close> share it, with the caller who made it. When a call on one of
  the rooms finds no peers at its first look, the shared \<open>pubSub\<close> is closed for good, however the
  reset ends: its host is closed, and joining a topic on it panics.
\<close>

theorem reset_kills_shared_stack:
  assumes "rm_ps r = Some a" and "a < length H" and "ro_peers (world 0) = 0"
    and "reset world H r = Ret (H', r', err)"
  shows "\<not> px_open (H' ! a) \<and> JoinTopic R H' a topicName = Panic"
proof -
  from assms(4) have "resetLoop (world 0 # map world [1..<N_reset]) H r = Ret (H', r', err)"
    by (simp add: reset_def reset_first)
  from resetLoop_kills [OF assms(1-3) this] show ?thesis by (simp add: px_dead_def JoinTopic_def)
qed

definition PS0 :: ps_run where
  "PS0 = \<lparr>pr_hGen = None, pr_newDHT = None, pr_newGossip = None, pr_bootstrap = None, pr_join = None, pr_subscribe = None\<rparr>"

theorem reset_kills_shared_stack_witness:
  "\<exists>H r1 r2 H' r1'. NewPubSub PS0 [] = (H, Inr 0) \<and> JoinTopic PS0 H 0 ''a'' = Ret (Inr r1) \<and> JoinTopic PS0 H 0 ''b'' = Ret (Inr r2)
    \<and> reset (\<lambda>i. \<lparr>ro_peers = i, ro_run = PS0\<rparr>) H r1 = Ret (H', r1', None)
    \<and> rm_ps r1' = Some 1 \<and> rm_ps r2 = Some 0 \<and> JoinTopic PS0 H' 0 ''c'' = Panic"
proof -
  let ?H = "[\<lparr>px_ps = True, px_open = True\<rparr>]"
  let ?r1 = "\<lparr>rm_topicName = ''a'', rm_open = True, rm_ps = Some 0\<rparr>"
  let ?r2 = "\<lparr>rm_topicName = ''b'', rm_open = True, rm_ps = Some 0\<rparr>"
  let ?H' = "[\<lparr>px_ps = False, px_open = False\<rparr>, \<lparr>px_ps = True, px_open = True\<rparr>]"
  have run: "reset (\<lambda>i. \<lparr>ro_peers = i, ro_run = PS0\<rparr>) ?H ?r1 = Ret (?H', ?r1\<lparr>rm_ps := Some 1\<rparr>, None)"
    by (simp add: reset_def N_reset_def upt_rec baseReset_def NewPubSub_def JoinTopic_def pubSub_Close_def PS0_def)
  have "\<not> px_open (?H' ! 0) \<and> JoinTopic PS0 ?H' 0 ''c'' = Panic"
    by (rule reset_kills_shared_stack [OF _ _ _ run]) simp_all
  with run show ?thesis
    by (intro exI [of _ ?H] exI [of _ ?r1] exI [of _ ?r2] exI [of _ ?H'] exI [of _ "?r1\<lparr>rm_ps := Some 1\<rparr>"])
      (simp add: NewPubSub_def JoinTopic_def PS0_def)
qed

end
