(* ===== verification/Spec2Isabelle.thy ===== *)
theory Spec2Isabelle
  imports Replica_Properties Peer_Properties Acceptance_Properties Scenario_Properties Access_Properties Opening_Properties Record_Properties Network_Properties
begin

text \<open>
  p2p-verse is a Go library of peer-to-peer building blocks over go-libp2p: replicated key-value
  stores (package crdt, over go-ds-crdt), a public store of bootstrap addresses (bstore),
  content-addressed files (ipfs, over ipfs-lite), rooms of a gossip topic (pubsub, over
  go-libp2p-pubsub), and the connecting of hosts they share (discovery.go, bootstrap.go, util.go).
  This development models the library's own code as HOL functions and step relations, and proves what
  each part promises to its callers and to the other peers.

  \<^bold>\<open>How the parts interact.\<close> A store is opened by \<open>NewStore\<close> (crdtverse.go) by name or by
  address. The constructor of its mode makes a base store, joins the network (\<open>initCRDT\<close>,
  \<open>setupStore\<close>) and registers the store's validator for the topic. A local \<open>Put\<close> writes a
  record into go-ds-crdt, which sends it to the other peers; each of them runs the topic validator
  (\<open>validatorFunc\<close>) on the message before its own go-ds-crdt merges it. So a record is written by
  the code of one peer and judged by the code of another, and the theorems relate the two. An access
  store wraps a signature, updatable signature or hash store and checks every key against grants that
  are themselves records of the wrapped store. The bootstrap store is an updatable signature store at
  a fixed address.

  \<^bold>\<open>Theories and the code they model.\<close>

    \<^item> Prelude, GoStrings, Base64, GoTime, Messages: what the source uses of Go's standard library
      (errors, \<open>strings\<close>, \<open>base64.URLEncoding\<close>, \<open>time.Time\<close> with its 64-bit words and binary form),
      the protobuf messages as records, and \<open>TimeParams\<close> of crdt/pb/timeparams.go.
    \<^item> Datastore: the interface of go-datastore and go-ds-crdt, as the parameter \<open>datastore\<close> with its
      named laws. Filters and Orders: crdt/filters.go and the two orders of crdt/updatable.go.
    \<^item> Crypto: crdt/crypto.go and the key strings of signature.go.
    \<^item> BaseStore, Lifecycle: the base store and the addresses of crdt/crdtverse.go; the goroutines of
      \<open>setTimeLimit\<close> and \<open>autoSync\<close> as the step relation \<open>base_step\<close>.
    \<^item> Updatable, Signature, UpdatableSignature, Hash: the stores of the files of the same names, each
      with its validator, options, methods and the lemmas on them.
    \<^item> Access: the interface \<open>IStore\<close> as the datatype \<open>store\<close> with one function per method that
      dispatches on it, and crdt/access.go.
    \<^item> Setup: crdt/setup.go and \<open>initCRDT\<close>. Replica: the life of one peer's copy of a store as the step
      relation \<open>replica_step\<close> (local puts, merges of messages that passed the validator, the end of
      the time window) with its runs \<open>replica_run\<close>. Delivery: the abstract specification of a copy, an
      append-only \<open>ledger\<close> with its steps \<open>ledger_step\<close>, the refinement, the acceptance of one
      peer's puts by the others, and what they read then. Network: all peers of a store, each with a
      copy, and messages from anybody who cannot forge signatures, as the step relation \<open>net_step\<close>, with
      merges as in OpenRuns.
      DagSync: merges that fetch ancestors of the heads a message names, \<open>deep_step\<close>. OpenRuns: the life
      of a copy with nothing left out of what a merge or a put may do, as the step relation \<open>open_step\<close>
      with its runs \<open>open_run\<close>, and the keys a step has touched unchecked.
    \<^item> Verse: the constructors, \<open>NewStore\<close>, \<open>newStore\<close>, \<open>loadStore\<close>, \<open>loadCheck\<close>.
    \<^item> Scenario, AccessScenario, FileScenario: the acceptance scenarios the packages export
      (crdt/*_test_util.go, ipfs/test_util.go) as programs over these operations, those of crdt from the
      point where the stores are open; what two peers that share a store and an access store must see.
      Acceptance, AcceptanceAccess: the same scenarios as a whole (\<open>_all\<close>), with the bootstrap node, the
      openings by name and by address and the grants. Openings: when such an opening succeeds.
    \<^item> Util, Peers: util.go, discovery.go, bootstrap.go. Bstore: bstore/bootstrapstore.go. Ipfs:
      ipfs/ipfsverse.go and ipfs/cidgetter.go. PubSub: pubsub/pubsub.go.
    \<^item> Reference, Net_Reference: small concrete libraries that satisfy every law named below; the
      concrete runs beside the properties are evaluated over them.
    \<^item> Replica_Properties, Peer_Properties, Acceptance_Properties, Scenario_Properties,
      Access_Properties, Opening_Properties, Record_Properties, Network_Properties: the properties, C1
      to C40.

  \<^bold>\<open>How state and operations correspond.\<close> A struct is a record with the source's fields; a nil
  pointer, slice or interface value whose nil-ness the code tests is \<open>None\<close>. An operation returns the
  new state with a value, and an error is \<open>Inl\<close> of a result or \<open>Some\<close> of an error option; a panic is
  the outcome \<open>Panic\<close>. Where an object is shared and mutated (a \<open>pubSub\<close> and the rooms joined on it) it
  lives in a heap, a list indexed by addresses. The clock, random bytes and what library calls return on a run are arguments
  (\<open>now\<close>, \<open>rnd\<close>, \<open>attempt\<close>, \<open>open_run\<close>, \<open>setup_run\<close>, \<open>ps_run\<close>). What a resource is released by is a list of
  the closed resources. A loop over a channel is a recursion over the list it delivers; a goroutine is
  a rule of a step relation, or, where it only copies one channel to another, a function on the list.

  \<^bold>\<open>What the groups of lemmas show.\<close> The locale \<open>validator\<close> (no validator accepts a record once
  the window is over) is interpreted for the validator of every store and for their dispatch; the
  locale \<open>append_only\<close> (a put adds one record or none and keeps the others) for the puts of every
  store; the locale \<open>ranked_order\<close> (a three-way comparison of a rank) for both orders. Replica shows
  that validators and puts together keep a copy good and append-only as long as its merges bring in
  nothing but the checked records of a message; Delivery that such a copy refines the ledger, that a record
  written by one peer under a clean key passes the validators of the others and is read there as it was
  written. DagSync shows where this stops: the validator does not see the ancestors of a message's heads, so
  a copy is only as good as the history it fetches. OpenRuns states what is left in general: along every run
  the keys that have been touched unchecked are collected (by elements of ancestors and of heads that could
  not be read in time, elements whose key is stored elsewhere than it is written, tombstones of such nodes,
  and puts under keys that are not clean), and under all other keys the copy stays good, append-only and a
  refinement of the ledger. Network shows that whatever a reader gets under an honest writer's key, from a
  record under such another key, was signed in a call of a holder of that key; Access that grants are found,
  last until their own record is touched unchecked and, over hash stores, are made by the master key only,
  but for such records and collisions of the hash; Verse that opening returns and
  gives back the address it was asked for; Openings that it succeeds when no library call fails; Updatable and UpdatableSignature that readers get the
  newest version; the scenario theories that the exported scenarios pass: from open stores when their puts
  succeed, and from end to end whenever the openings do, because a store that was opened by name holds
  the record of its name alone and the peer that loads it by its address holds the same store; and that
  a store loaded after its limit is closed;
  Ipfs, Util and Bstore hold round trips; Peers and PubSub what the loops over candidates, resets and
  messages return.

  \<^bold>\<open>Libraries.\<close> go-datastore, go-ds-crdt, badger, libp2p, Kademlia, ipfs-lite, the protobuf runtime,
  Argon2 and the signature scheme are parameters. The laws relied on are named (\<open>env_ok\<close>, \<open>ds_live\<close>,
  \<open>libs_ok\<close>, \<open>protos_ok\<close>, \<open>kdf_ok\<close>, \<open>query_lib_ok\<close>, \<open>util_ok\<close>, \<open>net_ok\<close>, \<open>ipfs_ok\<close>,
  \<open>sorter_ok\<close>) and documented where they are defined. Of go-ds-crdt's merge it is relied on that it
  changes no key but those of the elements and tombstones it merges and takes values from those elements
  (\<open>merged\<close>, \<open>open_merged\<close>), and of badger that the lookup of a stored key is exact (\<open>has_exact\<close>).
  \<open>ds_live\<close>, where it is assumed, says that the storage does not fail in any state, \<open>net_ok\<close> that a new
  connection does not cost another one, and the timeouts and contexts of the file getter are part of what
  \<open>ip_getFile\<close> returns.

  \<^bold>\<open>Bounds.\<close> \<open>loadStore\<close> makes three turns (\<open>N_load\<close>) and one more store; the thirty seconds of a
  load check end with the event \<open>Expired\<close>, and where a list of events does not reach a decision the
  result is \<open>None\<close>; with \<open>Expired\<close> in every list it never is (\<open>new_store_returns\<close>). \<open>reset\<close> makes at
  most fifty stacks (\<open>N_reset\<close>), \<open>Bootstrap\<close> at most five dials (\<open>maxSuccess\<close>), and a \<open>Read\<close> is
  given blocks of \<open>2 ^ 18\<close> bytes. There is no other fuel: all other recursions are structural or have
  a measure.

  \<^bold>\<open>Not modelled.\<close> The generated protobuf code (the *.pb.go files), whose messages are records here;
  \<open>SampleHost\<close> and the getters of hosts and topics (\<open>AddrInfo\<close> of the stores, \<open>Topics\<close>,
  \<open>ListPeers\<close>, \<open>DHT\<close>, \<open>Discovery\<close>), which only call libraries; prints; the *_test.go files, which
  only call the scenarios; in the scenarios, the sleeps (they are the clocks and the data that has
  arrived) and the removal of the base directories; and the scenario of pubsub/test_util.go, a busy loop
  that checks nothing about what it receives. Go's data race on \<open>inTime\<close> between goroutines is not
  modelled: a step of a goroutine is atomic between its channel operations.
\<close>

end
